(* ===== verification/Prelude.thy ===== *)
theory Prelude
  imports Complex_Main "HOL-Library.AList"
begin

text \<open>
  Shared vocabulary of the development: the error monad that stands for JavaScript's
  \<open>throw\<close>, generic facts on association lists, and the state machine of a component
  (labelled step relation, reachable states, executions) with the locale that turns a
  one-step invariant proof into facts about every reachable state.
\<close>

section \<open>Hint collections\<close>

named_theorems handler_defs \<open>definitions of the handlers of a component, to unfold one step\<close>
named_theorems inv_rules \<open>preservation lemmas of component invariants\<close>

section \<open>Throwing code\<close>

text \<open>
  Code that may throw returns \<open>'e + 'a\<close>: \<open>Inl e\<close> is the thrown value, \<open>Inr a\<close> the
  result. \<open>throw_if\<close> is the guard clause \<open>if (c) throw e\<close>, and \<open>and_then\<close> runs the
  rest of the function unless something was thrown.
\<close>

fun and_then :: "'e + 'a \<Rightarrow> ('a \<Rightarrow> 'e + 'b) \<Rightarrow> 'e + 'b" where
  "and_then (Inl e) f = Inl e"
| "and_then (Inr a) f = f a"

definition throw_if :: "bool \<Rightarrow> 'e \<Rightarrow> 'e + unit" where
  "throw_if c e = (if c then Inl e else Inr ())"

lemma and_then_Inr [simp]:
  "and_then x f = Inr b \<longleftrightarrow> (\<exists>a. x = Inr a \<and> f a = Inr b)"
  by (cases x) auto

lemma and_then_Inl:
  "and_then x f = Inl e \<longleftrightarrow> x = Inl e \<or> (\<exists>a. x = Inr a \<and> f a = Inl e)"
  by (cases x) auto

lemma throw_if_Inr [simp]: "throw_if c e = Inr u \<longleftrightarrow> \<not> c"
  by (simp add: throw_if_def)

lemma throw_if_Inl: "throw_if c e = Inl e' \<longleftrightarrow> c \<and> e' = e"
  by (auto simp: throw_if_def)

section \<open>Association lists\<close>

text \<open>
  A list is the table of a keyed collection when its keys are distinct. The facts below
  relate \<open>map_of\<close>, the set of entries and the two updates \<open>AList.update\<close> and
  \<open>AList.delete\<close>.
\<close>

abbreviation keys_of :: "('k \<times> 'v) list \<Rightarrow> 'k list" where
  "keys_of m \<equiv> map fst m"

lemma map_of_delete_eq: "map_of (AList.delete k m) = (map_of m)(k := None)"
  by (fact delete_conv')

lemma map_of_update_eq: "map_of (AList.update k v m) = (map_of m)(k \<mapsto> v)"
  by (fact update_conv')

lemma distinct_keys_delete [simp]:
  "distinct (keys_of m) \<Longrightarrow> distinct (keys_of (AList.delete k m))"
  by (fact distinct_delete)

lemma distinct_keys_update [simp]:
  "distinct (keys_of m) \<Longrightarrow> distinct (keys_of (AList.update k v m))"
  by (fact distinct_update)

lemma update_fresh: "k \<notin> set (keys_of m) \<Longrightarrow> AList.update k v m = m @ [(k, v)]"
  by (induction m) auto

lemma length_update:
  "length (AList.update k v m) = (if k \<in> set (keys_of m) then length m else Suc (length m))"
  by (induction m) auto

lemma set_keys_delete: "set (keys_of (AList.delete k m)) = set (keys_of m) - {k}"
  by (auto simp: delete_keys)

lemma delete_empty_iff: "AList.delete k m = [] \<longleftrightarrow> set (keys_of m) \<subseteq> {k}"
  by (induction m) auto

lemma key_in_iff: "k \<in> set (keys_of m) \<longleftrightarrow> map_of m k \<noteq> None"
  by (simp add: map_of_eq_None_iff)

lemma entry_iff:
  "distinct (keys_of m) \<Longrightarrow> (k, v) \<in> set m \<longleftrightarrow> map_of m k = Some v"
  by simp

lemma values_iff:
  "distinct (keys_of m) \<Longrightarrow> v \<in> snd ` set m \<longleftrightarrow> (\<exists>k. map_of m k = Some v)"
  by force

lemma map_of_map_values: "map_of (map (\<lambda>(k, v). (k, f v)) m) k = map_option f (map_of m k)"
  by (induction m) auto

lemma delete_map_values:
  "AList.delete k (map (\<lambda>(a, v). (a, f v)) m) = map (\<lambda>(a, v). (a, f v)) (AList.delete k m)"
  by (induction m) auto

section \<open>State machines\<close>

text \<open>
  A component is a start predicate and a labelled step relation. \<open>reachable\<close> is the
  least set of states that holds the start states and is closed under steps;
  \<open>execution\<close> is a finite run with the list of its labels.
\<close>

inductive reachable :: "('s \<Rightarrow> bool) \<Rightarrow> ('s \<Rightarrow> 'l \<Rightarrow> 's \<Rightarrow> bool) \<Rightarrow> 's \<Rightarrow> bool"
  for start and stp where
  reachable_start: "start s \<Longrightarrow> reachable start stp s"
| reachable_step: "reachable start stp s \<Longrightarrow> stp s l t \<Longrightarrow> reachable start stp t"

inductive execution :: "('s \<Rightarrow> 'l \<Rightarrow> 's \<Rightarrow> bool) \<Rightarrow> 's \<Rightarrow> 'l list \<Rightarrow> 's \<Rightarrow> bool"
  for stp where
  execution_nil: "execution stp s [] s"
| execution_cons: "stp s l t \<Longrightarrow> execution stp t ls u \<Longrightarrow> execution stp s (l # ls) u"

inductive_cases execution_NilE [elim!]: "execution stp s [] t"
inductive_cases execution_ConsE [elim!]: "execution stp s (l # ls) t"

lemma execution_reachable:
  "execution stp s ls t \<Longrightarrow> reachable start stp s \<Longrightarrow> reachable start stp t"
  by (induction rule: execution.induct) (auto intro: reachable_step)

lemma execution_append:
  "execution stp s ls t \<Longrightarrow> execution stp t ms u \<Longrightarrow> execution stp s (ls @ ms) u"
  by (induction rule: execution.induct) (auto intro: execution_cons)

text \<open>
  The contract of a machine with an invariant. Every component's theory interprets it on
  its own step relation.
\<close>

locale machine =
  fixes start :: "'s \<Rightarrow> bool"
    and stp :: "'s \<Rightarrow> 'l \<Rightarrow> 's \<Rightarrow> bool"
    and inv :: "'s \<Rightarrow> bool"
  assumes start_inv: "start s \<Longrightarrow> inv s"
    and step_inv: "inv s \<Longrightarrow> stp s l t \<Longrightarrow> inv t"
begin

lemma reach_inv: "reachable start stp s \<Longrightarrow> inv s"
  by (induction rule: reachable.induct) (auto intro: start_inv step_inv)

lemma run_inv: "execution stp s ls t \<Longrightarrow> inv s \<Longrightarrow> inv t"
  by (induction rule: execution.induct) (auto intro: step_inv)

text \<open>A property of one step from an invariant state holds of every step of a run.\<close>

lemma run_steps:
  assumes "execution stp s ls t" and "inv s"
    and "\<And>a l b. inv a \<Longrightarrow> stp a l b \<Longrightarrow> P l"
  shows "list_all P ls"
  using assms by (induction rule: execution.induct) (auto intro: step_inv)

end

end
