(* ===== verification/JsValues.thy ===== *)
theory JsValues
  imports Prelude "HOL-Library.Word"
begin

text \<open>
  The values of the language the program is written in, as far as the program uses them:
  strings as sequences of 16-bit code units, the values \<open>JSON.parse\<close> produces, property
  reads, truthiness, the string methods and regular expressions the source applies, and the
  effect on a value of a trip through \<open>JSON.stringify\<close> and \<open>JSON.parse\<close>.
\<close>

section \<open>Strings\<close>

text \<open>
  A JavaScript string is a sequence of UTF-16 code units; \<open>length\<close> counts code units. A
  literal of the source is written \<open>js ''...''\<close>.
\<close>

type_synonym jstring = "16 word list"

definition js :: "string \<Rightarrow> jstring" where
  "js s = map (\<lambda>c. word_of_nat (of_char c)) s"

lemma code_unit_inj: "(word_of_nat (of_char a) :: 16 word) = word_of_nat (of_char b) \<longleftrightarrow> a = b"
proof
  assume eq: "(word_of_nat (of_char a) :: 16 word) = word_of_nat (of_char b)"
  have small: "of_char c < (2::nat) ^ 16" for c
    by (rule less_trans [of _ 256]) (simp_all add: of_char_def)
  from eq have "unat (word_of_nat (of_char a) :: 16 word) = unat (word_of_nat (of_char b) :: 16 word)"
    by simp
  with small [of a] small [of b] have "(of_char a :: nat) = of_char b"
    by (simp add: unat_of_nat)
  then show "a = b" by simp
qed simp

lemma js_eq_iff [simp]: "js a = js b \<longleftrightarrow> a = b"
proof -
  have "inj (\<lambda>c. word_of_nat (of_char c) :: 16 word)"
    by (rule injI) (simp add: code_unit_inj)
  then show ?thesis by (simp add: js_def inj_map_eq_map)
qed

lemma js_Nil [simp]: "js [] = []" and js_eq_Nil [simp]: "js s = [] \<longleftrightarrow> s = []"
  and Nil_eq_js [simp]: "[] = js s \<longleftrightarrow> s = []"
  by (auto simp: js_def)

lemma length_js [simp]: "length (js s) = length s"
  by (simp add: js_def)

subsection \<open>Character classes and the string methods used\<close>

definition is_digit :: "16 word \<Rightarrow> bool" where
  "is_digit c \<longleftrightarrow> 48 \<le> c \<and> c \<le> 57"

definition is_alnum :: "16 word \<Rightarrow> bool" where
  "is_alnum c \<longleftrightarrow> 97 \<le> c \<and> c \<le> 122 \<or> 65 \<le> c \<and> c \<le> 90 \<or> is_digit c"

text \<open>The class \<open>\s\<close>, which is also what \<open>trim\<close> strips: white space and line terminators.\<close>

definition is_space :: "16 word \<Rightarrow> bool" where
  "is_space c \<longleftrightarrow> 9 \<le> c \<and> c \<le> 13 \<or> c = 32 \<or> c = 160 \<or> c = 5760 \<or> 8192 \<le> c \<and> c \<le> 8202 \<or>
     c = 8232 \<or> c = 8233 \<or> c = 8239 \<or> c = 8287 \<or> c = 12288 \<or> c = 65279"

lemmas char_class_defs = is_digit_def is_alnum_def is_space_def

definition trim :: "jstring \<Rightarrow> jstring" where
  "trim s = rev (dropWhile is_space (rev (dropWhile is_space s)))"

definition starts_with :: "jstring \<Rightarrow> jstring \<Rightarrow> bool" where
  "starts_with s p \<longleftrightarrow> take (length p) s = p"

text \<open>\<open>s.split(c)\<close> for a separator of one code unit.\<close>

fun split_on :: "16 word \<Rightarrow> jstring \<Rightarrow> jstring list" where
  "split_on c [] = [[]]"
| "split_on c (x # xs) =
     (if x = c then [] # split_on c xs
      else case split_on c xs of [] \<Rightarrow> [[x]] | w # ws \<Rightarrow> (x # w) # ws)"

lemma starts_with_js [simp]: "starts_with (js a) (js b) \<longleftrightarrow> take (length b) a = b"
proof -
  have "take n (js a) = js (take n a)" for n by (simp add: js_def take_map)
  then show ?thesis by (simp add: starts_with_def)
qed

lemma length_trim: "length (trim s) \<le> length s"
  unfolding trim_def length_rev
  by (rule order_trans [OF length_dropWhile_le]) (simp add: length_dropWhile_le)

lemma dropWhile_id: "xs = [] \<or> \<not> P (hd xs) \<Longrightarrow> dropWhile P xs = xs"
  by (cases xs) auto

lemma dropWhile_rev_stable:
  assumes "xs = [] \<or> \<not> P (hd xs)"
  shows "dropWhile P (rev (dropWhile P (rev xs))) = rev (dropWhile P (rev xs))"
proof (rule dropWhile_id)
  have split: "xs = rev (dropWhile P (rev xs)) @ rev (takeWhile P (rev xs))"
    by (metis rev_append rev_rev_ident takeWhile_dropWhile_id)
  show "rev (dropWhile P (rev xs)) = [] \<or> \<not> P (hd (rev (dropWhile P (rev xs))))"
  proof (cases "rev (dropWhile P (rev xs))")
    case (Cons y ys)
    from split have "xs = y # ys @ rev (takeWhile P (rev xs))"
      unfolding Cons by simp
    with assms have "\<not> P y" by (metis list.distinct(1) list.sel(1))
    then show ?thesis unfolding Cons by simp
  qed simp
qed

lemma trim_trim [simp]: "trim (trim s) = trim s"
proof -
  let ?t = "dropWhile is_space s"
  have "?t = [] \<or> \<not> is_space (hd ?t)"
    using hd_dropWhile by blast
  then have "dropWhile is_space (trim s) = trim s"
    unfolding trim_def by (rule dropWhile_rev_stable)
  moreover have "dropWhile is_space (rev (trim s)) = rev (trim s)"
    by (simp add: trim_def dropWhile_id hd_dropWhile)
  ultimately show ?thesis by (simp add: trim_def [of "trim s"])
qed

lemma split_on_nonempty: "split_on c s \<noteq> []"
  by (induction s) (auto split: list.splits)

lemma split_on_no_sep: "w \<in> set (split_on c s) \<Longrightarrow> c \<notin> set w"
  by (induction s arbitrary: w) (auto split: if_splits list.splits)

section \<open>Values\<close>

text \<open>
  A number is a finite one or one of the three that are not. Negative zero is not told from
  zero: no operation of the source distinguishes them, nor does \<open>JSON.stringify\<close>.
\<close>

datatype number = NaN | PosInf | NegInf | Finite rat

datatype jsval =
    Undefined
  | Null
  | Bool bool
  | Num number
  | Str jstring
  | Arr "jsval list"
  | Obj "(jstring \<times> jsval) list"

abbreviation jnum :: "int \<Rightarrow> jsval" where
  "jnum n \<equiv> Num (Finite (of_int n))"

fun truthy :: "jsval \<Rightarrow> bool" where
  "truthy Undefined = False"
| "truthy Null = False"
| "truthy (Bool b) = b"
| "truthy (Num n) = (n \<noteq> NaN \<and> n \<noteq> Finite 0)"
| "truthy (Str s) = (s \<noteq> [])"
| "truthy _ = True"

text \<open>\<open>typeof v === 'object'\<close>, and \<open>v == null\<close>.\<close>

fun typeof_object :: "jsval \<Rightarrow> bool" where
  "typeof_object Null = True"
| "typeof_object (Arr _) = True"
| "typeof_object (Obj _) = True"
| "typeof_object _ = False"

fun is_str :: "jsval \<Rightarrow> bool" where
  "is_str (Str _) = True"
| "is_str _ = False"

fun is_arr :: "jsval \<Rightarrow> bool" where
  "is_arr (Arr _) = True"
| "is_arr _ = False"

text \<open>The string in a value already tested to be one.\<close>

fun str_val :: "jsval \<Rightarrow> jstring" where
  "str_val (Str s) = s"
| "str_val _ = []"

lemma is_str_iff: "is_str v \<longleftrightarrow> v = Str (str_val v)"
  by (cases v) auto

definition nullish :: "jsval \<Rightarrow> bool" where
  "nullish v \<longleftrightarrow> v = Undefined \<or> v = Null"

fun is_integer :: "jsval \<Rightarrow> bool" where
  "is_integer (Num (Finite r)) = (of_int \<lfloor>r\<rfloor> = r)"
| "is_integer _ = False"

fun nonneg :: "jsval \<Rightarrow> bool" where
  "nonneg (Num (Finite r)) = (0 \<le> r)"
| "nonneg (Num PosInf) = True"
| "nonneg _ = False"

text \<open>
  Reading a property that the source names in a value that is not \<open>null\<close> or \<open>undefined\<close>.
  Only objects have own properties of those names; the prototypes have none of them.
\<close>

fun get_prop :: "jsval \<Rightarrow> jstring \<Rightarrow> jsval" where
  "get_prop (Obj ps) k = (case map_of ps k of Some v \<Rightarrow> v | None \<Rightarrow> Undefined)"
| "get_prop _ k = Undefined"

text \<open>\<open>[v].flat()\<close>.\<close>

fun flat1 :: "jsval \<Rightarrow> jsval list" where
  "flat1 (Arr vs) = vs"
| "flat1 v = [v]"

subsection \<open>A trip over the wire\<close>

text \<open>
  \<open>wire v\<close> is \<open>JSON.parse(JSON.stringify(v))\<close>: undefined properties vanish, undefined
  elements and the numbers JSON cannot write become \<open>null\<close>.
\<close>

function wire :: "jsval \<Rightarrow> jsval" where
  "wire Undefined = Null"
| "wire Null = Null"
| "wire (Bool b) = Bool b"
| "wire (Num n) = (case n of Finite r \<Rightarrow> Num n | _ \<Rightarrow> Null)"
| "wire (Str s) = Str s"
| "wire (Arr vs) = Arr (map wire vs)"
| "wire (Obj ps) = Obj (map (\<lambda>(k, v). (k, wire v)) (filter (\<lambda>(k, v). v \<noteq> Undefined) ps))"
  by pat_completeness auto
termination
  by (relation "measure size") (auto simp: less_Suc_eq_le intro: size_list_estimation')

lemma wire_Obj_cases: "wire (Obj ps) = Obj (map (\<lambda>(k, v). (k, wire v)) (filter (\<lambda>(k, v). v \<noteq> Undefined) ps))"
  by simp

text \<open>A second trip changes nothing, and no property of what arrives is undefined.\<close>

lemma wire_not_Undefined [simp]: "wire v \<noteq> Undefined"
  by (cases v) (auto split: number.splits)

lemma filter_wire_fields:
  "filter (\<lambda>(k, v). v \<noteq> Undefined) (map (\<lambda>(k, v). (k, wire v)) ps) = map (\<lambda>(k, v). (k, wire v)) ps"
  by (induction ps) auto

lemma wire_idem: "wire (wire v) = wire v"
proof (induction v rule: wire.induct)
  case (4 n)
  then show ?case by (cases n) auto
qed (auto simp: filter_wire_fields case_prod_beta)

text \<open>A property the receiver reads is the one the sender wrote.\<close>

lemma map_of_wire_fields:
  "distinct (map fst ps) \<Longrightarrow>
   map_of (map (\<lambda>(k, v). (k, wire v)) (filter (\<lambda>(k, v). v \<noteq> Undefined) ps)) k =
     (case map_of ps k of None \<Rightarrow> None | Some v \<Rightarrow> if v = Undefined then None else Some (wire v))"
  by (induction ps) (force simp: map_of_eq_None_iff split: option.splits)+

lemma get_prop_wire:
  "distinct (map fst ps) \<Longrightarrow> get_prop (wire (Obj ps)) k =
     (let v = get_prop (Obj ps) k in if v = Undefined then Undefined else wire v)"
  by (auto simp: map_of_wire_fields split: option.splits)

lemma get_prop_js_Cons [simp]:
  "get_prop (Obj ((k, v) # ps)) k' = (if k' = k then v else get_prop (Obj ps) k')"
  by auto

lemma get_prop_Obj_Nil [simp]: "get_prop (Obj []) k = Undefined"
  by simp

declare get_prop.simps(1) [simp del]

section \<open>Protocol envelopes\<close>

text \<open>
  Both ends build \<open>{ version: 1, type, payload, requestId }\<close>; the request id is undefined
  on messages that are no reply.
\<close>

definition envelope :: "jstring \<Rightarrow> jsval \<Rightarrow> jsval \<Rightarrow> jsval" where
  "envelope typ payload requestId =
     Obj [(js ''version'', jnum 1), (js ''type'', Str typ), (js ''payload'', payload),
          (js ''requestId'', requestId)]"

lemma envelope_props [simp]:
  "get_prop (envelope t p r) (js ''version'') = jnum 1"
  "get_prop (envelope t p r) (js ''type'') = Str t"
  "get_prop (envelope t p r) (js ''payload'') = p"
  "get_prop (envelope t p r) (js ''requestId'') = r"
  by (simp_all add: envelope_def)

lemma envelope_eq_iff [simp]:
  "envelope t p r = envelope t' p' r' \<longleftrightarrow> t = t' \<and> p = p' \<and> r = r'"
  by (auto simp: envelope_def)

lemma get_prop_wire_envelope:
  "get_prop (wire (envelope t p r)) k =
     (let v = get_prop (envelope t p r) k in if v = Undefined then Undefined else wire v)"
  unfolding envelope_def by (rule get_prop_wire) simp

text \<open>Reading a received message: its type, its request id and a field of its payload.\<close>

definition msg_type :: "jsval \<Rightarrow> jsval" where
  "msg_type m = get_prop m (js ''type'')"

definition msg_request :: "jsval \<Rightarrow> jsval" where
  "msg_request m = get_prop m (js ''requestId'')"

definition msg_field :: "jsval \<Rightarrow> string \<Rightarrow> jsval" where
  "msg_field m k = get_prop (get_prop m (js ''payload'')) (js k)"

lemma msg_type_wire [simp]: "msg_type (wire (envelope t p r)) = Str t"
  by (simp add: msg_type_def get_prop_wire_envelope)

lemma msg_request_wire [simp]:
  "msg_request (wire (envelope t p r)) = (if r = Undefined then Undefined else wire r)"
  by (simp add: msg_request_def get_prop_wire_envelope Let_def)

lemma msg_field_wire:
  "distinct (map fst ps) \<Longrightarrow> msg_field (wire (envelope t (Obj ps) r)) k =
     (let v = get_prop (Obj ps) (js k) in if v = Undefined then Undefined else wire v)"
  by (simp add: msg_field_def get_prop_wire_envelope Let_def get_prop_wire del: wire.simps)

end
