(* ===== verification/RoomStore.thy ===== *)
theory RoomStore
  imports JsValues
begin

text \<open>
  The contract of a table of rooms, which two components of the signaling server keep: the
  \<open>rooms\<close> Map of \<open>signaling/src/server.js\<close> and the \<open>RoomManager\<close> of
  \<open>signaling/src/rooms.js\<close>. Both are Maps from room ids to Maps from participant ids to
  participants, both drop a room when its last participant leaves; they differ in whether
  entering creates the room. The locale states what a client of such a table relies on and
  derives, once, its membership laws and its agreement with a plain set of memberships.
\<close>

section \<open>Abstract membership\<close>

text \<open>The abstract table: for each room, the participants in it. A call is an entry or a departure.\<close>

type_synonym ('r, 'i, 'p) membership = "'r \<Rightarrow> 'i \<rightharpoonup> 'p"

datatype ('r, 'i, 'p) room_call = Enter 'r 'p | Leave 'r 'i

fun abs_call :: "('p \<Rightarrow> 'i) \<Rightarrow> ('r, 'i, 'p) membership \<Rightarrow> ('r, 'i, 'p) room_call \<Rightarrow> ('r, 'i, 'p) membership" where
  "abs_call ident m (Enter r p) = m(r := (m r)(ident p \<mapsto> p))"
| "abs_call ident m (Leave r i) = m(r := (m r)(i := None))"

locale room_store =
  fixes ok :: "'s \<Rightarrow> bool"
    and look :: "'s \<Rightarrow> 'r \<Rightarrow> 'i \<rightharpoonup> 'p"
    and has_room :: "'s \<Rightarrow> 'r \<Rightarrow> bool"
    and admits :: "'s \<Rightarrow> 'r \<Rightarrow> bool"
    and ident :: "'p \<Rightarrow> 'i"
    and enter :: "'s \<Rightarrow> 'r \<Rightarrow> 'p \<Rightarrow> 's"
    and leave :: "'s \<Rightarrow> 'r \<Rightarrow> 'i \<Rightarrow> 's"
  assumes ok_enter: "ok s \<Longrightarrow> ok (enter s r p)"
    and ok_leave: "ok s \<Longrightarrow> ok (leave s r i)"
    and look_enter: "ok s \<Longrightarrow>
      look (enter s r p) = (if admits s r then (look s)(r := (look s r)(ident p \<mapsto> p)) else look s)"
    and look_leave: "ok s \<Longrightarrow> look (leave s r i) = (look s)(r := (look s r)(i := None))"
    and look_has_room: "ok s \<Longrightarrow> look s r i = Some p \<Longrightarrow> has_room s r"
    and has_room_enter: "ok s \<Longrightarrow> has_room (enter s r p) r' \<longleftrightarrow> has_room s r' \<or> admits s r \<and> r' = r"
    and has_room_leave: "ok s \<Longrightarrow> has_room (leave s r i) r' \<longleftrightarrow>
      has_room s r' \<and> (r' = r \<longrightarrow> (\<exists>j. j \<noteq> i \<and> look s r j \<noteq> None))"
begin

definition members :: "'s \<Rightarrow> 'r \<Rightarrow> 'i set" where
  "members s r = dom (look s r)"

lemma members_enter:
  "ok s \<Longrightarrow> admits s r \<Longrightarrow> members (enter s r p) r' = (if r' = r then insert (ident p) (members s r) else members s r')"
  by (auto simp: members_def look_enter)

lemma members_leave:
  "ok s \<Longrightarrow> members (leave s r i) r' = (if r' = r then members s r - {i} else members s r')"
  by (auto simp: members_def look_leave)

lemma leave_after_enter:
  "ok s \<Longrightarrow> admits s r \<Longrightarrow> ident p \<notin> members s r \<Longrightarrow> look (leave (enter s r p) r (ident p)) = look s"
  by (auto simp: look_leave look_enter ok_enter members_def fun_eq_iff domIff)

text \<open>Every room that exists has somebody in it, and a room its last member leaves is gone.\<close>

definition occupied :: "'s \<Rightarrow> bool" where
  "occupied s \<longleftrightarrow> (\<forall>r. has_room s r \<longrightarrow> members s r \<noteq> {})"

lemma occupied_enter: "ok s \<Longrightarrow> occupied s \<Longrightarrow> occupied (enter s r p)"
  by (auto simp: occupied_def members_def look_enter has_room_enter)

lemma occupied_leave: "ok s \<Longrightarrow> occupied s \<Longrightarrow> occupied (leave s r i)"
  unfolding occupied_def
proof (intro allI impI)
  fix r'
  assume ok: "ok s" and occ: "\<forall>r. has_room s r \<longrightarrow> members s r \<noteq> {}" and "has_room (leave s r i) r'"
  then have "has_room s r'" and "r' = r \<longrightarrow> (\<exists>j. j \<noteq> i \<and> j \<in> members s r)"
    by (auto simp: has_room_leave members_def)
  with ok occ show "members (leave s r i) r' \<noteq> {}"
    by (auto simp: members_leave)
qed

lemma last_leave_drops: "ok s \<Longrightarrow> members s r \<subseteq> {i} \<Longrightarrow> \<not> has_room (leave s r i) r"
  by (auto simp: has_room_leave members_def)

text \<open>Simulation: the concrete calls implement the abstract ones.\<close>

fun call :: "'s \<Rightarrow> ('r, 'i, 'p) room_call \<Rightarrow> 's" where
  "call s (Enter r p) = enter s r p"
| "call s (Leave r i) = leave s r i"

fun admitted :: "'s \<Rightarrow> ('r, 'i, 'p) room_call \<Rightarrow> bool" where
  "admitted s (Enter r p) = admits s r"
| "admitted s (Leave r i) = True"

lemma call_simulates:
  "ok s \<Longrightarrow> admitted s c \<Longrightarrow> look (call s c) = abs_call ident (look s) c \<and> ok (call s c)"
  by (cases c) (auto simp: look_enter look_leave ok_enter ok_leave)

end

section \<open>Nested Maps\<close>

text \<open>The representation both components use: a Map of Maps, in insertion order.\<close>

type_synonym 'p room_table = "(jstring \<times> (jstring \<times> 'p) list) list"

definition table_ok :: "'p room_table \<Rightarrow> bool" where
  "table_ok rooms \<longleftrightarrow> distinct (keys_of rooms) \<and> list_all (\<lambda>(r, room). distinct (keys_of room)) rooms"

definition table_look :: "'p room_table \<Rightarrow> jstring \<Rightarrow> jstring \<rightharpoonup> 'p" where
  "table_look rooms r = (case map_of rooms r of Some room \<Rightarrow> map_of room | None \<Rightarrow> Map.empty)"

definition table_has :: "'p room_table \<Rightarrow> jstring \<Rightarrow> bool" where
  "table_has rooms r \<longleftrightarrow> map_of rooms r \<noteq> None"

lemmas table_defs = table_look_def table_has_def

text \<open>What is left of a room when a participant goes: nothing when it was the last one.\<close>

definition table_put :: "'p room_table \<Rightarrow> jstring \<Rightarrow> (jstring \<times> 'p) list \<Rightarrow> 'p room_table" where
  "table_put rooms r room = (if room = [] then AList.delete r (AList.update r room rooms)
     else AList.update r room rooms)"

lemma table_ok_iff: "table_ok rooms \<longleftrightarrow>
    distinct (keys_of rooms) \<and> (\<forall>r room. map_of rooms r = Some room \<longrightarrow> distinct (keys_of room))"
  by (auto simp: table_ok_def list_all_iff)

lemma table_ok_Nil [simp]: "table_ok []"
  by (simp add: table_ok_def)

lemma table_ok_room: "table_ok rooms \<Longrightarrow> map_of rooms r = Some room \<Longrightarrow> distinct (keys_of room)"
  by (simp add: table_ok_iff)

lemma table_ok_update:
  "table_ok rooms \<Longrightarrow> distinct (keys_of room) \<Longrightarrow> table_ok (AList.update r room rooms)"
  by (auto simp: table_ok_iff map_of_update_eq)

lemma table_ok_delete: "table_ok rooms \<Longrightarrow> table_ok (AList.delete r rooms)"
  by (auto simp: table_ok_iff map_of_delete_eq)

lemma map_of_table_put:
  "map_of (table_put rooms r room) = (map_of rooms)(r := (if room = [] then None else Some room))"
  by (auto simp: table_put_def map_of_delete_eq map_of_update_eq)

lemma table_ok_put: "table_ok rooms \<Longrightarrow> distinct (keys_of room) \<Longrightarrow> table_ok (table_put rooms r room)"
  by (auto simp: table_put_def intro: table_ok_update table_ok_delete)

lemma table_look_Some: "map_of rooms r = Some room \<Longrightarrow> table_look rooms r = map_of room"
  and table_look_None: "map_of rooms r = None \<Longrightarrow> table_look rooms r = Map.empty"
  by (simp_all add: table_look_def)

lemma table_look_update:
  "table_look (AList.update r room rooms) = (table_look rooms)(r := map_of room)"
  by (auto simp: table_look_def map_of_update_eq fun_eq_iff)

lemma table_look_put: "table_look (table_put rooms r room) = (table_look rooms)(r := map_of room)"
  by (auto simp: table_look_def map_of_table_put fun_eq_iff)

lemma table_has_update: "table_has (AList.update r room rooms) r' \<longleftrightarrow> table_has rooms r' \<or> r' = r"
  by (auto simp: table_has_def map_of_update_eq)

lemma table_has_put: "table_has (table_put rooms r room) r' \<longleftrightarrow> (if r' = r then room \<noteq> [] else table_has rooms r')"
  by (auto simp: table_has_def map_of_table_put)

lemma delete_nonempty_iff: "AList.delete i m \<noteq> [] \<longleftrightarrow> (\<exists>j. j \<noteq> i \<and> map_of m j \<noteq> None)"
proof -
  have "AList.delete i m \<noteq> [] \<longleftrightarrow> (\<exists>j. j \<noteq> i \<and> j \<in> set (keys_of m))"
    by (auto simp: delete_empty_iff)
  then show ?thesis by (simp only: key_in_iff)
qed

text \<open>A departure: take the participant out of its room, if the room is there.\<close>

definition table_leave :: "'p room_table \<Rightarrow> jstring \<Rightarrow> jstring \<Rightarrow> 'p room_table" where
  "table_leave rooms r i = (case map_of rooms r of None \<Rightarrow> rooms
     | Some room \<Rightarrow> table_put rooms r (AList.delete i room))"

lemma table_leave_ok: "table_ok rooms \<Longrightarrow> table_ok (table_leave rooms r i)"
  by (auto simp: table_leave_def split: option.split
      intro!: table_ok_put distinct_keys_delete intro: table_ok_room)

lemma table_leave_look:
  "table_look (table_leave rooms r i) = (table_look rooms)(r := (table_look rooms r)(i := None))"
  by (cases "map_of rooms r")
    (simp_all add: table_leave_def table_look_put map_of_delete_eq table_look_Some table_look_None fun_upd_idem)

lemma table_leave_has:
  "table_has (table_leave rooms r i) r' \<longleftrightarrow>
     table_has rooms r' \<and> (r' = r \<longrightarrow> (\<exists>j. j \<noteq> i \<and> table_look rooms r j \<noteq> None))"
  by (auto simp: table_leave_def table_has_put delete_nonempty_iff split: option.split)
    (auto simp: table_defs)

lemma table_look_has: "table_look rooms r i = Some p \<Longrightarrow> table_has rooms r"
  by (auto simp: table_defs split: option.splits)

end
