(* ===== verification/RoomManager.thy ===== *)
theory RoomManager
  imports RoomStore
begin

text \<open>
  \<open>signaling/src/participants.js\<close> and \<open>signaling/src/rooms.js\<close>: the class \<open>Participant\<close> and
  the class \<open>RoomManager\<close>, the earlier in-memory registry of the signaling server. The
  socket of a participant is an object of the \<open>ws\<close> package: its type is a parameter and its
  \<open>readyState\<close> is an argument of \<open>broadcast\<close>. Log lines are left out.
\<close>

section \<open>Participants\<close>

record 'sock Participant =
  pt_id :: jstring
  pt_roomId :: jstring
  pt_displayName :: jstring
  pt_sessionId :: jsval
  pt_socket :: 'sock
  pt_connectionState :: jstring
  pt_transportId :: jsval
  pt_publications :: "(jsval \<times> jsval) list"
  pt_subscriptions :: "(jsval \<times> jsval) list"

definition new_Participant :: "jstring \<Rightarrow> jstring \<Rightarrow> jstring \<Rightarrow> jsval \<Rightarrow> 'sock \<Rightarrow> 'sock Participant" where
  "new_Participant i roomId displayName sessionId socket =
     \<lparr>pt_id = i, pt_roomId = roomId, pt_displayName = displayName, pt_sessionId = sessionId,
      pt_socket = socket, pt_connectionState = js ''new'', pt_transportId = Null,
      pt_publications = [], pt_subscriptions = []\<rparr>"

definition toJSON :: "'sock Participant \<Rightarrow> jsval" where
  "toJSON p = Obj [(js ''id'', Str (pt_id p)), (js ''displayName'', Str (pt_displayName p)),
     (js ''connectionState'', Str (pt_connectionState p))]"

section \<open>The room manager\<close>

type_synonym 'sock room_map = "(jstring \<times> 'sock Participant) list"

type_synonym 'sock manager = "'sock Participant room_table"

text \<open>The constructor.\<close>

definition new_RoomManager :: "'sock manager" where
  "new_RoomManager = []"

text \<open>\<open>crypto.randomBytes(4).toString('hex')\<close>: two lower-case hex digits for each byte drawn.\<close>

definition hex_digit :: "8 word \<Rightarrow> 16 word" where
  "hex_digit d = (if d < 10 then 48 + ucast d else 87 + ucast d)"

fun to_hex :: "8 word list \<Rightarrow> jstring" where
  "to_hex [] = []"
| "to_hex (b # bs) = hex_digit (b div 16) # hex_digit (b mod 16) # to_hex bs"

text \<open>
  \<open>createRoom\<close> takes the id, or none, and the four random bytes it draws when the id is
  missing or empty; it returns the id and the new table.
\<close>

definition createRoom :: "8 word list \<Rightarrow> 'sock manager \<Rightarrow> jstring option \<Rightarrow> jstring \<times> 'sock manager" where
  "createRoom rnd rooms roomId =
     (let rid = (case roomId of Some (c # cs) \<Rightarrow> c # cs | _ \<Rightarrow> to_hex rnd)
      in (rid, AList.update rid [] rooms))"

definition getRoom :: "'sock manager \<Rightarrow> jstring \<Rightarrow> 'sock room_map option" where
  "getRoom rooms roomId = map_of rooms roomId"

definition joinRoom :: "'sock manager \<Rightarrow> jstring \<Rightarrow> 'sock Participant \<Rightarrow> bool \<times> 'sock manager" where
  "joinRoom rooms roomId p =
     (case map_of rooms roomId of
        None \<Rightarrow> (False, rooms)
      | Some room \<Rightarrow> (True, AList.update roomId (AList.update (pt_id p) p room) rooms))"

definition leaveRoom :: "'sock manager \<Rightarrow> jstring \<Rightarrow> jstring \<Rightarrow> 'sock manager" where
  "leaveRoom rooms roomId participantId =
     (case map_of rooms roomId of
        None \<Rightarrow> rooms
      | Some room \<Rightarrow>
          let room' = AList.delete participantId room;
              rooms' = AList.update roomId room' rooms
          in if room' = [] then AList.delete roomId rooms' else rooms')"

definition getParticipants :: "'sock manager \<Rightarrow> jstring \<Rightarrow> 'sock Participant list" where
  "getParticipants rooms roomId = (case map_of rooms roomId of Some room \<Rightarrow> map snd room | None \<Rightarrow> [])"

text \<open>
  \<open>broadcast\<close> returns the sends it makes, in order: the socket and the message. \<open>ready\<close> is
  the \<open>readyState\<close> of each socket and 1 is \<open>WebSocket.OPEN\<close>.
\<close>

definition broadcast :: "('sock \<Rightarrow> int) \<Rightarrow> 'sock manager \<Rightarrow> jstring \<Rightarrow> jsval \<Rightarrow> jstring option \<Rightarrow>
    ('sock \<times> jsval) list" where
  "broadcast ready rooms roomId message excludeParticipantId =
     (case map_of rooms roomId of
        None \<Rightarrow> []
      | Some room \<Rightarrow>
          [(pt_socket p, wire message). (i, p) \<leftarrow> room,
             Some i \<noteq> excludeParticipantId \<and> ready (pt_socket p) = 1])"

lemmas room_manager_defs = createRoom_def getRoom_def joinRoom_def leaveRoom_def
  getParticipants_def broadcast_def

text \<open>The digits are letters and numbers, two for each byte.\<close>

lemma hex_digit_alnum: "d < 16 \<Longrightarrow> is_alnum (hex_digit d)"
proof -
  assume "d < 16"
  then have "unat d < 16" by (simp add: word_less_nat_alt)
  then have "unat d = 0 \<or> unat d = 1 \<or> unat d = 2 \<or> unat d = 3 \<or> unat d = 4 \<or> unat d = 5 \<or> unat d = 6 \<or> unat d = 7 \<or>
      unat d = 8 \<or> unat d = 9 \<or> unat d = 10 \<or> unat d = 11 \<or> unat d = 12 \<or> unat d = 13 \<or> unat d = 14 \<or> unat d = 15"
    by arith
  moreover have "d = word_of_nat (unat d)" by simp
  ultimately show "is_alnum (hex_digit d)"
    by (elim disjE) (simp_all add: hex_digit_def is_alnum_def is_digit_def)
qed

lemma to_hex_alnum: "list_all is_alnum (to_hex bs)"
proof (induction bs rule: to_hex.induct)
  case (2 b bs)
  have "b div 16 < 16" and "b mod 16 < 16"
    using unsigned_less [where 'a = nat, of b] by (simp_all add: word_less_nat_alt unat_div unat_mod)
  with 2 show ?case by (simp add: hex_digit_alnum)
qed simp

lemma length_to_hex: "length (to_hex bs) = 2 * length bs"
  by (induction bs rule: to_hex.induct) simp_all

section \<open>The manager is a table of rooms\<close>

lemma leaveRoom_eq: "leaveRoom = table_leave"
  by (simp add: leaveRoom_def table_leave_def table_put_def Let_def fun_eq_iff split: option.split)

lemma joinRoom_eq:
  "snd (joinRoom rooms r p) = (case map_of rooms r of None \<Rightarrow> rooms
     | Some room \<Rightarrow> AList.update r (AList.update (pt_id p) p room) rooms)"
  by (simp add: joinRoom_def split: option.split)

interpretation rm: room_store table_ok table_look table_has table_has pt_id
  "\<lambda>rooms r p. snd (joinRoom rooms r p)" leaveRoom
proof unfold_locales
  fix rooms :: "'sock manager" and r r' i and p :: "'sock Participant"
  assume ok: "table_ok rooms"
  show "table_ok (snd (joinRoom rooms r p))"
    using ok by (auto simp: joinRoom_eq split: option.split
        intro!: table_ok_update distinct_keys_update intro: table_ok_room)
  show "table_look (snd (joinRoom rooms r p)) = (if table_has rooms r
     then (table_look rooms)(r := (table_look rooms r)(pt_id p \<mapsto> p)) else table_look rooms)"
    by (auto simp: joinRoom_eq table_look_update map_of_update_eq table_defs split: option.split)
  show "table_has (snd (joinRoom rooms r p)) r' \<longleftrightarrow> table_has rooms r' \<or> table_has rooms r \<and> r' = r"
    by (auto simp: joinRoom_eq table_has_update split: option.split) (auto simp: table_has_def)
qed (simp_all add: leaveRoom_eq table_leave_ok table_leave_look table_leave_has, rule table_look_has)

end
