(* ===== verification/ServerConfig.thy ===== *)
theory ServerConfig
  imports JsValues
begin

text \<open>
  \<open>signaling/src/config.js\<close>: \<open>loadConfig\<close> reads the process environment and either throws
  an error with a message or returns the configuration. The environment is a map from names
  to strings and \<open>JSON.parse\<close> is the argument \<open>parse\<close>, which gives no value where it
  throws. Numbers are naturals: a digit string that the code accepts is at most 1048576, where
  a double is exact, and larger ones are rejected by the same comparison.
\<close>

section \<open>The configuration\<close>

record config =
  cfg_host :: jstring
  cfg_port :: nat
  cfg_basePath :: jstring
  cfg_maxMessageBytes :: nat
  cfg_maxParticipants :: nat
  cfg_rateLimitTokens :: nat
  cfg_rateLimitInterval :: int
  cfg_rtcConfig :: jsval
  cfg_allowedOrigins :: "jstring list"

type_synonym env = "jstring \<Rightarrow> jstring option"

text \<open>\<open>env.NAME || fallback\<close>: an unset and an empty variable take the fallback.\<close>

definition env_or :: "env \<Rightarrow> string \<Rightarrow> jstring \<Rightarrow> jstring" where
  "env_or env name fallback = (case env (js name) of Some (c # cs) \<Rightarrow> c # cs | _ \<Rightarrow> fallback)"

section \<open>Decimal numerals\<close>

text \<open>\<open>String(n)\<close> for a natural number, and \<open>Number(raw)\<close> for a string of digits.\<close>

fun decimal :: "nat \<Rightarrow> jstring" where
  "decimal n = (if n < 10 then [48 + word_of_nat n] else decimal (n div 10) @ [48 + word_of_nat (n mod 10)])"

declare decimal.simps [simp del]

definition digits_value :: "jstring \<Rightarrow> nat" where
  "digits_value s = fold (\<lambda>c n. 10 * n + unat (c - 48)) s 0"

definition all_digits :: "jstring \<Rightarrow> bool" where
  "all_digits s \<longleftrightarrow> s \<noteq> [] \<and> list_all is_digit s"

text \<open>The helper \<open>integer(name, fallback, max)\<close>.\<close>

definition integer_var :: "env \<Rightarrow> string \<Rightarrow> nat \<Rightarrow> nat \<Rightarrow> jstring + nat" where
  "integer_var env name fallback mx =
     (let raw = (case env (js name) of Some s \<Rightarrow> s | None \<Rightarrow> decimal fallback)
      in if \<not> all_digits raw \<or> digits_value raw < 1 \<or> digits_value raw > mx
         then Inl (js name @ js '' must be an integer between 1 and '' @ decimal mx)
         else Inr (digits_value raw))"

section \<open>The regular expressions\<close>

text \<open>\<open>/^\/(?:[a-zA-Z0-9_-]+\/)*$/\<close>, read from left to right.\<close>

definition path_char :: "16 word \<Rightarrow> bool" where
  "path_char c \<longleftrightarrow> is_alnum c \<or> c = 95 \<or> c = 45"

fun path_groups :: "bool \<Rightarrow> jstring \<Rightarrow> bool" where
  "path_groups inside [] = (\<not> inside)"
| "path_groups inside (c # cs) =
     (if c = 47 then inside \<and> path_groups False cs else path_char c \<and> path_groups True cs)"

definition base_path_ok :: "jstring \<Rightarrow> bool" where
  "base_path_ok s = (case s of [] \<Rightarrow> False | c # cs \<Rightarrow> c = 47 \<and> path_groups False cs)"

text \<open>\<open>/^(stun|stuns|turn|turns):\S+$/\<close> and \<open>/^turns?:/\<close>.\<close>

definition ice_url_ok :: "jstring \<Rightarrow> bool" where
  "ice_url_ok u \<longleftrightarrow> list_ex (\<lambda>p. starts_with u p \<and> drop (length p) u \<noteq> [] \<and>
      list_all (\<lambda>c. \<not> is_space c) (drop (length p) u))
     [js ''stun:'', js ''stuns:'', js ''turn:'', js ''turns:'']"

definition turn_url :: "jstring \<Rightarrow> bool" where
  "turn_url u \<longleftrightarrow> starts_with u (js ''turn:'') \<or> starts_with u (js ''turns:'')"

section \<open>The ICE servers\<close>

fun str_ok :: "(jstring \<Rightarrow> bool) \<Rightarrow> jsval \<Rightarrow> bool" where
  "str_ok f (Str s) = f s"
| "str_ok f v = False"

text \<open>The predicate under \<open>iceServers.some\<close>, negated: what each entry must satisfy.\<close>

definition ice_server_ok :: "jsval \<Rightarrow> bool" where
  "ice_server_ok server \<longleftrightarrow> truthy server \<and>
     (let urls = get_prop server (js ''urls'')
      in (case urls of Str _ \<Rightarrow> True | Arr us \<Rightarrow> us \<noteq> [] | _ \<Rightarrow> False) \<and>
         list_all (str_ok ice_url_ok) (flat1 urls))"

definition has_turn :: "jsval list \<Rightarrow> bool" where
  "has_turn servers \<longleftrightarrow>
     list_ex (\<lambda>s. list_ex (str_ok turn_url) (flat1 (get_prop s (js ''urls'')))) servers"

section \<open>loadConfig\<close>

definition loadConfig :: "(jstring \<Rightarrow> jsval option) \<Rightarrow> env \<Rightarrow> jstring + config" where
  "loadConfig parse env =
     (let basePath = env_or env ''BASE_PATH'' (js ''/'') in
      and_then (throw_if (\<not> base_path_ok basePath)
        (js ''BASE_PATH must start and end with /, for example /maia-meet/'')) (\<lambda>_.
      and_then (case parse (env_or env ''ICE_SERVERS'' (js ''[{\"urls\":\"stun:stun.l.google.com:19302\"}]'')) of
          None \<Rightarrow> Inl (js ''ICE_SERVERS must be a JSON array'') | Some v \<Rightarrow> Inr v) (\<lambda>parsed.
      and_then (case parsed of
          Arr servers \<Rightarrow> if list_all ice_server_ok servers then Inr servers
            else Inl (js ''ICE_SERVERS must contain valid STUN/TURN urls'')
        | _ \<Rightarrow> Inl (js ''ICE_SERVERS must contain valid STUN/TURN urls'')) (\<lambda>servers.
      let policy = env_or env ''ICE_TRANSPORT_POLICY'' (js ''all'') in
      and_then (throw_if (policy \<notin> set [js ''all'', js ''relay''])
        (js ''ICE_TRANSPORT_POLICY must be all or relay'')) (\<lambda>_.
      and_then (throw_if (policy = js ''relay'' \<and> \<not> has_turn servers)
        (js ''Relay policy requires a TURN server'')) (\<lambda>_.
      and_then (integer_var env ''PORT'' 3081 65535) (\<lambda>port.
      and_then (integer_var env ''MAX_MESSAGE_BYTES'' 65536 1048576) (\<lambda>maxMessageBytes.
      and_then (integer_var env ''MAX_PARTICIPANTS'' 6 20) (\<lambda>maxParticipants.
      and_then (integer_var env ''RATE_LIMIT_MESSAGES'' 120 10000) (\<lambda>rateLimitTokens.
      Inr \<lparr>cfg_host = env_or env ''HOST'' (js ''127.0.0.1''), cfg_port = port,
           cfg_basePath = basePath, cfg_maxMessageBytes = maxMessageBytes,
           cfg_maxParticipants = maxParticipants, cfg_rateLimitTokens = rateLimitTokens,
           cfg_rateLimitInterval = 1000,
           cfg_rtcConfig = Obj [(js ''iceServers'', Arr servers), (js ''iceTransportPolicy'', Str policy)],
           cfg_allowedOrigins = filter (\<lambda>s. s \<noteq> [])
             (map trim (split_on 44 (env_or env ''ALLOWED_ORIGINS'' [])))\<rparr>))))))))))"

section \<open>Lemmas\<close>

lemma digit_unit:
  assumes "d < 10"
  shows "unat (word_of_nat d :: 16 word) = d" and "is_digit (48 + word_of_nat d)"
proof -
  have "d = 0 \<or> d = 1 \<or> d = 2 \<or> d = 3 \<or> d = 4 \<or> d = 5 \<or> d = 6 \<or> d = 7 \<or> d = 8 \<or> d = 9"
    using assms by arith
  then show "unat (word_of_nat d :: 16 word) = d" and "is_digit (48 + word_of_nat d)"
    by (auto simp: is_digit_def)
qed

lemma digits_value_snoc: "digits_value (s @ [c]) = 10 * digits_value s + unat (c - 48)"
  by (simp add: digits_value_def)

lemma digits_value_decimal: "digits_value (decimal n) = n"
proof (induction n rule: decimal.induct)
  case (1 n)
  show ?case
  proof (cases "n < 10")
    case True
    then show ?thesis
      using digits_value_snoc [of "[]"] digit_unit(1) [of n]
      by (simp add: decimal.simps [of n]) (simp add: digits_value_def)
  next
    case False
    with 1 show ?thesis
      by (simp add: decimal.simps [of n] digits_value_snoc digit_unit(1))
  qed
qed

lemma all_digits_decimal: "all_digits (decimal n)"
proof (induction n rule: decimal.induct)
  case (1 n)
  then show ?case
    by (cases "n < 10") (simp_all add: decimal.simps [of n] all_digits_def digit_unit(2))
qed

lemma integer_var_Inr:
  "integer_var env name fallback mx = Inr n \<longleftrightarrow>
     1 \<le> n \<and> n \<le> mx \<and> (case env (js name) of
       Some s \<Rightarrow> all_digits s \<and> digits_value s = n | None \<Rightarrow> n = fallback)"
  by (auto simp: integer_var_def Let_def digits_value_decimal all_digits_decimal split: option.splits)

text \<open>The base path matcher accepts the language of the regular expression.\<close>

definition base_path_lang :: "jstring \<Rightarrow> bool" where
  "base_path_lang s \<longleftrightarrow> (\<exists>gs. (\<forall>g \<in> set gs. g \<noteq> [] \<and> list_all path_char g) \<and>
     s = 47 # concat (map (\<lambda>g. g @ [47]) gs))"

lemma slash_no_path_char [simp]: "\<not> path_char 47"
  by (simp add: path_char_def char_class_defs)

lemma path_groups_seg: "list_all path_char g \<Longrightarrow> g \<noteq> [] \<Longrightarrow> path_groups b (g @ 47 # s) = path_groups False s"
proof (induction g arbitrary: b)
  case (Cons c g)
  then have "c \<noteq> 47" by auto
  with Cons show ?case by (cases g) auto
qed simp

lemma path_groups_split:
  "path_groups b s \<Longrightarrow> (b = False \<and> s = []) \<or>
     (\<exists>g s'. s = g @ 47 # s' \<and> list_all path_char g \<and> (b \<or> g \<noteq> []) \<and> path_groups False s')"
proof (induction b s rule: path_groups.induct)
  case (2 inside c cs)
  show ?case
  proof (cases "c = 47")
    case True
    with 2 have "c # cs = [] @ 47 # cs \<and> list_all path_char [] \<and> (inside \<or> [] \<noteq> ([]::jstring)) \<and> path_groups False cs"
      by simp
    then show ?thesis by blast
  next
    case False
    with 2 obtain g s' where "cs = g @ 47 # s'" "list_all path_char g" "path_groups False s'" "path_char c"
      by auto
    then have "c # cs = (c # g) @ 47 # s' \<and> list_all path_char (c # g) \<and> (inside \<or> c # g \<noteq> []) \<and> path_groups False s'"
      by simp
    then show ?thesis by blast
  qed
qed simp

lemma path_groups_lang:
  "path_groups False s \<longleftrightarrow>
     (\<exists>gs. (\<forall>g \<in> set gs. g \<noteq> [] \<and> list_all path_char g) \<and> s = concat (map (\<lambda>g. g @ [47]) gs))"
proof (induction s rule: length_induct)
  case (1 s)
  show ?case
  proof
    assume "path_groups False s"
    then consider "s = []" | g s' where "s = g @ 47 # s'" "list_all path_char g" "g \<noteq> []" "path_groups False s'"
      using path_groups_split [of False s] by blast
    then show "\<exists>gs. (\<forall>g \<in> set gs. g \<noteq> [] \<and> list_all path_char g) \<and> s = concat (map (\<lambda>g. g @ [47]) gs)"
    proof cases
      case 1
      then show ?thesis by (intro exI [of _ "[]"]) simp
    next
      case (2 g s')
      with "1.IH" obtain gs where "\<forall>g \<in> set gs. g \<noteq> [] \<and> list_all path_char g" "s' = concat (map (\<lambda>g. g @ [47]) gs)"
        by auto
      with 2 show ?thesis by (intro exI [of _ "g # gs"]) simp
    qed
  next
    assume "\<exists>gs. (\<forall>g \<in> set gs. g \<noteq> [] \<and> list_all path_char g) \<and> s = concat (map (\<lambda>g. g @ [47]) gs)"
    then obtain gs where "\<forall>g \<in> set gs. g \<noteq> [] \<and> list_all path_char g" and s: "s = concat (map (\<lambda>g. g @ [47]) gs)"
      by blast
    then show "path_groups False s"
      unfolding s by (induction gs) (auto simp: path_groups_seg)
  qed
qed

lemma base_path_ok_lang: "base_path_ok s \<longleftrightarrow> base_path_lang s"
  by (cases s) (auto simp: base_path_ok_def base_path_lang_def path_groups_lang)

end
