(* ===== verification/WebSocketState.thy ===== *)
theory WebSocketState
  imports JsValues
begin

text \<open>
  The states of a WebSocket, which the server (package \<open>ws\<close>) and the browser share.
\<close>

text \<open>The \<open>readyState\<close> of a socket, in the order of its numeric values 0 to 3.\<close>

datatype ready_state = CONNECTING | OPEN | CLOSING | CLOSED

fun ready_code :: "ready_state \<Rightarrow> nat" where
  "ready_code CONNECTING = 0"
| "ready_code OPEN = 1"
| "ready_code CLOSING = 2"
| "ready_code CLOSED = 3"

instantiation ready_state :: linorder
begin

definition less_eq_ready_state :: "ready_state \<Rightarrow> ready_state \<Rightarrow> bool" where
  "less_eq_ready_state a b \<longleftrightarrow> ready_code a \<le> ready_code b"

definition less_ready_state :: "ready_state \<Rightarrow> ready_state \<Rightarrow> bool" where
  "less_ready_state a b \<longleftrightarrow> ready_code a < ready_code b"

instance
proof
  fix x y :: ready_state
  show "x \<le> y \<Longrightarrow> y \<le> x \<Longrightarrow> x = y"
    by (cases x; cases y) (auto simp: less_eq_ready_state_def)
qed (auto simp: less_eq_ready_state_def less_ready_state_def)

end

lemma ready_code_OPEN: "ready_code r = 1 \<longleftrightarrow> r = OPEN"
  by (cases r) auto

text \<open>What \<open>close()\<close> makes of the state: a socket that is connecting or open starts closing.\<close>

fun close_ready :: "ready_state \<Rightarrow> ready_state" where
  "close_ready CONNECTING = CLOSING"
| "close_ready OPEN = CLOSING"
| "close_ready r = r"

lemma close_ready_later: "r \<le> close_ready r" and close_ready_not_open [simp]: "close_ready r \<noteq> OPEN" "close_ready r \<noteq> CONNECTING"
  by (cases r; simp add: less_eq_ready_state_def)+

end
