(* ===== verification/Server.thy ===== *)
theory Server
  imports RoomStore ServerConfig WebSocketState
begin

text \<open>
  The WebSocket side of \<open>signaling/src/server.js\<close>: the module's \<open>rooms\<close> Map, the closure
  variables of each connection, the message, close and pong listeners, the heartbeat and the
  shutdown. Sockets are objects of the \<open>ws\<close> package; they are numbered, \<open>wss.clients\<close> is
  the table \<open>sv_clients\<close> in insertion order, and a call on a socket is an effect in the list
  a handler returns. Values the handlers draw from outside (the clock, \<open>randomUUID\<close>, the ISO
  timestamp) come with the event.
\<close>

section \<open>State\<close>

text \<open>The object literal of a participant; \<open>p_ws\<close> is its socket.\<close>

record participant =
  p_id :: jstring
  p_displayName :: jstring
  p_roomId :: jstring
  p_ws :: nat

text \<open>
  The closure variables \<open>participant\<close>, \<open>tokens\<close> and \<open>lastRefill\<close> of one connection and the
  properties \<open>isAlive\<close> and \<open>readyState\<close> of its socket.
\<close>

record conn =
  ws_participant :: "participant option"
  ws_tokens :: int
  ws_lastRefill :: int
  ws_isAlive :: bool
  ws_readyState :: ready_state

record server =
  sv_rooms :: "participant room_table"
  sv_clients :: "(nat \<times> conn) list"
  sv_heartbeat :: bool
  sv_exitCode :: "int option"

definition initial_server :: server where
  "initial_server = \<lparr>sv_rooms = [], sv_clients = [], sv_heartbeat = True, sv_exitCode = None\<rparr>"

datatype effect =
    Send nat jsval
  | Ping nat
  | Terminate nat
  | CloseWss
  | CloseHttp

text \<open>A frame is binary or text; text stands as what \<open>JSON.parse\<close> makes of it, if it does not throw.\<close>

datatype frame = Binary | Text "jsval option"

text \<open>
  What one message draws from outside: \<open>Date.now()\<close> at the two places it is read,
  \<open>randomUUID()\<close>, and \<open>new Date().toISOString()\<close>.
\<close>

record draws =
  now1 :: int
  now2 :: int
  uuid :: jstring
  iso :: jstring

section \<open>Sending\<close>

definition ready_of :: "server \<Rightarrow> nat \<Rightarrow> ready_state" where
  "ready_of s w = (case map_of (sv_clients s) w of Some c \<Rightarrow> ws_readyState c | None \<Rightarrow> CLOSED)"

definition send :: "server \<Rightarrow> nat \<Rightarrow> string \<Rightarrow> jsval \<Rightarrow> jsval \<Rightarrow> effect list" where
  "send s w typ payload requestId =
     (if ready_of s w = OPEN then [Send w (wire (envelope (js typ) payload requestId))] else [])"

definition broadcast_room :: "server \<Rightarrow> (jstring \<times> participant) list \<Rightarrow> string \<Rightarrow> jsval \<Rightarrow> jstring option \<Rightarrow> effect list" where
  "broadcast_room s room typ payload except =
     concat (map (\<lambda>(i, p). if Some (p_id p) \<noteq> except then send s (p_ws p) typ payload Undefined else []) room)"

definition publicParticipant :: "participant \<Rightarrow> jsval" where
  "publicParticipant p = Obj [(js ''id'', Str (p_id p)), (js ''displayName'', Str (p_displayName p))]"

text \<open>The local \<open>fail\<close> of the message listener.\<close>

definition fail :: "server \<Rightarrow> nat \<Rightarrow> int \<Rightarrow> string \<Rightarrow> jsval \<Rightarrow> effect list" where
  "fail s w code message requestId =
     send s w ''error'' (Obj [(js ''code'', jnum code), (js ''message'', Str (js message))]) requestId"

section \<open>The message listener\<close>

definition set_conn :: "nat \<Rightarrow> conn \<Rightarrow> server \<Rightarrow> server" where
  "set_conn w c s = s\<lparr>sv_clients := AList.update w c (sv_clients s)\<rparr>"

text \<open>The rate limit: refill once the interval has passed, then spend a token.\<close>

definition take_token :: "config \<Rightarrow> int \<Rightarrow> int \<Rightarrow> conn \<Rightarrow> conn \<times> bool" where
  "take_token cfg t1 t2 c =
     (let c1 = (if t1 - ws_lastRefill c \<ge> cfg_rateLimitInterval cfg
                then c\<lparr>ws_tokens := int (cfg_rateLimitTokens cfg), ws_lastRefill := t2\<rparr> else c);
          c2 = c1\<lparr>ws_tokens := ws_tokens c1 - 1\<rparr>
      in (c2, \<not> ws_tokens c2 < 0))"

definition envelope_ok :: "jsval \<Rightarrow> bool" where
  "envelope_ok msg \<longleftrightarrow> \<not> (\<not> truthy msg \<or> \<not> typeof_object msg \<or> get_prop msg (js ''version'') \<noteq> jnum 1 \<or>
      \<not> is_str (get_prop msg (js ''type'')) \<or>
      \<not> truthy (get_prop msg (js ''payload'')) \<or> \<not> typeof_object (get_prop msg (js ''payload'')) \<or>
      is_arr (get_prop msg (js ''payload'')))"

text \<open>\<open>/^[a-zA-Z0-9]{3,32}$/\<close> and the checks of the join request.\<close>

definition room_id_ok :: "jstring \<Rightarrow> bool" where
  "room_id_ok r \<longleftrightarrow> list_all is_alnum r \<and> 3 \<le> length r \<and> length r \<le> 32"

definition name_ok :: "jstring \<Rightarrow> bool" where
  "name_ok n \<longleftrightarrow> trim n \<noteq> [] \<and> length n \<le> 50"

text \<open>
  \<open>rooms.get(r) || new Map()\<close> with the participant set in it and the room set in \<open>rooms\<close>;
  and the departure: delete from the room, and delete the room once its size is 0.
\<close>

definition rooms_enter :: "participant room_table \<Rightarrow> jstring \<Rightarrow> participant \<Rightarrow> participant room_table" where
  "rooms_enter rooms r p =
     (let room = (case map_of rooms r of Some room \<Rightarrow> room | None \<Rightarrow> [])
      in AList.update r (AList.update (p_id p) p room) rooms)"

definition rooms_leave :: "participant room_table \<Rightarrow> jstring \<Rightarrow> jstring \<Rightarrow> participant room_table" where
  "rooms_leave rooms r i =
     (case map_of rooms r of
        None \<Rightarrow> rooms
      | Some room0 \<Rightarrow>
          let room = AList.delete i room0; rooms1 = AList.update r room rooms
          in if room = [] then AList.delete r rooms1 else rooms1)"

definition room_of :: "server \<Rightarrow> jstring \<Rightarrow> (jstring \<times> participant) list" where
  "room_of s r = (case map_of (sv_rooms s) r of Some room \<Rightarrow> room | None \<Rightarrow> [])"

definition joined_payload :: "config \<Rightarrow> participant \<Rightarrow> (jstring \<times> participant) list \<Rightarrow> jsval" where
  "joined_payload cfg p room = Obj [
     (js ''participantId'', Str (p_id p)), (js ''roomId'', Str (p_roomId p)),
     (js ''participants'', Arr (map (publicParticipant \<circ> snd) room)),
     (js ''mediaMode'', Str (js ''mesh'')), (js ''rtcConfig'', cfg_rtcConfig cfg)]"

text \<open>The room id and display name of a join request that passes the checks.\<close>

definition join_request :: "jsval \<Rightarrow> (jstring \<times> jstring) option" where
  "join_request payload =
     (case (get_prop payload (js ''roomId''), get_prop payload (js ''displayName'')) of
        (Str r, Str n) \<Rightarrow> if \<not> room_id_ok r \<or> \<not> name_ok n then None else Some (r, n)
      | _ \<Rightarrow> None)"

definition new_participant :: "draws \<Rightarrow> nat \<Rightarrow> jstring \<Rightarrow> jstring \<Rightarrow> participant" where
  "new_participant d w r n = \<lparr>p_id = uuid d, p_displayName = trim n, p_roomId = r, p_ws = w\<rparr>"

text \<open>Set the closure variable and put the participant in its room.\<close>

definition take_seat :: "server \<Rightarrow> nat \<Rightarrow> conn \<Rightarrow> participant \<Rightarrow> server" where
  "take_seat s w c p = (set_conn w (c\<lparr>ws_participant := Some p\<rparr>) s)
     \<lparr>sv_rooms := rooms_enter (sv_rooms s) (p_roomId p) p\<rparr>"

definition join_effects :: "config \<Rightarrow> server \<Rightarrow> nat \<Rightarrow> participant \<Rightarrow> jsval \<Rightarrow> effect list" where
  "join_effects cfg s w p requestId =
     send s w ''room.joined'' (joined_payload cfg p (room_of s (p_roomId p))) requestId @
     broadcast_room s (room_of s (p_roomId p)) ''participant.joined''
       (Obj [(js ''participant'', publicParticipant p)]) (Some (p_id p))"

definition handle_join :: "config \<Rightarrow> draws \<Rightarrow> server \<Rightarrow> nat \<Rightarrow> conn \<Rightarrow> jsval \<Rightarrow> jsval \<Rightarrow> server \<times> effect list" where
  "handle_join cfg d s w c payload requestId =
     (if ws_participant c \<noteq> None then (s, fail s w 409 ''Already joined a room'' requestId)
      else case join_request payload of
        None \<Rightarrow> (s, fail s w 400 ''Invalid room ID or display name'' requestId)
      | Some (r, n) \<Rightarrow>
          if length (room_of s r) \<ge> cfg_maxParticipants cfg then (s, fail s w 409 ''Room is full'' requestId)
          else
            let p = new_participant d w r n; s1 = take_seat s w c p
            in (s1, join_effects cfg s1 w p requestId))"

text \<open>
  The relay of SDP and ICE candidates: the fields copied from the payload, or the message of
  the error 400.
\<close>

definition ice_candidate_ok :: "jsval \<Rightarrow> bool" where
  "ice_candidate_ok payload \<longleftrightarrow>
     (case get_prop payload (js ''candidate'') of Str cand \<Rightarrow> length cand \<le> 4096 | _ \<Rightarrow> False) \<and>
     (let m = get_prop payload (js ''sdpMid'') in nullish m \<or> is_str m) \<and>
     (let l = get_prop payload (js ''sdpMLineIndex'') in nullish l \<or> is_integer l \<and> nonneg l)"

definition forwarded :: "jstring \<Rightarrow> jsval \<Rightarrow> string + (jstring \<times> jsval) list" where
  "forwarded typ payload =
     (if typ = js ''webrtc.iceCandidate'' then
        if \<not> ice_candidate_ok payload then Inl ''Invalid ICE candidate''
        else Inr [(js ''candidate'', get_prop payload (js ''candidate'')),
                  (js ''sdpMid'', get_prop payload (js ''sdpMid'')),
                  (js ''sdpMLineIndex'', get_prop payload (js ''sdpMLineIndex''))]
      else case get_prop payload (js ''sdp'') of
        Str sdp \<Rightarrow> if starts_with sdp (js ''v=0'') then Inr [(js ''sdp'', Str sdp)] else Inl ''Invalid SDP''
      | _ \<Rightarrow> Inl ''Invalid SDP'')"

definition relay_types :: "string list" where
  "relay_types = [''webrtc.offer'', ''webrtc.answer'', ''webrtc.iceCandidate'']"

text \<open>\<open>room.get(payload.targetId)\<close>: the keys are strings, so no other value finds one.\<close>

fun map_get :: "(jstring \<times> 'v) list \<Rightarrow> jsval \<Rightarrow> 'v option" where
  "map_get m (Str k) = map_of m k"
| "map_get m v = None"

definition handle_relay :: "server \<Rightarrow> nat \<Rightarrow> participant \<Rightarrow> (jstring \<times> participant) list \<Rightarrow> string \<Rightarrow> jsval \<Rightarrow> jsval \<Rightarrow> effect list" where
  "handle_relay s w p room typ payload requestId =
     (case map_get room (get_prop payload (js ''targetId'')) of
        None \<Rightarrow> fail s w 404 ''Participant not in this room'' requestId
      | Some target \<Rightarrow>
          if p_id target = p_id p then fail s w 404 ''Participant not in this room'' requestId
          else case forwarded (js typ) payload of
            Inl message \<Rightarrow> fail s w 400 message requestId
          | Inr copied \<Rightarrow> send s (p_ws target) typ
              (Obj (copied @ [(js ''participantId'', Str (p_id p))])) Undefined)"

definition chat_text :: "jsval \<Rightarrow> jstring option" where
  "chat_text payload =
     (case get_prop payload (js ''text'') of
        Str t \<Rightarrow> if trim t = [] \<or> length t > 4000 then None else Some t
      | _ \<Rightarrow> None)"

definition chat_payload :: "draws \<Rightarrow> participant \<Rightarrow> jstring \<Rightarrow> jsval" where
  "chat_payload d p t = Obj [(js ''participantId'', Str (p_id p)), (js ''displayName'', Str (p_displayName p)),
     (js ''text'', Str (trim t)), (js ''timestamp'', Str (iso d))]"

text \<open>
  The dispatch on the type of a well-formed message. The result is \<open>None\<close> where the code
  would dereference an undefined room and throw.
\<close>

definition handle_request :: "config \<Rightarrow> draws \<Rightarrow> server \<Rightarrow> nat \<Rightarrow> conn \<Rightarrow> jstring \<Rightarrow> jsval \<Rightarrow> jsval \<Rightarrow> (server \<times> effect list) option" where
  "handle_request cfg d s w c typ payload requestId =
     (if typ = js ''ping'' then Some (s, send s w ''pong'' (Obj []) requestId)
      else if typ = js ''room.create'' then
        Some (s, send s w ''room.created'' (Obj [(js ''roomId'', Str (filter (\<lambda>u. u \<noteq> 45) (uuid d)))]) requestId)
      else if typ = js ''room.join'' then Some (handle_join cfg d s w c payload requestId)
      else case ws_participant c of
        None \<Rightarrow> Some (s, fail s w 403 ''Join a room first'' requestId)
      | Some p \<Rightarrow>
          let room = map_of (sv_rooms s) (p_roomId p) in
          case find (\<lambda>t. typ = js t) relay_types of
            Some t \<Rightarrow> map_option (\<lambda>rm. (s, handle_relay s w p rm t payload requestId)) room
          | None \<Rightarrow>
              if typ = js ''chat.send'' then
                case chat_text payload of
                  None \<Rightarrow> Some (s, fail s w 400 ''Invalid chat message'' requestId)
                | Some t \<Rightarrow> map_option (\<lambda>rm. (s, broadcast_room s rm ''chat.message'' (chat_payload d p t) None)) room
              else Some (s, fail s w 400 ''Unknown message type'' requestId))"

text \<open>\<open>typeof msg.requestId === 'string' ? msg.requestId : undefined\<close>.\<close>

definition request_id :: "jsval \<Rightarrow> jsval" where
  "request_id msg = (case get_prop msg (js ''requestId'') of Str r \<Rightarrow> Str r | _ \<Rightarrow> Undefined)"

definition handle_parsed :: "config \<Rightarrow> draws \<Rightarrow> server \<Rightarrow> nat \<Rightarrow> conn \<Rightarrow> jsval \<Rightarrow> server \<times> effect list" where
  "handle_parsed cfg d s w c msg =
     (if \<not> envelope_ok msg then (s, fail s w 400 ''Invalid message format'' Undefined)
      else
        let requestId = request_id msg in
        case handle_request cfg d s w c (str_val (get_prop msg (js ''type'')))
               (get_prop msg (js ''payload'')) requestId of
          Some r \<Rightarrow> r
        | None \<Rightarrow> (s, fail s w 400 ''Invalid message'' requestId))"

definition on_message :: "config \<Rightarrow> draws \<Rightarrow> server \<Rightarrow> nat \<Rightarrow> conn \<Rightarrow> frame \<Rightarrow> server \<times> effect list" where
  "on_message cfg d s w c0 f =
     (let (c, granted) = take_token cfg (now1 d) (now2 d) c0; s1 = set_conn w c s in
      if \<not> granted then (s1, fail s1 w 429 ''Rate limit exceeded'' Undefined)
      else case f of
        Binary \<Rightarrow> handle_parsed cfg d s1 w c Null
      | Text (Some msg) \<Rightarrow> handle_parsed cfg d s1 w c msg
      | Text None \<Rightarrow> (s1, fail s1 w 400 ''Invalid message'' Undefined))"

section \<open>The other listeners\<close>

definition on_connection :: "config \<Rightarrow> nat \<Rightarrow> int \<Rightarrow> ready_state \<Rightarrow> server \<Rightarrow> server" where
  "on_connection cfg w now rs s =
     set_conn w \<lparr>ws_participant = None, ws_tokens = int (cfg_rateLimitTokens cfg), ws_lastRefill = now,
       ws_isAlive = True, ws_readyState = rs\<rparr> s"

text \<open>
  The close listener, after \<open>ws\<close> has dropped the socket from \<open>wss.clients\<close>; \<open>None\<close> is the
  uncaught exception of \<open>room.delete\<close> on an undefined room, which would end the process.
\<close>

definition on_close :: "server \<Rightarrow> nat \<Rightarrow> conn \<Rightarrow> (server \<times> effect list) option" where
  "on_close s w c =
     (let s1 = s\<lparr>sv_clients := AList.delete w (sv_clients s)\<rparr> in
      case ws_participant c of
        None \<Rightarrow> Some (s1, [])
      | Some p \<Rightarrow>
          case map_of (sv_rooms s) (p_roomId p) of
            None \<Rightarrow> None
          | Some room0 \<Rightarrow>
              Some (s1\<lparr>sv_rooms := rooms_leave (sv_rooms s) (p_roomId p) (p_id p)\<rparr>,
                broadcast_room s1 (AList.delete (p_id p) room0) ''participant.left''
                  (Obj [(js ''participantId'', Str (p_id p))]) None))"

definition on_heartbeat :: "server \<Rightarrow> server \<times> effect list" where
  "on_heartbeat s =
     (s\<lparr>sv_clients := map (\<lambda>(w, c). (w, if ws_isAlive c then c\<lparr>ws_isAlive := False\<rparr> else c)) (sv_clients s)\<rparr>,
      map (\<lambda>(w, c). if ws_isAlive c then Ping w else Terminate w) (sv_clients s))"

definition on_server_error :: "server \<Rightarrow> server" where
  "on_server_error s = s\<lparr>sv_heartbeat := False, sv_exitCode := Some 1\<rparr>"

definition shutdown :: "server \<Rightarrow> server \<times> effect list" where
  "shutdown s = (s\<lparr>sv_heartbeat := False\<rparr>, map (\<lambda>(w, c). Terminate w) (sv_clients s) @ [CloseWss, CloseHttp])"

section \<open>Steps\<close>

datatype server_event =
    Connect nat int ready_state
  | Message nat frame draws
  | Close nat
  | Pong nat
  | ReadyState nat ready_state
  | Heartbeat
  | ServerError
  | Shutdown

text \<open>\<open>randomUUID\<close> does not return the id of a participant that is still connected.\<close>

definition fresh_uuid :: "server \<Rightarrow> jstring \<Rightarrow> bool" where
  "fresh_uuid s u \<longleftrightarrow> list_all (\<lambda>(w, c). case ws_participant c of Some p \<Rightarrow> p_id p \<noteq> u | None \<Rightarrow> True) (sv_clients s)"

text \<open>
  One step of the server. Events of a socket come only while it is in \<open>wss.clients\<close>, a socket
  is accepted once, its \<open>readyState\<close> only advances, and the timer runs until it is cleared.
\<close>

inductive server_step :: "config \<Rightarrow> server \<Rightarrow> server_event \<times> effect list \<Rightarrow> server \<Rightarrow> bool"
  for cfg where
  connect: "map_of (sv_clients s) w = None \<Longrightarrow>
    server_step cfg s (Connect w now rs, []) (on_connection cfg w now rs s)"
| message: "map_of (sv_clients s) w = Some c \<Longrightarrow> fresh_uuid s (uuid d) \<Longrightarrow>
    on_message cfg d s w c f = (t, es) \<Longrightarrow> server_step cfg s (Message w f d, es) t"
| close: "map_of (sv_clients s) w = Some c \<Longrightarrow> on_close s w c = Some (t, es) \<Longrightarrow>
    server_step cfg s (Close w, es) t"
| pong: "map_of (sv_clients s) w = Some c \<Longrightarrow>
    server_step cfg s (Pong w, []) (set_conn w (c\<lparr>ws_isAlive := True\<rparr>) s)"
| ready: "map_of (sv_clients s) w = Some c \<Longrightarrow> ws_readyState c \<le> rs \<Longrightarrow>
    server_step cfg s (ReadyState w rs, []) (set_conn w (c\<lparr>ws_readyState := rs\<rparr>) s)"
| heartbeat: "sv_heartbeat s \<Longrightarrow> on_heartbeat s = (t, es) \<Longrightarrow> server_step cfg s (Heartbeat, es) t"
| server_error: "server_step cfg s (ServerError, []) (on_server_error s)"
| stop: "shutdown s = (t, es) \<Longrightarrow> server_step cfg s (Shutdown, es) t"

inductive_cases message_stepE: "server_step cfg s (Message w f d, es) t"
inductive_cases close_stepE: "server_step cfg s (Close w, es) t"
inductive_cases heartbeat_stepE: "server_step cfg s (Heartbeat, es) t"
inductive_simps server_step_iff:
  "server_step cfg s (Message w f d, es) t"
  "server_step cfg s (Close w, es) t"
  "server_step cfg s (Heartbeat, es) t"

text \<open>
  The same step as a function, for running the model: the next state and the effects of an
  event, if it can happen and its listener does not throw.
\<close>

definition with_conn :: "server \<Rightarrow> nat \<Rightarrow> (conn \<Rightarrow> (server \<times> effect list) option) \<Rightarrow> (server \<times> effect list) option" where
  "with_conn s w k = (case map_of (sv_clients s) w of Some c \<Rightarrow> k c | None \<Rightarrow> None)"

fun server_exec :: "config \<Rightarrow> server \<Rightarrow> server_event \<Rightarrow> (server \<times> effect list) option" where
  "server_exec cfg s (Connect w now rs) =
     (if map_of (sv_clients s) w = None then Some (on_connection cfg w now rs s, []) else None)"
| "server_exec cfg s (Message w f d) =
     with_conn s w (\<lambda>c. if fresh_uuid s (uuid d) then Some (on_message cfg d s w c f) else None)"
| "server_exec cfg s (Close w) = with_conn s w (on_close s w)"
| "server_exec cfg s (Pong w) = with_conn s w (\<lambda>c. Some (set_conn w (c\<lparr>ws_isAlive := True\<rparr>) s, []))"
| "server_exec cfg s (ReadyState w rs) =
     with_conn s w (\<lambda>c. if ready_code (ws_readyState c) \<le> ready_code rs
       then Some (set_conn w (c\<lparr>ws_readyState := rs\<rparr>) s, []) else None)"
| "server_exec cfg s Heartbeat = (if sv_heartbeat s then Some (on_heartbeat s) else None)"
| "server_exec cfg s ServerError = Some (on_server_error s, [])"
| "server_exec cfg s Shutdown = Some (shutdown s)"

lemma server_exec_step: "server_exec cfg s ev = Some (t, es) \<Longrightarrow> server_step cfg s (ev, es) t"
  by (cases ev) (auto simp: with_conn_def less_eq_ready_state_def split: option.splits if_splits intro: server_step.intros)

lemma server_step_exec: "server_step cfg s (ev, es) t \<Longrightarrow> server_exec cfg s ev = Some (t, es)"
  by (cases rule: server_step.cases, assumption) (auto simp: with_conn_def less_eq_ready_state_def)

fun server_run :: "config \<Rightarrow> server \<Rightarrow> server_event list \<Rightarrow> (server \<times> effect list list) option" where
  "server_run cfg s [] = Some (s, [])"
| "server_run cfg s (ev # evs) =
     (case server_exec cfg s ev of
        None \<Rightarrow> None
      | Some (t, es) \<Rightarrow> map_option (\<lambda>(u, ess). (u, es # ess)) (server_run cfg t evs))"

definition server_reachable :: "config \<Rightarrow> server \<Rightarrow> bool" where
  "server_reachable cfg = reachable (\<lambda>s. s = initial_server) (server_step cfg)"

lemma server_reachable_start: "server_reachable cfg initial_server"
  unfolding server_reachable_def by (rule reachable_start) simp

lemma server_reachable_step: "server_reachable cfg s \<Longrightarrow> server_step cfg s l t \<Longrightarrow> server_reachable cfg t"
  unfolding server_reachable_def by (rule reachable_step)

lemma server_exec_reachable:
  "server_exec cfg s ev = Some (t, es) \<Longrightarrow> server_reachable cfg s \<Longrightarrow> server_reachable cfg t"
  using server_exec_step server_reachable_step by blast

lemma server_run_reachable:
  "server_run cfg s evs = Some (t, ess) \<Longrightarrow> server_reachable cfg s \<Longrightarrow> server_reachable cfg t"
proof (induction evs arbitrary: s ess)
  case (Cons ev evs)
  then obtain u es ess' where "server_exec cfg s ev = Some (u, es)" and "server_run cfg u evs = Some (t, ess')"
    by (auto split: option.splits)
  with Cons show ?case using server_exec_reachable by blast
qed simp

end
