(* ===== verification/ServerInvariant.thy ===== *)
theory ServerInvariant
  imports Server
begin

text \<open>
  The invariant of the signaling server, that every step keeps it, and what it gives in a
  reachable state: the \<open>rooms\<close> table and the participants of the open connections are two
  views of one relation, rooms are never empty and never over the limit, ids are unique. The
  server's table satisfies the contract of \<open>RoomStore\<close>.
\<close>

section \<open>The rooms table satisfies the contract\<close>

lemma rooms_leave_eq: "rooms_leave = table_leave"
  by (simp add: rooms_leave_def table_leave_def table_put_def Let_def fun_eq_iff split: option.split)

interpretation sv: room_store table_ok table_look table_has "\<lambda>_ _. True" p_id rooms_enter rooms_leave
proof unfold_locales
  fix rooms :: "participant room_table" and r r' i p
  assume ok: "table_ok rooms"
  show "table_ok (rooms_enter rooms r p)"
    using ok by (auto simp: rooms_enter_def split: option.split
        intro!: table_ok_update distinct_keys_update intro: table_ok_room)
  show "table_look (rooms_enter rooms r p) = (if True
     then (table_look rooms)(r := (table_look rooms r)(p_id p \<mapsto> p)) else table_look rooms)"
    by (cases "map_of rooms r")
      (simp_all add: rooms_enter_def table_look_update map_of_update_eq table_look_Some table_look_None)
  show "table_has (rooms_enter rooms r p) r' \<longleftrightarrow> table_has rooms r' \<or> True \<and> r' = r"
    by (simp add: rooms_enter_def table_has_update)
qed (simp_all add: rooms_leave_eq table_leave_ok table_leave_look table_leave_has, rule table_look_has)

section \<open>Frames\<close>

definition part_of :: "server \<Rightarrow> nat \<Rightarrow> participant option" where
  "part_of s w = (case map_of (sv_clients s) w of Some c \<Rightarrow> ws_participant c | None \<Rightarrow> None)"

lemma set_conn_simps [simp]:
  "sv_rooms (set_conn w c s) = sv_rooms s"
  "sv_heartbeat (set_conn w c s) = sv_heartbeat s"
  "sv_clients (set_conn w c s) = AList.update w c (sv_clients s)"
  by (simp_all add: set_conn_def)

lemma part_of_set_conn [simp]:
  "part_of (set_conn w c s) w' = (if w' = w then ws_participant c else part_of s w')"
  by (simp add: part_of_def map_of_update_eq)

lemma ready_of_set_conn [simp]:
  "ready_of (set_conn w c s) w' = (if w' = w then ws_readyState c else ready_of s w')"
  by (simp add: ready_of_def map_of_update_eq)

lemma part_of_rooms [simp]: "part_of (s\<lparr>sv_rooms := rs\<rparr>) = part_of s"
  and ready_of_rooms [simp]: "ready_of (s\<lparr>sv_rooms := rs\<rparr>) = ready_of s"
  by (simp_all add: part_of_def ready_of_def fun_eq_iff)

lemma part_of_conn: "map_of (sv_clients s) w = Some c \<Longrightarrow> part_of s w = ws_participant c"
  and ready_of_conn: "map_of (sv_clients s) w = Some c \<Longrightarrow> ready_of s w = ws_readyState c"
  by (simp_all add: part_of_def ready_of_def)

lemma part_of_Some: "part_of s w = Some p \<Longrightarrow> \<exists>c. map_of (sv_clients s) w = Some c \<and> ws_participant c = Some p"
  by (auto simp: part_of_def split: option.splits)

lemma take_token_frame [simp]:
  "ws_participant (fst (take_token cfg t1 t2 c)) = ws_participant c"
  "ws_readyState (fst (take_token cfg t1 t2 c)) = ws_readyState c"
  "ws_isAlive (fst (take_token cfg t1 t2 c)) = ws_isAlive c"
  by (simp_all add: take_token_def Let_def)

section \<open>The invariant\<close>

definition rooms_bounded :: "config \<Rightarrow> server \<Rightarrow> bool" where
  "rooms_bounded cfg s \<longleftrightarrow> (\<forall>r room. map_of (sv_rooms s) r = Some room \<longrightarrow>
     room \<noteq> [] \<and> length room \<le> cfg_maxParticipants cfg)"

definition seats_agree :: "server \<Rightarrow> bool" where
  "seats_agree s \<longleftrightarrow> (\<forall>r i p. table_look (sv_rooms s) r i = Some p \<longleftrightarrow>
     part_of s (p_ws p) = Some p \<and> p_roomId p = r \<and> p_id p = i)"

definition seats_valid :: "server \<Rightarrow> bool" where
  "seats_valid s \<longleftrightarrow> (\<forall>w p. part_of s w = Some p \<longrightarrow> p_ws p = w \<and> room_id_ok (p_roomId p) \<and>
     name_ok (p_displayName p) \<and> trim (p_displayName p) = p_displayName p)"

definition ids_unique :: "server \<Rightarrow> bool" where
  "ids_unique s \<longleftrightarrow> (\<forall>w p w' p'. part_of s w = Some p \<longrightarrow> part_of s w' = Some p' \<longrightarrow> p_id p = p_id p' \<longrightarrow> w = w')"

definition server_inv :: "config \<Rightarrow> server \<Rightarrow> bool" where
  "server_inv cfg s \<longleftrightarrow> distinct (keys_of (sv_clients s)) \<and> table_ok (sv_rooms s) \<and>
     rooms_bounded cfg s \<and> seats_agree s \<and> seats_valid s \<and> ids_unique s"

lemmas server_inv_parts = rooms_bounded_def seats_agree_def seats_valid_def ids_unique_def

lemma server_invI:
  assumes "distinct (keys_of (sv_clients s))" and "table_ok (sv_rooms s)"
    and "\<And>r room. map_of (sv_rooms s) r = Some room \<Longrightarrow> room \<noteq> [] \<and> length room \<le> cfg_maxParticipants cfg"
    and "\<And>r i p. table_look (sv_rooms s) r i = Some p \<longleftrightarrow>
        part_of s (p_ws p) = Some p \<and> p_roomId p = r \<and> p_id p = i"
    and "\<And>w p. part_of s w = Some p \<Longrightarrow> p_ws p = w \<and> room_id_ok (p_roomId p) \<and>
        name_ok (p_displayName p) \<and> trim (p_displayName p) = p_displayName p"
    and "\<And>w p w' p'. part_of s w = Some p \<Longrightarrow> part_of s w' = Some p' \<Longrightarrow> p_id p = p_id p' \<Longrightarrow> w = w'"
  shows "server_inv cfg s"
proof -
  have "rooms_bounded cfg s" using assms(3) by (simp add: rooms_bounded_def)
  moreover have "seats_agree s" unfolding seats_agree_def using assms(4) by (intro allI)
  moreover have "seats_valid s" using assms(5) by (simp add: seats_valid_def)
  moreover have "ids_unique s" unfolding ids_unique_def by (intro allI impI) (rule assms(6))
  ultimately show ?thesis using assms(1,2) by (simp add: server_inv_def)
qed

lemma inv_clients: "server_inv cfg s \<Longrightarrow> distinct (keys_of (sv_clients s))"
  and inv_table: "server_inv cfg s \<Longrightarrow> table_ok (sv_rooms s)"
  by (simp_all add: server_inv_def)

lemma inv_room:
  "server_inv cfg s \<Longrightarrow> map_of (sv_rooms s) r = Some room \<Longrightarrow> room \<noteq> [] \<and> length room \<le> cfg_maxParticipants cfg"
  by (simp add: server_inv_def rooms_bounded_def)

lemma inv_look: "server_inv cfg s \<Longrightarrow> table_look (sv_rooms s) r i = Some p \<longleftrightarrow>
    part_of s (p_ws p) = Some p \<and> p_roomId p = r \<and> p_id p = i"
  by (simp add: server_inv_def seats_agree_def)

lemma inv_part: "server_inv cfg s \<Longrightarrow> part_of s w = Some p \<Longrightarrow> p_ws p = w \<and> room_id_ok (p_roomId p) \<and>
    name_ok (p_displayName p) \<and> trim (p_displayName p) = p_displayName p"
  by (simp add: server_inv_def seats_valid_def)

lemma inv_unique: "server_inv cfg s \<Longrightarrow> part_of s w = Some p \<Longrightarrow> part_of s w' = Some p' \<Longrightarrow>
    p_id p = p_id p' \<Longrightarrow> w = w'"
  unfolding server_inv_def ids_unique_def by blast

text \<open>A participant's room exists and holds it under its id.\<close>

lemma inv_seat:
  assumes "server_inv cfg s" and "part_of s w = Some p"
  obtains room where "map_of (sv_rooms s) (p_roomId p) = Some room" and "map_of room (p_id p) = Some p"
proof -
  have "table_look (sv_rooms s) (p_roomId p) (p_id p) = Some p"
    using inv_look [OF assms(1)] inv_part [OF assms] assms(2) by simp
  then show ?thesis
    by (auto simp: table_look_def split: option.splits intro: that)
qed

text \<open>The members of a room are participants of open connections of that room.\<close>

lemma inv_member:
  assumes "server_inv cfg s" and "map_of (sv_rooms s) r = Some room" and "(i, p) \<in> set room"
  shows "part_of s (p_ws p) = Some p" and "p_roomId p = r" and "p_id p = i"
proof -
  have "distinct (keys_of room)"
    by (rule table_ok_room [OF inv_table [OF assms(1)] assms(2)])
  with assms(2,3) have "table_look (sv_rooms s) r i = Some p"
    by (simp add: table_look_def)
  then show "part_of s (p_ws p) = Some p" and "p_roomId p = r" and "p_id p = i"
    by (simp_all add: inv_look [OF assms(1)])
qed

text \<open>The invariant depends on the clients only through their participants.\<close>

lemma server_inv_frame:
  assumes "server_inv cfg s" and "sv_rooms t = sv_rooms s" and "part_of t = part_of s"
    and "distinct (keys_of (sv_clients t))"
  shows "server_inv cfg t"
  using assms unfolding server_inv_def server_inv_parts by simp

lemma set_conn_inv:
  assumes "server_inv cfg s" and "ws_participant c' = part_of s w"
  shows "server_inv cfg (set_conn w c' s)"
  using assms by (intro server_inv_frame [OF assms(1)]) (auto simp: inv_clients)

section \<open>What a message does to the state\<close>

text \<open>Either only the connection's token bucket changes, or the sender takes a seat.\<close>

lemma handle_request_state:
  assumes "handle_request cfg d s w c typ payload requestId = Some (t, es)"
  shows "t = s \<or> typ = js ''room.join'' \<and> (t, es) = handle_join cfg d s w c payload requestId"
  using assms by (auto simp: handle_request_def Let_def split: if_splits option.splits)

definition seatable :: "config \<Rightarrow> server \<Rightarrow> nat \<Rightarrow> conn \<Rightarrow> participant \<Rightarrow> bool" where
  "seatable cfg s w c p \<longleftrightarrow> ws_participant c = None \<and> p_ws p = w \<and> room_id_ok (p_roomId p) \<and>
     name_ok (p_displayName p) \<and> trim (p_displayName p) = p_displayName p \<and>
     length (room_of s (p_roomId p)) < cfg_maxParticipants cfg"

lemma name_ok_trim: "name_ok n \<Longrightarrow> name_ok (trim n)"
  using length_trim [of n] by (simp add: name_ok_def)

lemma join_request_Some: "join_request payload = Some (r, n) \<longleftrightarrow>
    get_prop payload (js ''roomId'') = Str r \<and> get_prop payload (js ''displayName'') = Str n \<and> room_id_ok r \<and> name_ok n"
  by (auto simp: join_request_def split: jsval.splits if_splits)

lemma handle_join_cases:
  obtains (refused) code m where "handle_join cfg d s w c payload r = (s, fail s w code m r)"
  | (seated) p where "p_id p = uuid d" and "seatable cfg s w c p"
      and "handle_join cfg d s w c payload r = (take_seat s w c p, join_effects cfg (take_seat s w c p) w p r)"
proof (cases "ws_participant c = None \<and> (\<exists>ri n. join_request payload = Some (ri, n) \<and>
    length (room_of s ri) < cfg_maxParticipants cfg)")
  case True
  then obtain ri n where c: "ws_participant c = None" and req: "join_request payload = Some (ri, n)"
      and len: "length (room_of s ri) < cfg_maxParticipants cfg"
    by blast
  let ?p = "new_participant d w ri n"
  have "handle_join cfg d s w c payload r = (take_seat s w c ?p, join_effects cfg (take_seat s w c ?p) w ?p r)"
    using c req len by (simp add: handle_join_def Let_def)
  moreover have "seatable cfg s w c ?p"
    using c req len by (simp add: new_participant_def seatable_def join_request_Some name_ok_trim)
  moreover have "p_id ?p = uuid d" by (simp add: new_participant_def)
  ultimately show ?thesis by (intro seated)
next
  case False
  then consider (already) "ws_participant c \<noteq> None"
    | (invalid) "ws_participant c = None" "join_request payload = None"
    | (full) ri n where "ws_participant c = None" "join_request payload = Some (ri, n)"
        "cfg_maxParticipants cfg \<le> length (room_of s ri)"
    by force
  then show ?thesis
  proof cases
    case already
    then show ?thesis by (intro refused [of 409 "''Already joined a room''"]) (simp add: handle_join_def)
  next
    case invalid
    then show ?thesis
      by (intro refused [of 400 "''Invalid room ID or display name''"]) (simp add: handle_join_def)
  next
    case full
    then show ?thesis by (intro refused [of 409 "''Room is full''"]) (simp add: handle_join_def)
  qed
qed

lemma handle_join_state:
  assumes "handle_join cfg d s w c payload requestId = (t, es)"
  shows "t = s \<or> (\<exists>p. p_id p = uuid d \<and> seatable cfg s w c p \<and> t = take_seat s w c p)"
  using assms by (cases rule: handle_join_cases [of cfg d s w c payload requestId]) auto

lemma handle_parsed_state:
  assumes "handle_parsed cfg d s w c msg = (t, es)"
  shows "t = s \<or> (\<exists>p. p_id p = uuid d \<and> seatable cfg s w c p \<and> t = take_seat s w c p)"
proof -
  consider "t = s"
    | ty payload requestId where "handle_request cfg d s w c ty payload requestId = Some (t, es)"
    using assms by (auto simp: handle_parsed_def Let_def split: if_splits option.splits)
  then show ?thesis
  proof cases
    case 2
    then show ?thesis
      using handle_join_state by (metis handle_request_state)
  qed simp
qed

lemma on_message_state:
  assumes "on_message cfg d s w c f = (t, es)"
  obtains c' where "ws_participant c' = ws_participant c" and "ws_readyState c' = ws_readyState c"
    and "t = set_conn w c' s \<or> (\<exists>p. p_id p = uuid d \<and> seatable cfg (set_conn w c' s) w c' p \<and> t = take_seat (set_conn w c' s) w c' p)"
proof -
  let ?c = "fst (take_token cfg (now1 d) (now2 d) c)"
  have "t = set_conn w ?c s \<or> (\<exists>p. p_id p = uuid d \<and> seatable cfg (set_conn w ?c s) w ?c p \<and> t = take_seat (set_conn w ?c s) w ?c p)"
    using assms unfolding on_message_def
    by (auto simp: Let_def split: if_splits frame.splits option.splits prod.splits dest: handle_parsed_state)
  then show ?thesis by (intro that) auto
qed

section \<open>Every step keeps the invariant\<close>

lemma table_look_room_of: "table_look (sv_rooms s) r = map_of (room_of s r)"
  by (simp add: table_look_def room_of_def fun_eq_iff split: option.split)

lemma take_seat_part: "part_of (take_seat s w c p) w' = (if w' = w then Some p else part_of s w')"
  by (simp add: take_seat_def)

lemma take_seat_ready: "ready_of (take_seat s w c p) w' = (if w' = w then ws_readyState c else ready_of s w')"
  by (simp add: take_seat_def)

lemma take_seat_rooms: "sv_rooms (take_seat s w c p) = rooms_enter (sv_rooms s) (p_roomId p) p"
  by (simp add: take_seat_def)

lemma room_of_take_seat:
  "room_of (take_seat s w c p) r = (if r = p_roomId p then AList.update (p_id p) p (room_of s r) else room_of s r)"
  by (auto simp: room_of_def take_seat_rooms rooms_enter_def map_of_update_eq)

lemma seat_inv:
  assumes inv: "server_inv cfg s" and seat: "seatable cfg s w c p" and t: "t = take_seat s w c p"
    and w: "part_of s w = None" and fresh: "\<And>w' p'. part_of s w' = Some p' \<Longrightarrow> p_id p' \<noteq> p_id p"
  shows "server_inv cfg t"
proof (rule server_invI)
  note seatD = seat [unfolded seatable_def]
  have t_part: "part_of t w' = (if w' = w then Some p else part_of s w')" for w'
    by (simp add: t take_seat_part)
  have t_look: "table_look (sv_rooms t) = (table_look (sv_rooms s))(p_roomId p := (table_look (sv_rooms s) (p_roomId p))(p_id p \<mapsto> p))"
    using sv.look_enter [OF inv_table [OF inv]] by (simp add: t take_seat_rooms)
  show "distinct (keys_of (sv_clients t))" using inv_clients [OF inv] by (simp add: t take_seat_def)
  show "table_ok (sv_rooms t)" using sv.ok_enter [OF inv_table [OF inv]] by (simp add: t take_seat_rooms)
  show "p_ws q = w' \<and> room_id_ok (p_roomId q) \<and> name_ok (p_displayName q) \<and> trim (p_displayName q) = p_displayName q"
    if "part_of t w' = Some q" for w' q
    using that seatD inv_part [OF inv] by (auto simp: t_part split: if_splits)
  show "w1 = w2" if "part_of t w1 = Some p1" "part_of t w2 = Some p2" "p_id p1 = p_id p2" for w1 w2 p1 p2
    using that inv_unique [OF inv, of w1 p1 w2 p2] fresh [of w1 p1] fresh [of w2 p2]
    by (auto simp: t_part split: if_splits)
  show "room \<noteq> [] \<and> length room \<le> cfg_maxParticipants cfg" if "map_of (sv_rooms t) r = Some room" for r room
  proof (cases "r = p_roomId p")
    case True
    with that have "room = AList.update (p_id p) p (room_of s r)"
      using room_of_take_seat [of s w c p r] by (simp add: t room_of_def)
    with seatD True show ?thesis by (auto simp: length_update)
  next
    case False
    with that have "map_of (sv_rooms s) r = Some room"
      by (auto simp: t take_seat_rooms rooms_enter_def map_of_update_eq)
    then show ?thesis by (rule inv_room [OF inv])
  qed
  show "table_look (sv_rooms t) r i = Some q \<longleftrightarrow> part_of t (p_ws q) = Some q \<and> p_roomId q = r \<and> p_id q = i" for r i q
  proof -
    have "p_ws p = w" using seatD by simp
    moreover have "part_of s (p_ws q) = Some q \<Longrightarrow> p_id q \<noteq> p_id p" by (rule fresh)
    ultimately show ?thesis
      using inv_look [OF inv, of r i q] w by (auto simp: t_look t_part)
  qed
qed

lemma fresh_uuidD:
  assumes "fresh_uuid s u" and "part_of s w = Some p"
  shows "p_id p \<noteq> u"
proof -
  from part_of_Some [OF assms(2)] obtain c where "(w, c) \<in> set (sv_clients s)" "ws_participant c = Some p"
    by (auto dest: map_of_SomeD)
  with assms(1) show ?thesis by (force simp: fresh_uuid_def list_all_iff)
qed

lemma message_inv:
  assumes inv: "server_inv cfg s" and c: "map_of (sv_clients s) w = Some c" and "fresh_uuid s (uuid d)"
    and "on_message cfg d s w c f = (t, es)"
  shows "server_inv cfg t"
proof -
  obtain c' where c': "ws_participant c' = ws_participant c"
    and t: "t = set_conn w c' s \<or> (\<exists>p. p_id p = uuid d \<and> seatable cfg (set_conn w c' s) w c' p \<and> t = take_seat (set_conn w c' s) w c' p)"
    using assms(4) by (rule on_message_state)
  let ?s = "set_conn w c' s"
  have inv': "server_inv cfg ?s"
    using inv c' c by (intro set_conn_inv) (simp_all add: part_of_conn)
  have part: "part_of ?s = part_of s"
    using c c' by (auto simp: fun_eq_iff part_of_conn)
  show ?thesis
  proof (cases "t = ?s")
    case True
    with inv' show ?thesis by simp
  next
    case False
    with t obtain p where p: "p_id p = uuid d" and seat: "seatable cfg ?s w c' p"
      and t': "t = take_seat ?s w c' p" by blast
    have "part_of s w = None" using seat c c' by (simp add: seatable_def part_of_conn)
    then show ?thesis
      using p fresh_uuidD [OF assms(3)] by (intro seat_inv [OF inv' seat t']) (auto simp: part)
  qed
qed

lemma close_inv:
  assumes inv: "server_inv cfg s" and c: "map_of (sv_clients s) w = Some c" and step: "on_close s w c = Some (t, es)"
  shows "server_inv cfg t"
proof (cases "ws_participant c")
  case None
  with step have t: "t = s\<lparr>sv_clients := AList.delete w (sv_clients s)\<rparr>" by (simp add: on_close_def)
  have "part_of t = part_of s"
    using None c by (auto simp: t part_of_def map_of_delete_eq fun_eq_iff)
  then show ?thesis by (intro server_inv_frame [OF inv]) (auto simp: t inv_clients [OF inv])
next
  case (Some p)
  then have p: "part_of s w = Some p" using c by (simp add: part_of_conn)
  from step Some have t: "t = s\<lparr>sv_clients := AList.delete w (sv_clients s), sv_rooms := rooms_leave (sv_rooms s) (p_roomId p) (p_id p)\<rparr>"
    by (auto simp: on_close_def Let_def split: option.splits)
  have t_part: "part_of t = (part_of s)(w := None)"
    by (auto simp: t part_of_def map_of_delete_eq fun_eq_iff)
  have t_look: "table_look (sv_rooms t) = (table_look (sv_rooms s))(p_roomId p := (table_look (sv_rooms s) (p_roomId p))(p_id p := None))"
    using sv.look_leave [OF inv_table [OF inv]] by (simp add: t)
  show ?thesis
  proof (rule server_invI)
    show "distinct (keys_of (sv_clients t))" using inv_clients [OF inv] by (simp add: t)
    show "table_ok (sv_rooms t)" using sv.ok_leave [OF inv_table [OF inv]] by (simp add: t)
    show "p_ws q = w' \<and> room_id_ok (p_roomId q) \<and> name_ok (p_displayName q) \<and> trim (p_displayName q) = p_displayName q"
      if "part_of t w' = Some q" for w' q
      using that inv_part [OF inv] by (auto simp: t_part split: if_splits)
    show "w1 = w2" if "part_of t w1 = Some p1" "part_of t w2 = Some p2" "p_id p1 = p_id p2" for w1 w2 p1 p2
      using that inv_unique [OF inv] by (auto simp: t_part split: if_splits)
    show "table_look (sv_rooms t) r i = Some q \<longleftrightarrow> part_of t (p_ws q) = Some q \<and> p_roomId q = r \<and> p_id q = i" for r i q
    proof -
      have "part_of s (p_ws q) = Some q \<and> p_roomId q = p_roomId p \<and> p_id q = p_id p \<longleftrightarrow> q = p"
        using inv_part [OF inv p] p inv_unique [OF inv p, of "p_ws q" q] by auto
      moreover have "p_ws q = w \<and> part_of s w = Some q \<longleftrightarrow> q = p"
        using inv_part [OF inv p] p by auto
      ultimately show ?thesis
        using inv_look [OF inv, of r i q] by (auto simp: t_look t_part)
    qed
    show "room \<noteq> [] \<and> length room \<le> cfg_maxParticipants cfg" if "map_of (sv_rooms t) r = Some room" for r room
    proof (cases "r = p_roomId p")
      case True
      obtain room0 where "map_of (sv_rooms s) (p_roomId p) = Some room0" by (rule inv_seat [OF inv p])
      with that True inv_room [OF inv, of r room0] show ?thesis
        by (auto simp: t rooms_leave_eq table_leave_def map_of_table_put split: if_splits intro: order_trans [OF length_delete_le])
    next
      case False
      with that have "map_of (sv_rooms s) r = Some room"
        by (auto simp: t rooms_leave_eq table_leave_def map_of_table_put split: option.splits)
      then show ?thesis by (rule inv_room [OF inv])
    qed
  qed
qed

lemma heartbeat_part: "part_of (fst (on_heartbeat s)) = part_of s"
  by (auto simp: part_of_def on_heartbeat_def map_of_map_values fun_eq_iff split: option.splits)

lemma heartbeat_inv:
  assumes "server_inv cfg s"
  shows "server_inv cfg (fst (on_heartbeat s))"
proof (rule server_inv_frame [OF assms])
  show "distinct (keys_of (sv_clients (fst (on_heartbeat s))))"
    using inv_clients [OF assms] by (simp add: on_heartbeat_def case_prod_beta comp_def)
qed (simp_all add: heartbeat_part, simp add: on_heartbeat_def)

lemma connect_inv:
  "server_inv cfg s \<Longrightarrow> map_of (sv_clients s) w = None \<Longrightarrow> server_inv cfg (on_connection cfg w now rs s)"
  unfolding on_connection_def by (rule set_conn_inv) (simp_all add: part_of_def)

lemma server_step_inv:
  assumes "server_inv cfg s" and "server_step cfg s l t"
  shows "server_inv cfg t"
  using assms(2,1)
proof (induction rule: server_step.induct)
  case (heartbeat s t es)
  then show ?case using heartbeat_inv [of cfg s] by simp
next
  case (pong s w c)
  then show ?case by (intro set_conn_inv) (simp_all add: part_of_conn)
next
  case (ready s w c rs)
  then show ?case by (intro set_conn_inv) (simp_all add: part_of_conn)
next
  case (server_error s)
  show ?case
    by (rule server_inv_frame [OF server_error])
      (simp_all add: inv_clients [OF server_error] on_server_error_def part_of_def fun_eq_iff)
next
  case (stop s t es)
  then have "sv_clients t = sv_clients s" "sv_rooms t = sv_rooms s" by (auto simp: shutdown_def)
  with stop show ?case
    by (intro server_inv_frame [OF stop(2)]) (simp_all add: inv_clients part_of_def fun_eq_iff)
qed (rule connect_inv, assumption+, rule message_inv, assumption+, rule close_inv, assumption+)

lemma initial_inv: "server_inv cfg initial_server"
  by (rule server_invI) (auto simp: initial_server_def part_of_def table_look_def)

interpretation server_machine: machine "\<lambda>s. s = initial_server" "server_step cfg" "server_inv cfg" for cfg
  by unfold_locales (auto intro: initial_inv server_step_inv)

lemma server_reachable_inv: "server_reachable cfg s \<Longrightarrow> server_inv cfg s"
  unfolding server_reachable_def by (rule server_machine.reach_inv)

end
