(* ===== verification/ServerSafety.thy ===== *)
theory ServerSafety
  imports ServerInvariant
begin

text \<open>
  What the signaling server sends: who gets the effects of a step, in which order, with which
  sender identity; the errors a client can get; and that no listener throws in a reachable
  state.
\<close>

section \<open>Broadcasts\<close>

definition open_members :: "server \<Rightarrow> (jstring \<times> participant) list \<Rightarrow> jstring option \<Rightarrow> nat list" where
  "open_members s room except = map p_ws (filter (\<lambda>q. Some (p_id q) \<noteq> except \<and> ready_of s (p_ws q) = OPEN) (map snd room))"

lemma broadcast_room_map:
  "broadcast_room s room typ payload except =
     map (\<lambda>v. Send v (wire (envelope (js typ) payload Undefined))) (open_members s room except)"
  by (induction room) (auto simp: broadcast_room_def open_members_def send_def)

lemma send_effects: "e \<in> set (send s w typ payload r) \<longleftrightarrow> ready_of s w = OPEN \<and> e = Send w (wire (envelope (js typ) payload r))"
  by (auto simp: send_def)

lemma fail_effects: "e \<in> set (fail s w code m r) \<longleftrightarrow> ready_of s w = OPEN \<and>
    e = Send w (wire (envelope (js ''error'') (Obj [(js ''code'', jnum code), (js ''message'', Str (js m))]) r))"
  by (simp add: fail_def send_effects)

text \<open>The sockets of a room: each connection seated in it, once, in the order of arrival.\<close>

definition room_sockets :: "server \<Rightarrow> jstring \<Rightarrow> nat list" where
  "room_sockets s r = map (p_ws \<circ> snd) (room_of s r)"

lemma room_of_table: "table_ok (sv_rooms s) \<Longrightarrow> distinct (keys_of (room_of s r))"
  by (auto simp: room_of_def split: option.split dest: table_ok_room)

lemma inv_room_of:
  assumes "server_inv cfg s"
  shows "(i, p) \<in> set (room_of s r) \<longleftrightarrow> part_of s (p_ws p) = Some p \<and> p_roomId p = r \<and> p_id p = i"
proof -
  have "(i, p) \<in> set (room_of s r) \<longleftrightarrow> table_look (sv_rooms s) r i = Some p"
    using room_of_table [OF inv_table [OF assms]] by (simp add: table_look_room_of)
  then show ?thesis by (simp add: inv_look [OF assms])
qed

lemma room_entryD:
  assumes "server_inv cfg s" and "x \<in> set (room_of s r)"
  shows "part_of s (p_ws (snd x)) = Some (snd x)" and "p_roomId (snd x) = r" and "p_id (snd x) = fst x"
  using inv_room_of [OF assms(1), of "fst x" "snd x" r] assms(2) unfolding prod.collapse by blast+

lemma set_room_sockets:
  assumes "server_inv cfg s"
  shows "set (room_sockets s r) = {v. \<exists>q. part_of s v = Some q \<and> p_roomId q = r}"
proof (intro equalityI subsetI)
  fix v assume "v \<in> set (room_sockets s r)"
  then show "v \<in> {v. \<exists>q. part_of s v = Some q \<and> p_roomId q = r}"
    by (auto simp: room_sockets_def inv_room_of [OF assms])
next
  fix v assume "v \<in> {v. \<exists>q. part_of s v = Some q \<and> p_roomId q = r}"
  then obtain q where q: "part_of s v = Some q" "p_roomId q = r" by blast
  then have "(p_id q, q) \<in> set (room_of s r)" and "p_ws q = v"
    using inv_part [OF assms q(1)] by (simp_all add: inv_room_of [OF assms])
  then show "v \<in> set (room_sockets s r)" by (force simp: room_sockets_def)
qed

lemma distinct_room_sockets:
  assumes "server_inv cfg s"
  shows "distinct (room_sockets s r)"
proof -
  have "inj_on (p_ws \<circ> snd) (set (room_of s r))"
  proof (rule inj_onI)
    fix x y assume x: "x \<in> set (room_of s r)" and y: "y \<in> set (room_of s r)"
      and "(p_ws \<circ> snd) x = (p_ws \<circ> snd) y"
    then have "snd x = snd y"
      using room_entryD(1) [OF assms x] room_entryD(1) [OF assms y] by (metis comp_apply option.inject)
    then show "x = y"
      using room_entryD(3) [OF assms x] room_entryD(3) [OF assms y] by (simp add: prod_eq_iff)
  qed
  moreover have "distinct (room_of s r)"
    using room_of_table [OF inv_table [OF assms]] by (simp add: distinct_map)
  ultimately show ?thesis by (simp add: room_sockets_def distinct_map)
qed

section \<open>Where the effects of a message go\<close>

definition same_room :: "server \<Rightarrow> nat \<Rightarrow> nat \<Rightarrow> bool" where
  "same_room s w v \<longleftrightarrow> (case (part_of s w, part_of s v) of
     (Some p, Some q) \<Rightarrow> p_roomId p = p_roomId q | _ \<Rightarrow> False)"

text \<open>An effect that stays between a sender and the open members of its room.\<close>

fun confined :: "server \<Rightarrow> nat \<Rightarrow> effect \<Rightarrow> bool" where
  "confined s w (Send v m) = (ready_of s v = OPEN \<and> (v = w \<or> same_room s w v))"
| "confined s w _ = False"

lemma confined_self: "e \<in> set (send s w typ payload r) \<Longrightarrow> confined s w e"
  and confined_fail: "e \<in> set (fail s w code m r) \<Longrightarrow> confined s w e"
  by (simp_all add: send_def fail_def split: if_splits)

lemma confined_broadcast:
  assumes "server_inv cfg s" and "part_of s w = Some p" and "e \<in> set (broadcast_room s (room_of s (p_roomId p)) typ payload except)"
  shows "confined s w e"
  using assms(2,3) by (auto simp: broadcast_room_map open_members_def same_room_def inv_room_of [OF assms(1)])

lemma room_of_Some: "map_of (sv_rooms s) r = Some room \<Longrightarrow> room_of s r = room"
  by (simp add: room_of_def)

lemma confined_join_effects:
  assumes "server_inv cfg s" and "part_of s w = Some p" and "e \<in> set (join_effects cfg s w p r)"
  shows "confined s w e"
  using assms(3) unfolding join_effects_def set_append
  by (auto intro: confined_self confined_broadcast [OF assms(1,2)])

lemma confined_relay:
  assumes "server_inv cfg s" and "part_of s w = Some p" and "map_of (sv_rooms s) (p_roomId p) = Some room"
    and "e \<in> set (handle_relay s w p room typ payload r)"
  shows "confined s w e"
proof -
  consider "\<exists>code m. e \<in> set (fail s w code m r)"
    | i q pl where "(i, q) \<in> set room" "e \<in> set (send s (p_ws q) typ pl Undefined)"
    using assms(4) unfolding handle_relay_def
    by (cases "get_prop payload (js ''targetId'')")
      (force split: option.splits if_splits sum.splits dest: map_of_SomeD)+
  then show ?thesis
  proof cases
    case 2
    then have "part_of s (p_ws q) = Some q \<and> p_roomId q = p_roomId p"
      using inv_member [OF assms(1,3)] by blast
    with 2 assms(2) show ?thesis by (auto simp: send_def same_room_def split: if_splits)
  qed (auto intro: confined_fail)
qed

section \<open>The outcomes of a message\<close>

text \<open>
  One case rule for the dispatch: a reply to the sender, a seat taken, a relay to one other
  member, or a chat line to the room.
\<close>

lemma find_relay: "find (\<lambda>t. typ = js t) relay_types = Some ty \<longleftrightarrow> typ = js ty \<and> ty \<in> set relay_types"
  by (auto simp: relay_types_def)

lemma handle_request_cases [consumes 1]:
  assumes "handle_request cfg d s w c typ payload r = Some (t, es)"
  obtains (reply) ty pl where "ty \<in> {''pong'', ''room.created'', ''error''}" and "t = s" and "es = send s w ty pl r"
  | (seated) p where "typ = js ''room.join''" and "p_id p = uuid d" and "seatable cfg s w c p" and "t = take_seat s w c p"
      and "es = join_effects cfg t w p r"
  | (relay) p room i q ty copied where "ws_participant c = Some p" and "map_of (sv_rooms s) (p_roomId p) = Some room"
      and "map_get room (get_prop payload (js ''targetId'')) = Some q" and "(i, q) \<in> set room" and "p_id q \<noteq> p_id p"
      and "typ = js ty" and "ty \<in> set relay_types" and "forwarded typ payload = Inr copied" and "t = s"
      and "es = send s (p_ws q) ty (Obj (copied @ [(js ''participantId'', Str (p_id p))])) Undefined"
  | (chat) p room x where "typ = js ''chat.send''" and "ws_participant c = Some p" and "map_of (sv_rooms s) (p_roomId p) = Some room"
      and "chat_text payload = Some x" and "t = s"
      and "es = broadcast_room s room ''chat.message'' (chat_payload d p x) None"
proof -
  have failed: thesis if "t = s" "es = fail s w code m r" for code m
    using that reply [of "''error''"] unfolding fail_def by blast
  consider (ping) "typ = js ''ping''" | (create) "typ = js ''room.create''" | (join) "typ = js ''room.join''"
    | (other) "typ \<notin> js ` {''ping'', ''room.create'', ''room.join''}"
    by auto
  then show thesis
  proof cases
    case ping
    with assms show thesis by (intro that(1) [of "''pong''"]) (auto simp: handle_request_def)
  next
    case create
    with assms show thesis by (intro that(1) [of "''room.created''"]) (auto simp: handle_request_def)
  next
    case join
    with assms have j: "handle_join cfg d s w c payload r = (t, es)" by (simp add: handle_request_def)
    show thesis
    proof (cases rule: handle_join_cases [of cfg d s w c payload r])
      case (refused code m)
      with j show thesis by (intro failed [of code m]) auto
    next
      case (seated p)
      with j join show thesis by (intro that(2) [of p]) auto
    qed
  next
    case other
    show thesis
    proof (cases "ws_participant c")
      case None
      with other assms show thesis by (intro failed) (auto simp: handle_request_def)
    next
      case (Some p)
      show thesis
      proof (cases "find (\<lambda>t. typ = js t) relay_types")
        case (Some ty)
        with other assms \<open>ws_participant c = Some p\<close> obtain room where room: "map_of (sv_rooms s) (p_roomId p) = Some room"
          and ts: "t = s" "es = handle_relay s w p room ty payload r"
          by (auto simp: handle_request_def Let_def)
        from Some have ty: "typ = js ty" "ty \<in> set relay_types" by (simp_all add: find_relay)
        show thesis
        proof (cases "map_get room (get_prop payload (js ''targetId''))")
          case None
          with ts show thesis by (intro failed) (auto simp: handle_relay_def)
        next
          case (Some q)
          then obtain i where "(i, q) \<in> set room"
            by (cases "get_prop payload (js ''targetId'')") (auto dest: map_of_SomeD)
          with Some ts ty room \<open>ws_participant c = Some p\<close> show thesis
            by (cases "p_id q = p_id p"; cases "forwarded typ payload")
              (auto simp: handle_relay_def intro: failed that(3))
        qed
      next
        case None
        with other assms \<open>ws_participant c = Some p\<close> show thesis
          by (cases "typ = js ''chat.send''"; cases "chat_text payload")
            (auto simp: handle_request_def Let_def intro: failed that(4))
      qed
    qed
  qed
qed

lemma on_message_cases [consumes 1]:
  assumes "on_message cfg d s w c f = (t, es)"
  obtains (refused) code m r where "t = set_conn w (fst (take_token cfg (now1 d) (now2 d) c)) s"
      and "es = fail t w code m r" and "r = Undefined \<or> (\<exists>msg. f = Text (Some msg) \<and> r = request_id msg)"
  | (request) msg where "f = Text (Some msg)" and "envelope_ok msg" and "snd (take_token cfg (now1 d) (now2 d) c)"
      and "handle_request cfg d (set_conn w (fst (take_token cfg (now1 d) (now2 d) c)) s) w
        (fst (take_token cfg (now1 d) (now2 d) c)) (str_val (get_prop msg (js ''type'')))
        (get_prop msg (js ''payload'')) (request_id msg) = Some (t, es)"
proof -
  obtain c' g where tok: "take_token cfg (now1 d) (now2 d) c = (c', g)" by force
  let ?s = "set_conn w c' s"
  show thesis
  proof (cases "\<exists>msg. g \<and> f = Text (Some msg) \<and> envelope_ok msg")
    case True
    then obtain msg where g: g "f = Text (Some msg)" "envelope_ok msg" by blast
    then show thesis
      using assms
      by (cases "handle_request cfg d ?s w c' (str_val (get_prop msg (js ''type''))) (get_prop msg (js ''payload'')) (request_id msg)")
        (auto simp: on_message_def handle_parsed_def tok Let_def
          intro: refused [of 400 "''Invalid message''" "request_id msg"] request [of msg])
  next
    case False
    have null: "\<not> envelope_ok Null" by (simp add: envelope_ok_def)
    have "(t, es) = (?s, fail ?s w 429 ''Rate limit exceeded'' Undefined) \<or>
        (t, es) = (?s, fail ?s w 400 ''Invalid message format'' Undefined) \<or>
        (t, es) = (?s, fail ?s w 400 ''Invalid message'' Undefined)"
      using False assms null
      by (auto simp: on_message_def handle_parsed_def tok Let_def split: if_splits frame.splits option.splits)
    then show thesis by (auto intro: refused simp: tok)
  qed
qed

end
