(* ===== verification/Scenario.thy ===== *)
theory Scenario
  imports Server
begin

text \<open>
  One concrete run of the server, shared by the witnesses: two clients, on the sockets 10 and
  20, join the room \<open>room123\<close>, which holds two participants at most.
\<close>

definition demo_config :: config where
  "demo_config = \<lparr>cfg_host = js ''127.0.0.1'', cfg_port = 3081, cfg_basePath = js ''/'',
     cfg_maxMessageBytes = 65536, cfg_maxParticipants = 2, cfg_rateLimitTokens = 120,
     cfg_rateLimitInterval = 1000, cfg_rtcConfig = Obj [], cfg_allowedOrigins = []\<rparr>"

definition demo_join_msg :: "string \<Rightarrow> jsval" where
  "demo_join_msg n = envelope (js ''room.join'')
     (Obj [(js ''roomId'', Str (js ''room123'')), (js ''displayName'', Str (js n))]) (Str (js ''q1''))"

definition demo_draws :: "string \<Rightarrow> draws" where
  "demo_draws u = \<lparr>now1 = 5, now2 = 5, uuid = js u, iso = js ''2026-01-01T00:00:00.000Z''\<rparr>"

definition demo_person :: "nat \<Rightarrow> string \<Rightarrow> string \<Rightarrow> participant" where
  "demo_person w n u = \<lparr>p_id = js u, p_displayName = js n, p_roomId = js ''room123'', p_ws = w\<rparr>"

definition demo_conn :: "participant option \<Rightarrow> int \<Rightarrow> int \<Rightarrow> conn" where
  "demo_conn p k t = \<lparr>ws_participant = p, ws_tokens = k, ws_lastRefill = t, ws_isAlive = True, ws_readyState = OPEN\<rparr>"

definition demo_alone :: server where
  "demo_alone = \<lparr>sv_rooms = [(js ''room123'', [(js ''ua'', demo_person 10 ''A'' ''ua'')])],
     sv_clients = [(10, demo_conn (Some (demo_person 10 ''A'' ''ua'')) 119 0), (20, demo_conn None 120 1)],
     sv_heartbeat = True, sv_exitCode = None\<rparr>"

definition demo_pair :: server where
  "demo_pair = \<lparr>sv_rooms = [(js ''room123'', [(js ''ua'', demo_person 10 ''A'' ''ua''), (js ''ub'', demo_person 20 ''B'' ''ub'')])],
     sv_clients = [(10, demo_conn (Some (demo_person 10 ''A'' ''ua'')) 119 0),
                   (20, demo_conn (Some (demo_person 20 ''B'' ''ub'')) 119 1)],
     sv_heartbeat = True, sv_exitCode = None\<rparr>"

lemma demo_room_id: "room_id_ok (js ''room123'')"
  by (simp add: room_id_ok_def js_def char_class_defs)

lemma demo_trim: "trim (js ''A'') = js ''A''" "trim (js ''B'') = js ''B''" "trim (js ''hi'') = js ''hi''"
  by (simp_all add: trim_def js_def char_class_defs)

lemma demo_names: "name_ok (js ''A'')" "name_ok (js ''B'')"
  by (simp_all add: name_ok_def demo_trim)

lemmas demo_defs = demo_config_def demo_join_msg_def demo_draws_def demo_person_def demo_conn_def
  demo_alone_def demo_pair_def

lemmas demo_facts = demo_room_id demo_trim demo_names

text \<open>An envelope with an object as its payload is well formed.\<close>

lemma envelope_ok_envelope:
  "envelope_ok (envelope t p r) \<longleftrightarrow> truthy p \<and> typeof_object p \<and> \<not> is_arr p"
  by (simp add: envelope_ok_def, auto simp: envelope_def)

lemmas [handler_defs] = with_conn_def fresh_uuid_def on_connection_def set_conn_def on_message_def
  take_token_def handle_parsed_def envelope_ok_envelope handle_request_def request_id_def handle_join_def
  join_request_def new_participant_def take_seat_def rooms_enter_def room_of_def Let_def

lemma demo_run_alone: "map_option fst (server_run demo_config initial_server
    [Connect 10 0 OPEN, Message 10 (Text (Some (demo_join_msg ''A''))) (demo_draws ''ua''), Connect 20 1 OPEN]) = Some demo_alone"
  by (simp add: demo_defs demo_facts initial_server_def handler_defs)

lemma demo_run_pair: "map_option fst (server_run demo_config demo_alone
    [Message 20 (Text (Some (demo_join_msg ''B''))) (demo_draws ''ub'')]) = Some demo_pair"
  by (simp add: demo_defs demo_facts handler_defs)

lemma demo_alone_reachable: "server_reachable demo_config demo_alone"
  using demo_run_alone server_run_reachable [OF _ server_reachable_start] by fastforce

lemma demo_pair_reachable: "server_reachable demo_config demo_pair"
  using demo_run_pair server_run_reachable [OF _ demo_alone_reachable] by fastforce

lemma demo_pair_clients:
  "map_of (sv_clients demo_pair) 10 = Some (demo_conn (Some (demo_person 10 ''A'' ''ua'')) 119 0)"
  "map_of (sv_clients demo_pair) 20 = Some (demo_conn (Some (demo_person 20 ''B'' ''ub'')) 119 1)"
  "map_of (sv_clients demo_alone) 20 = Some (demo_conn None 120 1)"
  by (simp_all add: demo_pair_def demo_alone_def)

end
