(* ===== verification/ServerProperties.thy ===== *)
theory ServerProperties
  imports ServerSafety Scenario
begin

text \<open>
  The properties of the signaling server: membership and its bounds, no listener throws,
  messages stay in the room and carry the sender's own id, what each request answers, what
  joining and leaving announce, the rate limit and the heartbeat.
\<close>

section \<open>Membership\<close>

text \<open>C8. The rooms table and the connections are two views of one relation: in every reachable
  state the participant under an id of a room is exactly the participant of the connection whose
  socket it holds, with that id and that room. No participant outlives its connection and no
  joined connection is missing from its room.\<close>

theorem membership_agrees:
  assumes "server_reachable cfg s"
  shows "table_look (sv_rooms s) r i = Some p \<longleftrightarrow>
    (\<exists>c. map_of (sv_clients s) (p_ws p) = Some c \<and> ws_participant c = Some p) \<and> p_roomId p = r \<and> p_id p = i"
  using inv_look [OF server_reachable_inv [OF assms], of r i p]
  by (auto simp: part_of_def split: option.splits)

theorem membership_agrees_witness:
  "table_look (sv_rooms demo_pair) (js ''room123'') (js ''ub'') = Some (demo_person 20 ''B'' ''ub'')"
  by (subst membership_agrees [OF demo_pair_reachable]) (simp add: demo_defs)

text \<open>A room that exists has at least one participant and never more than the configured
  maximum, and its id matches the pattern of the join request.\<close>

theorem rooms_within_limit:
  assumes "server_reachable cfg s" and "map_of (sv_rooms s) r = Some room"
  shows "1 \<le> length room \<and> length room \<le> cfg_maxParticipants cfg \<and> room_id_ok r"
proof -
  note inv = server_reachable_inv [OF assms(1)]
  from inv_room [OF inv assms(2)] obtain i p room' where room: "room = (i, p) # room'"
      and "length room \<le> cfg_maxParticipants cfg"
    by (cases room) auto
  moreover have "part_of s (p_ws p) = Some p" and "p_roomId p = r"
    using inv_member [OF inv assms(2), of i p] by (simp_all add: room)
  then have "room_id_ok r" using inv_part [OF inv] by blast
  ultimately show ?thesis by simp
qed

theorem rooms_within_limit_witness:
  "length (snd (hd (sv_rooms demo_pair))) \<le> 2 \<and> room_id_ok (js ''room123'')"
  using rooms_within_limit [OF demo_pair_reachable, of "js ''room123''"
      "[(js ''ua'', demo_person 10 ''A'' ''ua''), (js ''ub'', demo_person 20 ''B'' ''ub'')]"]
  by (simp add: demo_pair_def demo_config_def)

text \<open>C23. The close listener never dereferences an undefined room, which would end the process,
  and the message listener never reaches its catch block for that reason: in a reachable state
  both find the room of a joined connection.\<close>

theorem no_listener_throws:
  assumes "server_reachable cfg s" and "map_of (sv_clients s) w = Some c"
    and "c' = fst (take_token cfg t1 t2 c)"
  shows "on_close s w c \<noteq> None \<and> handle_request cfg d (set_conn w c' s) w c' typ payload r \<noteq> None"
proof (cases "ws_participant c")
  case None
  then show ?thesis by (auto simp: on_close_def handle_request_def assms(3))
next
  case (Some p)
  then have "part_of s w = Some p" using assms(2) by (simp add: part_of_conn)
  then obtain room where "map_of (sv_rooms s) (p_roomId p) = Some room"
    by (rule inv_seat [OF server_reachable_inv [OF assms(1)]])
  with Some show ?thesis
    by (auto simp: on_close_def handle_request_def Let_def assms(3) split: option.splits)
qed

theorem no_listener_throws_witness:
  "on_close demo_pair 20 (demo_conn (Some (demo_person 20 ''B'' ''ub'')) 119 1) \<noteq> None"
  using no_listener_throws [OF demo_pair_reachable demo_pair_clients(2) refl] by blast

section \<open>Confinement\<close>

lemma message_step_states:
  assumes "server_reachable cfg s" and "server_step cfg s (Message w f d, es) t"
  obtains c c' where "map_of (sv_clients s) w = Some c" and "c' = fst (take_token cfg (now1 d) (now2 d) c)"
    and "on_message cfg d s w c f = (t, es)" and "server_inv cfg (set_conn w c' s)" and "server_inv cfg t"
    and "part_of (set_conn w c' s) = part_of s" and "ready_of (set_conn w c' s) = ready_of s"
proof -
  note inv = server_reachable_inv [OF assms(1)]
  from assms(2) obtain c where c: "map_of (sv_clients s) w = Some c" and m: "on_message cfg d s w c f = (t, es)"
    by (auto elim: message_stepE)
  let ?c = "fst (take_token cfg (now1 d) (now2 d) c)"
  show thesis
  proof (rule that [OF c refl m])
    show "server_inv cfg (set_conn w ?c s)" using inv c by (intro set_conn_inv) (simp_all add: part_of_conn)
    show "server_inv cfg t" by (rule server_step_inv [OF inv assms(2)])
  qed (auto simp: fun_eq_iff part_of_conn [OF c] ready_of_conn [OF c])
qed

text \<open>C9. Every effect of a message is a frame sent on an open socket, either the sender's own or
  one seated in the same room as the sender after the step: nothing a client sends ever reaches a
  connection in another room or one that has not joined.\<close>

theorem message_confined:
  assumes "server_reachable cfg s" and "server_step cfg s (Message w f d, es) t" and "e \<in> set es"
  shows "confined t w e"
proof -
  obtain c c' where c: "map_of (sv_clients s) w = Some c" and c': "c' = fst (take_token cfg (now1 d) (now2 d) c)"
    and m: "on_message cfg d s w c f = (t, es)" and inv: "server_inv cfg (set_conn w c' s)"
    and inv_t: "server_inv cfg t" and part: "part_of (set_conn w c' s) = part_of s"
    by (rule message_step_states [OF assms(1,2)])
  from m show ?thesis
  proof (cases rule: on_message_cases)
    case (refused code m r)
    with assms(3) show ?thesis by (auto intro: confined_fail)
  next
    case (request msg)
    from request(4) show ?thesis
    proof (cases rule: handle_request_cases)
      case (reply ty pl)
      with assms(3) show ?thesis by (auto intro: confined_self)
    next
      case (seated p)
      then have "part_of t w = Some p" by (simp add: take_seat_part)
      then show ?thesis using confined_join_effects [OF inv_t _ assms(3) [unfolded seated(5)]] by blast
    next
      case (relay p room i q ty copied)
      then have "part_of t w = Some p" using inv part_of_conn c by (simp add: c')
      moreover have "part_of t (p_ws q) = Some q \<and> p_roomId q = p_roomId p"
        using relay inv_member [OF inv_t, of "p_roomId p" room i q] by simp
      ultimately show ?thesis using relay assms(3) by (auto simp: send_def same_room_def split: if_splits)
    next
      case (chat p room x)
      then have "part_of t w = Some p" by simp
      moreover have "room_of t (p_roomId p) = room" using chat(3,5) by (simp add: room_of_Some)
      ultimately show ?thesis
        using confined_broadcast [OF inv_t, of w p e] assms(3) chat(5,6) by metis
    qed
  qed
qed

definition demo_offer :: jsval where
  "demo_offer = envelope (js ''webrtc.offer'') (Obj [(js ''targetId'', Str (js ''ua'')), (js ''sdp'', Str (js ''v=0'')),
     (js ''participantId'', Str (js ''spoofed''))]) Undefined"

definition demo_relayed :: effect where
  "demo_relayed = Send 10 (Obj [(js ''version'', jnum 1), (js ''type'', Str (js ''webrtc.offer'')),
     (js ''payload'', Obj [(js ''sdp'', Str (js ''v=0'')), (js ''participantId'', Str (js ''ub''))])])"

lemma demo_offer_exec: "server_exec demo_config demo_pair (Message 20 (Text (Some demo_offer)) (demo_draws ''uc'')) =
    Some (set_conn 20 (demo_conn (Some (demo_person 20 ''B'' ''ub'')) 118 1) demo_pair, [demo_relayed])"
  by (simp add: demo_defs demo_offer_def demo_relayed_def handler_defs relay_types_def handle_relay_def
      forwarded_def send_def ready_of_def, simp add: envelope_def)

theorem message_confined_witness:
  "confined (set_conn 20 (demo_conn (Some (demo_person 20 ''B'' ''ub'')) 118 1) demo_pair) 20 demo_relayed"
  by (rule message_confined [OF demo_pair_reachable server_exec_step [OF demo_offer_exec]]) simp

section \<open>Identity\<close>

lemma forwarded_keys:
  assumes "forwarded typ payload = Inr copied"
  shows "distinct (map fst (copied @ [(js ''participantId'', v)]))"
  using assms by (auto simp: forwarded_def split: if_splits jsval.splits)

lemma forwarded_participant:
  assumes "forwarded typ payload = Inr copied"
  shows "get_prop (Obj (copied @ [(js ''participantId'', v)])) (js ''participantId'') = v"
  using assms by (auto simp: forwarded_def split: if_splits jsval.splits)

lemma relay_not_reply:
  "ty \<in> {''pong'', ''room.created'', ''error'', ''room.joined'', ''participant.joined''} \<Longrightarrow>
   ty \<notin> set relay_types \<union> {''chat.message''}"
  by (auto simp: relay_types_def)

text \<open>C10. Nobody can speak for somebody else: an offer, an answer, an ICE candidate or a chat line
  that the server sends on behalf of a connection carries the participant id the server gave that
  connection, whatever id the client put in its payload.\<close>

theorem sender_identity:
  assumes "server_reachable cfg s" and "server_step cfg s (Message w f d, es) t" and "Send v m \<in> set es"
    and "msg_type m = Str (js ty)" and "ty \<in> set relay_types \<union> {''chat.message''}"
  shows "\<exists>p. part_of s w = Some p \<and> msg_field m ''participantId'' = Str (p_id p)"
proof -
  obtain c c' where c: "map_of (sv_clients s) w = Some c" and c': "c' = fst (take_token cfg (now1 d) (now2 d) c)"
    and m: "on_message cfg d s w c f = (t, es)"
    by (rule message_step_states [OF assms(1,2)])
  have no: False if "m = wire (envelope (js ty') pl r)" "ty' \<in> {''pong'', ''room.created'', ''error'', ''room.joined'', ''participant.joined''}" for ty' pl r
    using that assms(4,5) relay_not_reply by auto
  from m show ?thesis
  proof (cases rule: on_message_cases)
    case (refused code m r)
    with assms(3) show ?thesis by (auto simp: fail_effects dest: no)
  next
    case (request msg)
    from request(4) show ?thesis
    proof (cases rule: handle_request_cases)
      case (reply ty2 pl)
      with assms(3) show ?thesis by (auto simp: send_effects dest: no)
    next
      case (seated p)
      with assms(3) show ?thesis by (auto simp: join_effects_def send_effects broadcast_room_map dest: no)
    next
      case (relay p room i q ty2 copied)
      with assms(3) have "m = wire (envelope (js ty2) (Obj (copied @ [(js ''participantId'', Str (p_id p))])) Undefined)"
        by (simp add: send_effects)
      then have "msg_field m ''participantId'' = Str (p_id p)"
        using relay(8) by (simp add: msg_field_wire [OF forwarded_keys [OF relay(8)]] forwarded_participant Let_def)
      with relay c show ?thesis by (simp add: part_of_conn)
    next
      case (chat p room x)
      with assms(3) have "m = wire (envelope (js ''chat.message'') (chat_payload d p x) Undefined)"
        by (auto simp: broadcast_room_map)
      then have "msg_field m ''participantId'' = Str (p_id p)"
        unfolding chat_payload_def by (simp add: msg_field_wire Let_def del: wire.simps, simp)
      with chat c show ?thesis by (simp add: part_of_conn)
    qed
  qed
qed

theorem sender_identity_witness:
  "\<exists>p. part_of demo_pair 20 = Some p \<and>
     msg_field (case demo_relayed of Send v m \<Rightarrow> m) ''participantId'' = Str (p_id p)"
  using sender_identity [OF demo_pair_reachable server_exec_step [OF demo_offer_exec], of 10
      "case demo_relayed of Send v m \<Rightarrow> m" "''webrtc.offer''"]
  by (simp add: demo_relayed_def msg_type_def relay_types_def)

text \<open>C17. SDP and ICE candidates go to exactly the participant the sender names. If a message makes the
  server send a signaling frame, that frame is all it sends; it goes to the connection of the one
  participant whose id is the \<open>targetId\<close> of the message's payload, and that participant is in the
  sender's room and is not the sender. So a target in another room, or one that is gone, gets nothing.\<close>

theorem relay_reaches_roommate:
  assumes "server_reachable cfg s" and "server_step cfg s (Message w f d, es) t" and "Send v m \<in> set es"
    and "msg_type m = Str (js ty)" and "ty \<in> set relay_types"
  shows "v \<noteq> w \<and> same_room s w v \<and> es = [Send v m] \<and>
    (\<exists>msg q. f = Text (Some msg) \<and> part_of s v = Some q \<and>
       get_prop (get_prop msg (js ''payload'')) (js ''targetId'') = Str (p_id q))"
proof -
  obtain c c' where c: "map_of (sv_clients s) w = Some c" and c': "c' = fst (take_token cfg (now1 d) (now2 d) c)"
    and m: "on_message cfg d s w c f = (t, es)" and inv: "server_inv cfg (set_conn w c' s)"
    and part: "part_of (set_conn w c' s) = part_of s"
    by (rule message_step_states [OF assms(1,2)])
  have no: False if "m = wire (envelope (js ty') pl r)" "ty' \<notin> set relay_types" for ty' pl r
    using that assms(4,5) by auto
  from m show ?thesis
  proof (cases rule: on_message_cases)
    case (refused code m r)
    with assms(3) show ?thesis by (auto simp: fail_effects relay_types_def dest: no)
  next
    case (request msg)
    from request(4) show ?thesis
    proof (cases rule: handle_request_cases)
      case (reply ty2 pl)
      with assms(3) show ?thesis by (auto simp: send_effects relay_types_def dest: no)
    next
      case (seated p)
      with assms(3) show ?thesis by (auto simp: join_effects_def send_effects broadcast_room_map relay_types_def dest: no)
    next
      case (relay p room i q ty2 copied)
      have p: "part_of s w = Some p" using relay(1) c by (simp add: part_of_conn)
      have "map_of (sv_rooms (set_conn w c' s)) (p_roomId p) = Some room" using relay(2) by simp
      note named = inv_member [OF inv this]
      from named [OF relay(4)] have q: "part_of s (p_ws q) = Some q" "p_roomId q = p_roomId p"
        by (simp_all add: part)
      have other: "p_ws q \<noteq> w" using p q(1) relay(5) by auto
      have sent: "v = p_ws q" "es = [Send v m]" using relay(10) assms(3) by (auto simp: send_def split: if_splits)
      have "get_prop (get_prop msg (js ''payload'')) (js ''targetId'') = Str (p_id q)"
      proof (cases "get_prop (get_prop msg (js ''payload'')) (js ''targetId'')")
        case (Str k)
        with relay(3) have "(k, q) \<in> set room" by (auto dest: map_of_SomeD)
        from named(3) [OF this] Str show ?thesis by simp
      qed (use relay(3) in simp_all)
      with request(1) sent p q other show ?thesis by (auto simp: same_room_def)
    next
      case (chat p room x)
      with assms(3) show ?thesis by (auto simp: broadcast_room_map relay_types_def dest: no)
    qed
  qed
qed

theorem relay_reaches_roommate_witness:
  "(10::nat) \<noteq> 20 \<and> same_room demo_pair 20 10 \<and> (\<exists>q. part_of demo_pair 10 = Some q)"
  using relay_reaches_roommate [OF demo_pair_reachable server_exec_step [OF demo_offer_exec], of 10
      "case demo_relayed of Send v m \<Rightarrow> m" "''webrtc.offer''"]
  by (auto simp: demo_relayed_def msg_type_def relay_types_def)

section \<open>Chat\<close>

lemma open_members_all:
  "open_members s (room_of s r) None = filter (\<lambda>v. ready_of s v = OPEN) (room_sockets s r)"
  by (simp add: open_members_def room_sockets_def filter_map comp_def)

lemma on_message_request:
  assumes "snd (take_token cfg (now1 d) (now2 d) c)" and "envelope_ok msg"
  shows "on_message cfg d s w c (Text (Some msg)) =
    (let c' = fst (take_token cfg (now1 d) (now2 d) c); s' = set_conn w c' s in
     case handle_request cfg d s' w c' (str_val (get_prop msg (js ''type''))) (get_prop msg (js ''payload'')) (request_id msg) of
       Some r \<Rightarrow> r | None \<Rightarrow> (s', fail s' w 400 ''Invalid message'' (request_id msg)))"
  using assms by (simp add: on_message_def handle_parsed_def Let_def split_beta)

lemma room_of_set_conn [simp]: "room_of (set_conn w c s) = room_of s"
  by (simp add: room_of_def fun_eq_iff)

text \<open>C32. A chat line that passes the checks is delivered, trimmed and under the sender's id and
  display name, to every open connection of the sender's room, the sender's own included, to each
  exactly once and in the order in which they joined.\<close>

theorem chat_reaches_room:
  assumes "server_reachable cfg s" and c: "map_of (sv_clients s) w = Some c" and p: "ws_participant c = Some p"
    and ok: "snd (take_token cfg (now1 d) (now2 d) c)" "envelope_ok msg"
    and ty: "get_prop msg (js ''type'') = Str (js ''chat.send'')"
    and x: "chat_text (get_prop msg (js ''payload'')) = Some x"
  shows "snd (on_message cfg d s w c (Text (Some msg))) =
      map (\<lambda>v. Send v (wire (envelope (js ''chat.message'') (chat_payload d p x) Undefined)))
        (filter (\<lambda>v. ready_of s v = OPEN) (room_sockets s (p_roomId p))) \<and>
    distinct (room_sockets s (p_roomId p)) \<and> w \<in> set (room_sockets s (p_roomId p))"
proof -
  let ?c = "fst (take_token cfg (now1 d) (now2 d) c)"
  note inv = server_reachable_inv [OF assms(1)]
  have part: "part_of s w = Some p" using c p by (simp add: part_of_conn)
  then obtain room where room: "map_of (sv_rooms s) (p_roomId p) = Some room"
    by (rule inv_seat [OF inv])
  have "ready_of (set_conn w ?c s) = ready_of s" by (auto simp: fun_eq_iff ready_of_conn [OF c])
  then have "open_members (set_conn w ?c s) (room_of s (p_roomId p)) None =
      filter (\<lambda>v. ready_of s v = OPEN) (room_sockets s (p_roomId p))"
    unfolding open_members_all [symmetric] by (simp add: open_members_def)
  then have "snd (on_message cfg d s w c (Text (Some msg))) =
      map (\<lambda>v. Send v (wire (envelope (js ''chat.message'') (chat_payload d p x) Undefined)))
        (filter (\<lambda>v. ready_of s v = OPEN) (room_sockets s (p_roomId p)))"
    using p room ty x by (simp add: on_message_request [OF ok] handle_request_def relay_types_def
        broadcast_room_map room_of_Some Let_def)
  moreover have "w \<in> set (room_sockets s (p_roomId p))" using part by (simp add: set_room_sockets [OF inv])
  ultimately show ?thesis using distinct_room_sockets [OF inv] by simp
qed

definition demo_chat :: jsval where
  "demo_chat = envelope (js ''chat.send'') (Obj [(js ''text'', Str (js ''hi''))]) Undefined"

theorem chat_reaches_room_witness:
  "map (\<lambda>e. case e of Send v m \<Rightarrow> v)
     (snd (on_message demo_config (demo_draws ''uc'') demo_pair 20 (demo_conn (Some (demo_person 20 ''B'' ''ub'')) 119 1)
        (Text (Some demo_chat)))) = [10, 20]"
proof -
  have "snd (on_message demo_config (demo_draws ''uc'') demo_pair 20 (demo_conn (Some (demo_person 20 ''B'' ''ub'')) 119 1)
      (Text (Some demo_chat))) =
    map (\<lambda>v. Send v (wire (envelope (js ''chat.message'') (chat_payload (demo_draws ''uc'') (demo_person 20 ''B'' ''ub'') (js ''hi'')) Undefined)))
        (filter (\<lambda>v. ready_of demo_pair v = OPEN) (room_sockets demo_pair (p_roomId (demo_person 20 ''B'' ''ub''))))"
    using chat_reaches_room [OF demo_pair_reachable demo_pair_clients(2), of "demo_person 20 ''B'' ''ub''"
        "demo_draws ''uc''" demo_chat "js ''hi''"]
    by (simp add: demo_chat_def envelope_ok_envelope chat_text_def demo_trim take_token_def Let_def demo_conn_def demo_draws_def demo_config_def)
  also have "filter (\<lambda>v. ready_of demo_pair v = OPEN) (room_sockets demo_pair (p_roomId (demo_person 20 ''B'' ''ub''))) = [10, 20]"
    by (simp add: room_sockets_def room_of_def ready_of_def demo_defs)
  finally show ?thesis by simp
qed

section \<open>Joining and leaving\<close>

text \<open>C14. A valid join of an open connection that has not joined, to a room below its limit, seats
  it: the newcomer is last in the room, it gets \<open>room.joined\<close> with its own new id and everybody in
  the room, itself included, and every other open member gets \<open>participant.joined\<close>, nothing else
  is sent.\<close>

theorem join_seats_newcomer:
  assumes "server_reachable cfg s" and c: "map_of (sv_clients s) w = Some c"
    and unseated: "ws_participant c = None" "ws_readyState c = OPEN" and "fresh_uuid s (uuid d)"
    and ok: "snd (take_token cfg (now1 d) (now2 d) c)" "envelope_ok msg"
    and ty: "get_prop msg (js ''type'') = Str (js ''room.join'')"
    and req: "join_request (get_prop msg (js ''payload'')) = Some (r, n)"
    and space: "length (room_of s r) < cfg_maxParticipants cfg"
    and p_def: "p = new_participant d w r n" and step: "on_message cfg d s w c (Text (Some msg)) = (t, es)"
  shows "room_of t r = room_of s r @ [(uuid d, p)] \<and> part_of t w = Some p \<and>
    es = Send w (wire (envelope (js ''room.joined'') (joined_payload cfg p (room_of s r @ [(uuid d, p)])) (request_id msg))) #
      map (\<lambda>v. Send v (wire (envelope (js ''participant.joined'') (Obj [(js ''participant'', publicParticipant p)]) Undefined)))
        (filter (\<lambda>v. ready_of s v = OPEN) (room_sockets s r))"
proof -
  let ?c = "fst (take_token cfg (now1 d) (now2 d) c)"
  let ?s = "set_conn w ?c s"
  note inv = server_reachable_inv [OF assms(1)]
  have p: "p_id p = uuid d" "p_roomId p = r" "p_ws p = w" by (simp_all add: p_def new_participant_def)
  have t: "t = take_seat ?s w ?c p" and es: "es = join_effects cfg t w p (request_id msg)"
    using step unseated ty req space
    by (auto simp: on_message_request [OF ok] handle_request_def handle_join_def Let_def p_def)
  have old: "part_of s (p_ws (snd x)) = Some (snd x)" if "x \<in> set (room_of s r)" for x
    using room_entryD(1) [OF inv that] .
  have new: "uuid d \<notin> set (keys_of (room_of s r))"
  proof
    assume "uuid d \<in> set (keys_of (room_of s r))"
    then obtain x where x: "x \<in> set (room_of s r)" "fst x = uuid d" by auto
    with room_entryD(3) [OF inv x(1)] old [OF x(1)] show False
      using fresh_uuidD [OF assms(5)] by metis
  qed
  then have room: "room_of t r = room_of s r @ [(uuid d, p)]"
    by (simp add: t room_of_take_seat p update_fresh)
  have other: "p_id (snd x) \<noteq> uuid d" "p_ws (snd x) \<noteq> w" if "x \<in> set (room_of s r)" for x
    using old [OF that] fresh_uuidD [OF assms(5)] c unseated by (auto simp: part_of_conn)
  have rdy: "ready_of t v = (if v = w then OPEN else ready_of s v)" for v
    using unseated by (simp add: t take_seat_ready)
  have "open_members t (room_of t r) (Some (uuid d)) =
      map p_ws (filter (\<lambda>q. Some (p_id q) \<noteq> Some (uuid d) \<and> ready_of t (p_ws q) = OPEN) (map snd (room_of s r)))"
    unfolding open_members_def room by (simp add: p)
  also have "\<dots> = filter (\<lambda>v. ready_of s v = OPEN) (room_sockets s r)"
    unfolding room_sockets_def filter_map map_map comp_def rdy
    using other by (intro map_cong filter_cong) auto
  finally have "open_members t (room_of t r) (Some (uuid d)) = filter (\<lambda>v. ready_of s v = OPEN) (room_sockets s r)" .
  moreover have "ready_of t w = OPEN" by (simp add: rdy)
  ultimately have "es = Send w (wire (envelope (js ''room.joined'') (joined_payload cfg p (room_of s r @ [(uuid d, p)])) (request_id msg))) #
      map (\<lambda>v. Send v (wire (envelope (js ''participant.joined'') (Obj [(js ''participant'', publicParticipant p)]) Undefined)))
        (filter (\<lambda>v. ready_of s v = OPEN) (room_sockets s r))"
    by (simp add: es join_effects_def p send_def broadcast_room_map flip: room)
  with room show ?thesis by (simp add: t take_seat_part)
qed

definition demo_newcomer :: participant where
  "demo_newcomer = new_participant (demo_draws ''ub'') 20 (js ''room123'') (js ''B'')"

theorem join_seats_newcomer_witness:
  "room_of demo_pair (js ''room123'') = room_of demo_alone (js ''room123'') @ [(js ''ub'', demo_newcomer)]"
proof -
  obtain es where "on_message demo_config (demo_draws ''ub'') demo_alone 20 (demo_conn None 120 1)
      (Text (Some (demo_join_msg ''B''))) = (demo_pair, es)"
    using demo_run_pair by (auto simp: with_conn_def demo_pair_clients split: if_splits option.splits prod.splits)
  then have "room_of demo_pair (js ''room123'') = room_of demo_alone (js ''room123'') @ [(uuid (demo_draws ''ub''), demo_newcomer)]"
    using join_seats_newcomer [OF demo_alone_reachable demo_pair_clients(3), of "demo_draws ''ub''" "demo_join_msg ''B''"
        "js ''room123''" "js ''B''" demo_newcomer demo_pair es]
    by (simp add: demo_newcomer_def demo_defs demo_facts handler_defs)
  then show ?thesis by (simp add: demo_draws_def)
qed

text \<open>C33. A join request that is refused seats nobody and answers one error: 409 to a connection that
  has joined already, 400 to a room id or a display name that fails its check, 409 when the room
  is at its limit, in that order of precedence, with the id of the request.\<close>

theorem join_refused:
  assumes ok: "snd (take_token cfg (now1 d) (now2 d) c)" "envelope_ok msg"
    and ty: "get_prop msg (js ''type'') = Str (js ''room.join'')"
    and refused: "ws_participant c \<noteq> None \<or> (case join_request (get_prop msg (js ''payload'')) of
        None \<Rightarrow> True | Some (r, n) \<Rightarrow> cfg_maxParticipants cfg \<le> length (room_of s r))"
    and t_def: "t = set_conn w (fst (take_token cfg (now1 d) (now2 d) c)) s"
  shows "on_message cfg d s w c (Text (Some msg)) =
    (t, if ws_participant c \<noteq> None then fail t w 409 ''Already joined a room'' (request_id msg)
        else if join_request (get_prop msg (js ''payload'')) = None
          then fail t w 400 ''Invalid room ID or display name'' (request_id msg)
        else fail t w 409 ''Room is full'' (request_id msg))"
  using refused by (auto simp: on_message_request [OF ok] ty t_def handle_request_def handle_join_def Let_def split: option.splits)

theorem join_refused_witness:
  "on_message demo_config (demo_draws ''uc'') demo_pair 30 (demo_conn None 120 1) (Text (Some (demo_join_msg ''B''))) =
    (set_conn 30 (demo_conn None 119 1) demo_pair,
     fail (set_conn 30 (demo_conn None 119 1) demo_pair) 30 409 ''Room is full'' (Str (js ''q1'')))"
  using join_refused [of demo_config "demo_draws ''uc''" "demo_conn None 120 1" "demo_join_msg ''B''" demo_pair
      "set_conn 30 (demo_conn None 119 1) demo_pair" 30]
  by (simp add: demo_defs demo_facts handler_defs)

text \<open>The example of the protocol document, a join of the room \<open>abc-def-ghi\<close>, is refused: a
  room id with a hyphen fails the pattern of the code.\<close>

theorem documented_room_id_refused:
  "join_request (Obj [(js ''roomId'', Str (js ''abc-def-ghi'')), (js ''displayName'', Str (js ''Alice'')),
     (js ''capabilities'', Obj [(js ''audio'', Arr [Str (js ''opus'')]), (js ''video'', Arr [Str (js ''VP8'')])])]) = None"
  by (simp add: join_request_def room_id_ok_def, simp add: js_def char_class_defs)

lemma filter_distinct_update: "AList.delete k m = filter (\<lambda>x. fst x \<noteq> k) m"
  by (induction m) auto

text \<open>C15. When a joined connection closes, its participant leaves at once: every other open member
  of the room gets \<open>participant.left\<close> with its id, exactly once, the room keeps the others in order,
  and the room itself is gone exactly when the one that left was alone in it.\<close>

theorem close_announces_departure:
  assumes "server_reachable cfg s" and c: "map_of (sv_clients s) w = Some c" and p: "ws_participant c = Some p"
    and step: "on_close s w c = Some (t, es)"
  shows "es = map (\<lambda>v. Send v (wire (envelope (js ''participant.left'') (Obj [(js ''participantId'', Str (p_id p))]) Undefined)))
        (filter (\<lambda>v. v \<noteq> w \<and> ready_of s v = OPEN) (room_sockets s (p_roomId p))) \<and>
    room_sockets t (p_roomId p) = filter (\<lambda>v. v \<noteq> w) (room_sockets s (p_roomId p)) \<and>
    part_of t w = None \<and> (table_has (sv_rooms t) (p_roomId p) \<longleftrightarrow> room_sockets s (p_roomId p) \<noteq> [w])"
proof -
  note inv = server_reachable_inv [OF assms(1)]
  have part: "part_of s w = Some p" using c p by (simp add: part_of_conn)
  then obtain room where room: "map_of (sv_rooms s) (p_roomId p) = Some room" by (rule inv_seat [OF inv])
  let ?s1 = "s\<lparr>sv_clients := AList.delete w (sv_clients s)\<rparr>"
  let ?rest = "AList.delete (p_id p) room"
  have t: "t = ?s1\<lparr>sv_rooms := rooms_leave (sv_rooms s) (p_roomId p) (p_id p)\<rparr>"
    and es: "es = broadcast_room ?s1 ?rest ''participant.left'' (Obj [(js ''participantId'', Str (p_id p))]) None"
    using step p room by (auto simp: on_close_def Let_def)
  have same: "fst x = p_id p \<longleftrightarrow> p_ws (snd x) = w" if "x \<in> set room" for x
  proof -
    have x: "x \<in> set (room_of s (p_roomId p))" using that room by (simp add: room_of_Some)
    show ?thesis
      using room_entryD(1,3) [OF inv x] inv_unique [OF inv part] inv_part [OF inv part] part
      by (metis option.inject)
  qed
  have rest: "?rest = filter (\<lambda>x. p_ws (snd x) \<noteq> w) room"
    unfolding filter_distinct_update by (rule filter_cong) (auto simp: same)
  have rdy: "ready_of ?s1 v = (if v = w then CLOSED else ready_of s v)" for v
    by (simp add: ready_of_def map_of_delete_eq)
  have room_t: "room_of t (p_roomId p) = ?rest"
    by (simp add: t room_of_def rooms_leave_eq table_leave_def room map_of_table_put)
  have "room_sockets t (p_roomId p) = filter (\<lambda>v. v \<noteq> w) (room_sockets s (p_roomId p))"
    by (simp add: room_sockets_def room_t rest room_of_Some [OF room] filter_map comp_def)
  moreover have "open_members ?s1 ?rest None = filter (\<lambda>v. v \<noteq> w \<and> ready_of s v = OPEN) (room_sockets s (p_roomId p))"
    by (simp add: open_members_def rest room_sockets_def room_of_Some [OF room] filter_map comp_def rdy cong: conj_cong)
  moreover have "table_has (sv_rooms t) (p_roomId p) \<longleftrightarrow> ?rest \<noteq> []"
    by (simp add: t rooms_leave_eq table_leave_def room table_has_put)
  moreover have "?rest = [] \<longleftrightarrow> room_sockets s (p_roomId p) = [w]"
  proof -
    have "w \<in> set (room_sockets s (p_roomId p))" using part by (simp add: set_room_sockets [OF inv])
    moreover have "?rest = [] \<longleftrightarrow> (\<forall>v \<in> set (room_sockets s (p_roomId p)). v = w)"
      by (auto simp: rest room_sockets_def room_of_Some [OF room] filter_empty_conv)
    ultimately show ?thesis
      using distinct_room_sockets [OF inv, of "p_roomId p"]
      by (cases "room_sockets s (p_roomId p)"; cases "tl (room_sockets s (p_roomId p))") auto
  qed
  moreover have "part_of t w = None" by (simp add: t part_of_def map_of_delete_eq)
  ultimately show ?thesis by (simp add: es broadcast_room_map)
qed

theorem close_announces_departure_witness:
  "\<exists>t es. on_close demo_pair 20 (demo_conn (Some (demo_person 20 ''B'' ''ub'')) 119 1) = Some (t, es) \<and>
     room_sockets t (js ''room123'') = [10]"
proof -
  obtain t es where step: "on_close demo_pair 20 (demo_conn (Some (demo_person 20 ''B'' ''ub'')) 119 1) = Some (t, es)"
    by (simp add: on_close_def demo_defs)
  have p: "ws_participant (demo_conn (Some (demo_person 20 ''B'' ''ub'')) 119 1) = Some (demo_person 20 ''B'' ''ub'')"
    by (simp add: demo_conn_def)
  from close_announces_departure [OF demo_pair_reachable demo_pair_clients(2) p step]
  have "room_sockets t (js ''room123'') = filter (\<lambda>v. v \<noteq> 20) (room_sockets demo_pair (js ''room123''))"
    by (simp add: demo_person_def)
  also have "\<dots> = [10]" by (simp add: room_sockets_def room_of_def demo_defs)
  finally show ?thesis using step by blast
qed

section \<open>Replies\<close>

lemma wire_request_id [simp]:
  "request_id msg \<noteq> Undefined \<Longrightarrow> wire (request_id msg) = request_id msg"
  "(if request_id msg = Undefined then Undefined else wire (request_id msg)) = request_id msg"
  by (auto simp: request_id_def split: jsval.splits)

text \<open>Replies find their request: a \<open>pong\<close>, a \<open>room.created\<close>, a \<open>room.joined\<close> or an error that a
  message causes goes to its sender only; the first three carry the request id of the message, an
  error carries it or none.\<close>

theorem replies_echo_request:
  assumes "server_step cfg s (Message w (Text (Some msg)) d, es) t" and "Send v m \<in> set es"
    and "msg_type m = Str (js ty)" and "ty \<in> {''pong'', ''room.created'', ''room.joined'', ''error''}"
  shows "v = w \<and> (msg_request m = request_id msg \<or> ty = ''error'' \<and> msg_request m = Undefined)"
proof -
  obtain c where m: "on_message cfg d s w c (Text (Some msg)) = (t, es)"
    using assms(1) by (auto elim: message_stepE)
  have no: False if "m = wire (envelope (js ty') pl r)" "ty' \<notin> {''pong'', ''room.created'', ''room.joined'', ''error''}" for ty' pl r
    using that assms(3,4) by auto
  from m show ?thesis
  proof (cases rule: on_message_cases)
    case (refused code m' r)
    with assms(2,3) show ?thesis by (auto simp: fail_effects)
  next
    case (request msg')
    from request(4) show ?thesis
    proof (cases rule: handle_request_cases)
      case (reply ty2 pl)
      with assms(2) request(1) show ?thesis by (auto simp: send_effects)
    next
      case (seated p)
      with assms(2) request(1) show ?thesis
        by (auto simp: join_effects_def send_effects broadcast_room_map dest: no)
    next
      case (relay p room i q ty2 copied)
      with assms(2) show ?thesis by (auto simp: send_effects relay_types_def dest: no)
    next
      case (chat p room x)
      with assms(2) show ?thesis by (auto simp: broadcast_room_map dest: no)
    qed
  qed
qed

definition demo_ping :: jsval where
  "demo_ping = envelope (js ''ping'') (Obj []) (Str (js ''q7''))"

theorem replies_echo_request_witness:
  "\<exists>m. server_exec demo_config demo_pair (Message 10 (Text (Some demo_ping)) (demo_draws ''uc'')) =
      Some (set_conn 10 (demo_conn (Some (demo_person 10 ''A'' ''ua'')) 118 0) demo_pair, [Send 10 m]) \<and>
    msg_request m = Str (js ''q7'')"
proof -
  let ?m = "wire (envelope (js ''pong'') (Obj []) (Str (js ''q7'')))"
  have step: "server_exec demo_config demo_pair (Message 10 (Text (Some demo_ping)) (demo_draws ''uc'')) =
      Some (set_conn 10 (demo_conn (Some (demo_person 10 ''A'' ''ua'')) 118 0) demo_pair, [Send 10 ?m])"
    by (simp add: demo_defs demo_ping_def handler_defs send_def ready_of_def)
  have "msg_request ?m = request_id demo_ping"
    using replies_echo_request [OF server_exec_step [OF step], of 10 ?m "''pong''"] by auto
  with step show ?thesis by (intro exI [of _ ?m]) (simp add: demo_ping_def request_id_def)
qed

text \<open>A frame that is binary, is no JSON, is no object, has another protocol version, a type that is
  no string or a payload that is no plain object changes no state but the sender's token count and is
  answered with error 400 and nothing else.\<close>

theorem malformed_rejected:
  assumes "snd (take_token cfg (now1 d) (now2 d) c)"
    and "\<forall>msg. f = Text (Some msg) \<longrightarrow> \<not> typeof_object msg \<or> get_prop msg (js ''version'') \<noteq> jnum 1 \<or>
       \<not> is_str (get_prop msg (js ''type'')) \<or> (\<forall>ps. get_prop msg (js ''payload'') \<noteq> Obj ps)"
    and "t = set_conn w (fst (take_token cfg (now1 d) (now2 d) c)) s"
  shows "on_message cfg d s w c f =
    (t, fail t w 400 (if f = Text None then ''Invalid message'' else ''Invalid message format'') Undefined)"
proof -
  have "\<not> envelope_ok msg" if "f = Text (Some msg)" for msg
    using assms(2) that by (cases "get_prop msg (js ''payload'')") (auto simp: envelope_ok_def)
  moreover have "\<not> envelope_ok Null" by (simp add: envelope_ok_def)
  ultimately show ?thesis
    using assms(1,3) by (auto simp: on_message_def handle_parsed_def Let_def split_beta split: frame.split option.split)
qed

theorem malformed_rejected_witness:
  "snd (on_message demo_config (demo_draws ''uc'') demo_pair 10 (demo_conn (Some (demo_person 10 ''A'' ''ua'')) 119 0) (Text (Some Null))) =
     [Send 10 (wire (envelope (js ''error'') (Obj [(js ''code'', jnum 400), (js ''message'', Str (js ''Invalid message format''))]) Undefined))]"
  using malformed_rejected [of demo_config "demo_draws ''uc''" "demo_conn (Some (demo_person 10 ''A'' ''ua'')) 119 0" "Text (Some Null)"
      "set_conn 10 (demo_conn (Some (demo_person 10 ''A'' ''ua'')) 118 0) demo_pair" 10 demo_pair]
  by (simp add: take_token_def demo_conn_def demo_draws_def demo_config_def Let_def fail_def send_def)

text \<open>A connection that has not joined can only ping, ask for a room id and join: every other
  well-formed request, of whatever type and payload, is answered with error 403 and reaches nobody.\<close>

theorem unjoined_requests_refused:
  assumes "snd (take_token cfg (now1 d) (now2 d) c)" and "envelope_ok msg" and "ws_participant c = None"
    and "get_prop msg (js ''type'') \<notin> {Str (js ''ping''), Str (js ''room.create''), Str (js ''room.join'')}"
    and "t = set_conn w (fst (take_token cfg (now1 d) (now2 d) c)) s"
  shows "on_message cfg d s w c (Text (Some msg)) = (t, fail t w 403 ''Join a room first'' (request_id msg))"
proof -
  have "is_str (get_prop msg (js ''type''))" using assms(2) by (simp add: envelope_ok_def)
  then have "str_val (get_prop msg (js ''type'')) \<notin> {js ''ping'', js ''room.create'', js ''room.join''}"
    using assms(4) by (auto simp: is_str_iff)
  then show ?thesis
    using assms(3,5) by (simp add: on_message_request [OF assms(1,2)] handle_request_def Let_def)
qed

theorem unjoined_requests_refused_witness:
  "snd (on_message demo_config (demo_draws ''uc'') demo_alone 20 (demo_conn None 120 1) (Text (Some demo_offer))) =
     fail (set_conn 20 (demo_conn None 119 1) demo_alone) 20 403 ''Join a room first'' Undefined"
  using unjoined_requests_refused [of demo_config "demo_draws ''uc''" "demo_conn None 120 1" demo_offer
      "set_conn 20 (demo_conn None 119 1) demo_alone" 20 demo_alone]
  by (simp add: take_token_def demo_conn_def demo_draws_def demo_config_def Let_def demo_offer_def envelope_ok_envelope request_id_def)

end
