(* ===== verification/ServerTiming.thy ===== *)
theory ServerTiming
  imports ServerInvariant Scenario
begin

text \<open>
  The two clocks of the signaling server: the token bucket that limits the messages of one
  connection, and the heartbeat that drops a connection that stopped answering.
\<close>

section \<open>The token bucket\<close>

text \<open>The number of requests granted in a series, each with its two readings of the clock.\<close>

fun granted :: "(int \<Rightarrow> int \<Rightarrow> 'c \<Rightarrow> 'c \<times> bool) \<Rightarrow> (int \<times> int) list \<Rightarrow> 'c \<Rightarrow> nat" where
  "granted request [] c = 0"
| "granted request ((t1, t2) # ts) c =
     (if snd (request t1 t2 c) then 1 else 0) + granted request ts (fst (request t1 t2 c))"

text \<open>
  The contract of a rate limiter, as the message listener uses it: a budget that never exceeds
  its limit, a grant that costs one unit, a refill no earlier than an interval after the last.
\<close>

locale limiter =
  fixes budget :: "'c \<Rightarrow> int" and refilled :: "'c \<Rightarrow> int"
    and request :: "int \<Rightarrow> int \<Rightarrow> 'c \<Rightarrow> 'c \<times> bool"
    and limit :: int and interval :: int
  assumes interval_pos: "0 < interval" and limit_nonneg: "0 \<le> limit"
    and early: "t1 - refilled c < interval \<Longrightarrow>
      budget (fst (request t1 t2 c)) = budget c - 1 \<and> refilled (fst (request t1 t2 c)) = refilled c \<and>
      (snd (request t1 t2 c) \<longleftrightarrow> 0 < budget c)"
    and late: "interval \<le> t1 - refilled c \<Longrightarrow>
      budget (fst (request t1 t2 c)) = limit - 1 \<and> refilled (fst (request t1 t2 c)) = t2 \<and>
      (snd (request t1 t2 c) \<longleftrightarrow> 0 < limit)"
begin

lemma div_step:
  assumes "interval \<le> t1 - r" and "t1 \<le> t2" and "t2 \<le> u"
  shows "1 + (u - t2) div interval \<le> (u - r) div interval"
proof -
  have "interval + (u - t2) \<le> u - r" using assms by simp
  then have "(interval + (u - t2)) div interval \<le> (u - r) div interval"
    by (intro zdiv_mono1 interval_pos)
  moreover have "(interval + (u - t2)) div interval = 1 + (u - t2) div interval"
    using interval_pos by simp
  ultimately show ?thesis by simp
qed

lemma granted_bound:
  assumes "\<forall>(t1, t2) \<in> set ts. t1 \<le> t2 \<and> t2 \<le> u" and "refilled c \<le> u"
  shows "int (granted request ts c) \<le> max 0 (budget c) + limit * ((u - refilled c) div interval)"
  using assms
proof (induction ts arbitrary: c)
  case Nil
  then show ?case using interval_pos limit_nonneg by (simp add: pos_imp_zdiv_nonneg_iff)
next
  case (Cons x ts)
  obtain t1 t2 where x: "x = (t1, t2)" by force
  let ?c = "fst (request t1 t2 c)"
  show ?case
  proof (cases "interval \<le> t1 - refilled c")
    case True
    note l = late [OF True, of t2]
    have IH: "int (granted request ts ?c) \<le> max 0 (limit - 1) + limit * ((u - t2) div interval)"
      using Cons.IH [of ?c] Cons.prems l by (simp add: x)
    have "limit * (1 + (u - t2) div interval) \<le> limit * ((u - refilled c) div interval)"
      using div_step [OF True, of t2 u] Cons.prems limit_nonneg by (simp add: x mult_left_mono)
    then have "limit + limit * ((u - t2) div interval) \<le> limit * ((u - refilled c) div interval)"
      by (simp add: distrib_left)
    with IH l limit_nonneg show ?thesis by (auto simp: x)
  next
    case False
    then have e: "budget ?c = budget c - 1 \<and> refilled ?c = refilled c \<and> (snd (request t1 t2 c) \<longleftrightarrow> 0 < budget c)"
      by (intro early) simp
    have "int (granted request ts ?c) \<le> max 0 (budget c - 1) + limit * ((u - refilled c) div interval)"
      using Cons.IH [of ?c] Cons.prems e by (simp add: x)
    with e show ?thesis by (auto simp: x)
  qed
qed

lemma granted_all:
  assumes "int (length ts) \<le> budget c" and "budget c \<le> limit"
  shows "granted request ts c = length ts"
  using assms
proof (induction ts arbitrary: c)
  case (Cons x ts)
  obtain t1 t2 where x: "x = (t1, t2)" by force
  show ?case
  proof (cases "interval \<le> t1 - refilled c")
    case True
    with Cons late [OF True, of t2] show ?thesis by (simp add: x)
  next
    case False
    then have "budget (fst (request t1 t2 c)) = budget c - 1 \<and> (snd (request t1 t2 c) \<longleftrightarrow> 0 < budget c)"
      using early [of t1 c t2] by simp
    with Cons show ?thesis by (simp add: x)
  qed
qed simp

end

text \<open>The bucket of the message listener, under the interval of one second that \<open>loadConfig\<close> sets.\<close>

interpretation bucket: limiter ws_tokens ws_lastRefill "take_token (cfg\<lparr>cfg_rateLimitInterval := 1000\<rparr>)"
  "int (cfg_rateLimitTokens cfg)" 1000 for cfg
  by unfold_locales (auto simp: take_token_def Let_def)

lemma second_interval: "cfg_rateLimitInterval cfg = 1000 \<Longrightarrow> cfg\<lparr>cfg_rateLimitInterval := 1000\<rparr> = cfg"
  by (cases cfg) simp

text \<open>C21. The rate limit holds over any length of time: of the messages a connection sends between
  its opening and a later moment, the listener lets through at most the configured number for the
  first second and as many again for each full second that has passed, however the messages are
  spaced and however many there are.\<close>

theorem rate_limit_bound:
  assumes "cfg_rateLimitInterval cfg = 1000"
    and "map_of (sv_clients (on_connection cfg w opened rs s)) w = Some c"
    and "list_all (\<lambda>(t1, t2). t1 \<le> t2 \<and> t2 \<le> now) ts" and "opened \<le> now"
  shows "int (granted (take_token cfg) ts c) \<le> int (cfg_rateLimitTokens cfg) * (1 + (now - opened) div 1000)"
proof -
  have "ws_tokens c = int (cfg_rateLimitTokens cfg)" and "ws_lastRefill c = opened"
    using assms(2) by (auto simp: on_connection_def map_of_update_eq)
  then show ?thesis
    using bucket.granted_bound [of ts now c cfg] assms(3,4)
    by (simp add: second_interval [OF assms(1)] list_all_iff distrib_left)
qed

definition demo_strict :: config where
  "demo_strict = demo_config\<lparr>cfg_rateLimitTokens := 2\<rparr>"

theorem rate_limit_bound_witness:
  "int (granted (take_token demo_strict) [(10, 10), (20, 20), (30, 30), (1010, 1010)]
     \<lparr>ws_participant = None, ws_tokens = 2, ws_lastRefill = 0, ws_isAlive = True, ws_readyState = OPEN\<rparr>) \<le> 4"
proof -
  have "int (granted (take_token demo_strict) [(10, 10), (20, 20), (30, 30), (1010, 1010)]
     \<lparr>ws_participant = None, ws_tokens = 2, ws_lastRefill = 0, ws_isAlive = True, ws_readyState = OPEN\<rparr>) \<le>
     int (cfg_rateLimitTokens demo_strict) * (1 + (1010 - 0) div 1000)"
    by (rule rate_limit_bound [where w = 10 and rs = OPEN and s = initial_server])
      (simp_all add: demo_strict_def demo_config_def on_connection_def initial_server_def)
  then show ?thesis by (simp add: demo_strict_def)
qed

text \<open>The limit refuses nobody early: as many messages as a connection has tokens left all get
  through, at whatever times they come.\<close>

theorem rate_limit_grants:
  assumes "cfg_rateLimitInterval cfg = 1000" and "ws_tokens c \<le> int (cfg_rateLimitTokens cfg)"
    and "int (length ts) \<le> ws_tokens c"
  shows "granted (take_token cfg) ts c = length ts"
  using bucket.granted_all [of ts c cfg] assms by (simp add: second_interval)

theorem rate_limit_grants_witness:
  "granted (take_token demo_config) [(5, 5), (5, 6), (2000, 2000)] (demo_conn None 3 1) = 3"
  using rate_limit_grants [of demo_config "demo_conn None 3 1" "[(5, 5), (5, 6), (2000, 2000)]"]
  by (simp add: demo_config_def demo_conn_def)

section \<open>The heartbeat\<close>

definition alive_of :: "server \<Rightarrow> nat \<Rightarrow> bool option" where
  "alive_of s w = map_option ws_isAlive (map_of (sv_clients s) w)"

definition sign_of_life :: "nat \<Rightarrow> server_event \<Rightarrow> bool" where
  "sign_of_life w ev \<longleftrightarrow> ev = Pong w \<or> ev = Close w \<or> (\<exists>now rs. ev = Connect w now rs)"

lemma alive_set_conn [simp]: "alive_of (set_conn w c s) w' = (if w' = w then Some (ws_isAlive c) else alive_of s w')"
  by (simp add: alive_of_def map_of_update_eq)

lemma alive_frame: "sv_clients t = sv_clients s \<Longrightarrow> alive_of t = alive_of s"
  by (simp add: alive_of_def fun_eq_iff)

lemma alive_take_seat: "alive_of (take_seat s w c p) w' = (if w' = w then Some (ws_isAlive c) else alive_of s w')"
  by (simp add: take_seat_def alive_of_def map_of_update_eq)

lemma message_alive:
  assumes "map_of (sv_clients s) w = Some c" and "on_message cfg d s w c f = (t, es)"
  shows "alive_of t = alive_of s"
proof -
  let ?c = "fst (take_token cfg (now1 d) (now2 d) c)"
  have "t = set_conn w ?c s \<or> (\<exists>p. t = take_seat (set_conn w ?c s) w ?c p)"
    using assms(2) unfolding on_message_def
    by (auto simp: Let_def split: if_splits frame.splits option.splits prod.splits dest: handle_parsed_state)
  then show ?thesis
    using assms(1) by (auto simp: alive_take_seat fun_eq_iff) (simp_all add: alive_of_def)
qed

lemma close_clients: "on_close s w c = Some (t, es) \<Longrightarrow> sv_clients t = AList.delete w (sv_clients s)"
  by (auto simp: on_close_def Let_def split: option.splits)

text \<open>Without a sign of life the flag of a connection never goes from false to true.\<close>

lemma dead_stays:
  assumes "server_step cfg s (ev, es) t" and "alive_of s w = Some False" and "\<not> sign_of_life w ev"
  shows "alive_of t w = Some False"
  using assms(1)
proof (cases rule: server_step.cases)
  case (message w' c d f)
  with message_alive [of s w' c cfg d f t es] assms(2) show ?thesis by simp
next
  case (close w' c)
  with assms(2,3) show ?thesis
    by (auto simp: alive_of_def close_clients map_of_delete_eq sign_of_life_def)
next
  case heartbeat
  with assms(2) show ?thesis
    by (auto simp: on_heartbeat_def alive_of_def map_of_map_values)
next
  case server_error
  with assms(2) show ?thesis by (simp add: on_server_error_def alive_of_def)
next
  case stop
  with assms(2) show ?thesis by (auto simp: shutdown_def alive_of_def)
qed (use assms(2,3) in \<open>auto simp: sign_of_life_def on_connection_def alive_of_def map_of_update_eq\<close>)

lemma dead_stays_run:
  "execution (server_step cfg) s ls t \<Longrightarrow> alive_of s w = Some False \<Longrightarrow>
   list_all (\<lambda>(ev, es). \<not> sign_of_life w ev) ls \<Longrightarrow> alive_of t w = Some False"
proof (induction rule: execution.induct)
  case (execution_cons s l t ls u)
  obtain ev es where "l = (ev, es)" by force
  with execution_cons dead_stays [of cfg s ev es t w] show ?case by simp
qed

lemma heartbeat_alive: "on_heartbeat s = (t, es) \<Longrightarrow> alive_of s w \<noteq> None \<Longrightarrow> alive_of t w = Some False"
  by (auto simp: on_heartbeat_def alive_of_def map_of_map_values)

lemma heartbeat_effect:
  "on_heartbeat s = (t, es) \<Longrightarrow> alive_of s w = Some a \<Longrightarrow> (if a then Ping w else Terminate w) \<in> set es"
  by (force simp: on_heartbeat_def alive_of_def dest: map_of_SomeD)

text \<open>C22. A connection that stays silent is dropped: if it is connected at one tick of the heartbeat
  and gives no pong before the next, the next tick terminates it, whatever else the server does in
  between.\<close>

theorem silent_connection_terminated:
  assumes "server_step cfg s0 (Heartbeat, es0) s1" and "map_of (sv_clients s0) w \<noteq> None"
    and "execution (server_step cfg) s1 ls s2" and "list_all (\<lambda>(ev, es). \<not> sign_of_life w ev) ls"
    and "server_step cfg s2 (Heartbeat, es) s3"
  shows "Terminate w \<in> set es"
proof -
  have "alive_of s0 w \<noteq> None" using assms(2) by (simp add: alive_of_def)
  moreover have hb: "on_heartbeat s0 = (s1, es0)" using assms(1) by (rule heartbeat_stepE)
  ultimately have "alive_of s1 w = Some False" using heartbeat_alive by blast
  then have "alive_of s2 w = Some False" by (rule dead_stays_run [OF assms(3) _ assms(4)])
  then show ?thesis using assms(5) heartbeat_effect [of s2 s3 es w False] by (auto elim: heartbeat_stepE)
qed

theorem silent_connection_terminated_witness:
  "Terminate 20 \<in> set (snd (on_heartbeat (fst (on_heartbeat demo_pair))))"
proof -
  let ?s1 = "fst (on_heartbeat demo_pair)" and ?s2 = "fst (on_heartbeat (fst (on_heartbeat demo_pair)))"
  have "server_step demo_config demo_pair (Heartbeat, snd (on_heartbeat demo_pair)) ?s1"
    by (rule heartbeat) (simp_all add: demo_pair_def)
  moreover have "server_step demo_config ?s1 (Heartbeat, snd (on_heartbeat ?s1)) ?s2"
    by (rule heartbeat) (simp_all add: on_heartbeat_def demo_pair_def)
  ultimately show ?thesis
    using silent_connection_terminated [of demo_config demo_pair _ ?s1 20 "[]" ?s1 _ ?s2]
    by (simp add: demo_pair_clients execution_nil)
qed

text \<open>A tick handles every connection once and in order: it pings the ones that answered since the
  last tick, terminates the ones that did not, and does nothing else.\<close>

theorem heartbeat_effects:
  "on_heartbeat s = (t, es) \<Longrightarrow> length es = length (sv_clients s) \<and>
     (\<forall>i < length (sv_clients s). es ! i =
        (if ws_isAlive (snd (sv_clients s ! i)) then Ping (fst (sv_clients s ! i)) else Terminate (fst (sv_clients s ! i)))) \<and>
     keys_of (sv_clients t) = keys_of (sv_clients s) \<and> sv_rooms t = sv_rooms s"
  by (auto simp: on_heartbeat_def split_beta comp_def)

theorem heartbeat_effects_witness:
  "snd (on_heartbeat demo_pair) ! 1 = Ping 20"
  using heartbeat_effects [of demo_pair "fst (on_heartbeat demo_pair)" "snd (on_heartbeat demo_pair)"]
  by (simp add: demo_pair_def demo_conn_def)

end
