(* ===== verification/Registry.thy ===== *)
theory Registry
  imports RoomManager ServerSafety Scenario
begin

text \<open>
  The earlier registry (\<open>rooms.js\<close>, \<open>participants.js\<close>) against the rooms table that
  \<open>server.js\<close> keeps itself: in the states the server can be in, each operation of the one is
  compared with the operation of the other.
\<close>

text \<open>A participant of the server as an object of the class \<open>Participant\<close>, and the whole table.\<close>

definition enrolled :: "participant \<Rightarrow> nat Participant" where
  "enrolled p = new_Participant (p_id p) (p_roomId p) (p_displayName p) Null (p_ws p)"

definition as_registry :: "participant room_table \<Rightarrow> nat manager" where
  "as_registry rooms = map (\<lambda>(r, room). (r, map (\<lambda>(i, p). (i, enrolled p)) room)) rooms"

text \<open>Updates of an association list commute with a change of its values.\<close>

lemma map_values_update:
  "map (\<lambda>(k, v). (k, f v)) (AList.update k v m) = AList.update k (f v) (map (\<lambda>(k, v). (k, f v)) m)"
  by (induction m) auto

lemma map_values_delete:
  "map (\<lambda>(k, v). (k, f v)) (AList.delete k m) = AList.delete k (map (\<lambda>(k, v). (k, f v)) m)"
  by (induction m) (auto simp: AList.delete_eq)

lemma map_of_values: "map_of (map (\<lambda>(k, v). (k, f v)) m) k = map_option f (map_of m k)"
  by (induction m) auto

lemma update_twice: "AList.update k w (AList.update k v m) = AList.update k w m"
  by (induction m) auto

lemma as_registry_lookup:
  "map_of (as_registry rooms) r = map_option (map (\<lambda>(i, p). (i, enrolled p))) (map_of rooms r)"
  by (simp add: as_registry_def map_of_values)

lemma as_registry_update:
  "as_registry (AList.update r room rooms) = AList.update r (map (\<lambda>(i, p). (i, enrolled p)) room) (as_registry rooms)"
  by (simp add: as_registry_def map_values_update)

lemma as_registry_delete: "as_registry (AList.delete r rooms) = AList.delete r (as_registry rooms)"
  by (simp add: as_registry_def map_values_delete)

lemma join_registry:
  "joinRoom (as_registry rooms) r (enrolled p) =
     (case map_of rooms r of None \<Rightarrow> (False, as_registry rooms) | Some room \<Rightarrow> (True, as_registry (rooms_enter rooms r p)))"
  by (simp add: joinRoom_def rooms_enter_def as_registry_lookup as_registry_update map_values_update Let_def
      enrolled_def new_Participant_def split: option.split)

lemma create_join_registry:
  assumes "r \<noteq> []" and "map_of rooms r = None"
  shows "joinRoom (snd (createRoom rnd (as_registry rooms) (Some r))) r (enrolled p) = (True, as_registry (rooms_enter rooms r p))"
proof -
  have id: "pt_id (enrolled p) = p_id p" by (simp add: enrolled_def new_Participant_def)
  obtain c cs where r: "r = c # cs" using assms(1) by (cases r) auto
  show ?thesis
    using map_of_update_eq [of r "[]" "as_registry rooms"] assms(2) unfolding rooms_enter_def
    by (simp add: r createRoom_def joinRoom_def as_registry_update update_twice id Let_def)
qed

lemma leave_registry: "leaveRoom (as_registry rooms) r i = as_registry (rooms_leave rooms r i)"
  by (cases "map_of rooms r")
    (simp_all add: leaveRoom_def rooms_leave_def as_registry_lookup as_registry_update as_registry_delete map_values_delete Let_def
      flip: map_values_delete)

lemma member_sends:
  assumes "\<And>x. x \<in> set room \<Longrightarrow> fst x = p_id (snd x)"
  shows "broadcast_room s room ty payload except = map (\<lambda>(w, m). Send w m)
    [(pt_socket p, wire (envelope (js ty) payload Undefined)). (i, p) \<leftarrow> map (\<lambda>(i, p). (i, enrolled p)) room,
       Some i \<noteq> except \<and> int (ready_code (ready_of s (pt_socket p))) = 1]"
  using assms
proof (induction room)
  case (Cons x room)
  obtain i p where x: "x = (i, p)" by force
  then have "i = p_id p" using Cons.prems [of x] by simp
  moreover have "pt_socket (enrolled p) = p_ws p" by (simp add: enrolled_def new_Participant_def)
  moreover have "int (ready_code (ready_of s (p_ws p))) = 1 \<longleftrightarrow> ready_of s (p_ws p) = OPEN"
    using ready_code_OPEN by simp
  moreover note Cons.IH [OF Cons.prems [OF list.set_intros(2)]]
  ultimately show ?case by (simp add: x broadcast_room_def send_def del: wire.simps of_nat_eq_1_iff)
qed (simp add: broadcast_room_def)

lemma registry_broadcast:
  assumes "server_inv cfg s"
  shows "broadcast_room s (room_of s r) ty payload except =
    map (\<lambda>(w, m). Send w m) (broadcast (\<lambda>w. int (ready_code (ready_of s w))) (as_registry (sv_rooms s)) r
      (envelope (js ty) payload Undefined) except)"
proof (cases "map_of (sv_rooms s) r")
  case None
  then show ?thesis by (simp add: room_of_def broadcast_def broadcast_room_def as_registry_lookup)
next
  case (Some room)
  then have "room_of s r = room" by (simp add: room_of_def)
  with member_sends [of room s ty payload except] room_entryD(3) [OF assms, of _ r] Some
  show ?thesis unfolding broadcast_def as_registry_lookup by (simp only: option.map option.case)
qed

text \<open>C36. The registry the server no longer uses does what the server's own table does, but for one thing:
  a room has to be created before it is joined. In every state of the server, with the server's rooms in
  the registry: \<open>joinRoom\<close> of a room that exists gives the rooms the server has after the join; of a
  room that does not exist it answers false and changes nothing, where the server makes the room, and
  \<open>createRoom\<close> with the name followed by \<open>joinRoom\<close> gives the server's rooms; a room exists just when
  somebody is in it; \<open>leaveRoom\<close> gives the rooms the server has after the departure, empty rooms
  dropped; \<open>getParticipants\<close> lists the server's members in their order; and \<open>broadcast\<close> makes
  the sends the server makes.\<close>

theorem registry_equivalent:
  assumes "server_reachable cfg s" and "r \<noteq> []" and "reg = as_registry (sv_rooms s)"
  shows "(getRoom reg r = None \<longleftrightarrow> room_of s r = []) \<and>
    joinRoom reg r (enrolled p) = (if room_of s r = [] then (False, reg) else (True, as_registry (rooms_enter (sv_rooms s) r p))) \<and>
    (room_of s r = [] \<longrightarrow>
      joinRoom (snd (createRoom rnd reg (Some r))) r (enrolled p) = (True, as_registry (rooms_enter (sv_rooms s) r p))) \<and>
    leaveRoom reg r i = as_registry (rooms_leave (sv_rooms s) r i) \<and>
    getParticipants reg r = map (enrolled \<circ> snd) (room_of s r) \<and>
    broadcast_room s (room_of s r) ty payload except =
      map (\<lambda>(w, m). Send w m) (broadcast (\<lambda>w. int (ready_code (ready_of s w))) reg r
        (envelope (js ty) payload Undefined) except)"
proof (intro conjI impI)
  have inv: "server_inv cfg s" by (rule server_reachable_inv [OF assms(1)])
  have gone: "room_of s r = [] \<longleftrightarrow> map_of (sv_rooms s) r = None"
    using inv_room [OF inv, of r] by (auto simp: room_of_def split: option.split)
  then show "getRoom reg r = None \<longleftrightarrow> room_of s r = []"
    by (simp add: assms(3) getRoom_def as_registry_lookup)
  from gone show "joinRoom reg r (enrolled p) =
      (if room_of s r = [] then (False, reg) else (True, as_registry (rooms_enter (sv_rooms s) r p)))"
    by (simp add: assms(3) join_registry split: option.split)
  show "joinRoom (snd (createRoom rnd reg (Some r))) r (enrolled p) = (True, as_registry (rooms_enter (sv_rooms s) r p))"
    if "room_of s r = []"
    using that gone by (simp add: assms(3) create_join_registry [OF assms(2)])
  show "getParticipants reg r = map (enrolled \<circ> snd) (room_of s r)"
    by (cases "map_of (sv_rooms s) r") (auto simp: assms(3) getParticipants_def as_registry_lookup room_of_def)
  show "leaveRoom reg r i = as_registry (rooms_leave (sv_rooms s) r i)" unfolding assms(3) by (rule leave_registry)
  show "broadcast_room s (room_of s r) ty payload except =
      map (\<lambda>(w, m). Send w m) (broadcast (\<lambda>w. int (ready_code (ready_of s w))) reg r
        (envelope (js ty) payload Undefined) except)"
    unfolding assms(3) by (rule registry_broadcast [OF inv])
qed

theorem registry_equivalent_witness:
  "map fst (leaveRoom (as_registry (sv_rooms demo_pair)) (js ''room123'') (js ''ua'')) = [js ''room123''] \<and>
   \<not> fst (joinRoom (as_registry (sv_rooms demo_pair)) (js ''room456'') (enrolled (demo_person 30 ''C'' ''uc'')))"
proof
  have ids: "js ''room123'' \<noteq> []" "js ''room456'' \<noteq> []" "js ''room123'' \<noteq> js ''room456''" by (simp_all add: js_def)
  from registry_equivalent [OF demo_pair_reachable ids(1) refl]
  have "leaveRoom (as_registry (sv_rooms demo_pair)) (js ''room123'') (js ''ua'') =
      as_registry (rooms_leave (sv_rooms demo_pair) (js ''room123'') (js ''ua''))" by blast
  then show "map fst (leaveRoom (as_registry (sv_rooms demo_pair)) (js ''room123'') (js ''ua'')) = [js ''room123'']"
    by (simp add: rooms_leave_def demo_defs as_registry_def)
  have "room_of demo_pair (js ''room456'') = []" using ids(3) by (simp add: room_of_def demo_pair_def)
  with registry_equivalent [OF demo_pair_reachable ids(2) refl]
  show "\<not> fst (joinRoom (as_registry (sv_rooms demo_pair)) (js ''room456'') (enrolled (demo_person 30 ''C'' ''uc'')))"
    by simp
qed

end
