(* ===== verification/Emitter.thy ===== *)
theory Emitter
  imports JsValues
begin

text \<open>
  The listener tables of the browser client. \<open>RoomState\<close> (\<open>room.js\<close>) and
  \<open>SignalingClient\<close> (\<open>signaling.js\<close>) each keep a Map from event names to Sets of callbacks
  and call them in the order they were added. The callbacks belong to the user of the class:
  here they are values of a type \<open>'h\<close>, and an emission is the list of the calls it makes.
\<close>

section \<open>The contract\<close>

text \<open>
  \<open>calls l e\<close> is the list of callbacks an emission of \<open>e\<close> runs. Adding a callback that is
  there already changes nothing; a new one is called last.
\<close>

locale listening =
  fixes add :: "'l \<Rightarrow> 'e \<Rightarrow> 'h \<Rightarrow> 'l"
    and calls :: "'l \<Rightarrow> 'e \<Rightarrow> 'h list"
    and none :: 'l
  assumes calls_none: "calls none e = []"
    and calls_add: "calls (add l e h) e' =
      (if e' = e \<and> h \<notin> set (calls l e) then calls l e @ [h] else calls l e')"
begin

lemma count_distinct: "distinct xs \<Longrightarrow> count_list xs x = (if x \<in> set xs then 1 else 0)"
  by (induction xs) auto

fun add_all :: "'l \<Rightarrow> ('e \<times> 'h) list \<Rightarrow> 'l" where
  "add_all l [] = l"
| "add_all l ((e, h) # hs) = add_all (add l e h) hs"

lemma calls_add_all_set: "set (calls (add_all l hs) e) = set (calls l e) \<union> {h. (e, h) \<in> set hs}"
  by (induction l hs rule: add_all.induct) (auto simp: calls_add split: if_splits)

lemma calls_distinct_add: "distinct (calls l e) \<Longrightarrow> distinct (calls (add l e' h) e)"
  by (auto simp: calls_add)

lemma calls_distinct: "distinct (calls l e) \<Longrightarrow> distinct (calls (add_all l hs) e)"
  by (induction l hs rule: add_all.induct) (simp_all add: calls_distinct_add)

text \<open>Whatever was registered, in whatever order and how often, each callback runs once.\<close>

lemma called_once: "count_list (calls (add_all none hs) e) h = (if (e, h) \<in> set hs then 1 else 0)"
proof -
  have "distinct (calls (add_all none hs) e)" by (rule calls_distinct) (simp add: calls_none)
  moreover have "set (calls (add_all none hs) e) = {h. (e, h) \<in> set hs}"
    by (simp add: calls_add_all_set calls_none)
  ultimately show ?thesis by (simp add: count_distinct)
qed

end

text \<open>The contract with removal.\<close>

locale emitter = listening add calls none
  for add :: "'l \<Rightarrow> 'e \<Rightarrow> 'h \<Rightarrow> 'l" and calls :: "'l \<Rightarrow> 'e \<Rightarrow> 'h list" and none :: 'l +
  fixes del :: "'l \<Rightarrow> 'e \<Rightarrow> 'h \<Rightarrow> 'l"
  assumes calls_del: "calls (del l e h) e' = (if e' = e then remove1 h (calls l e) else calls l e')"
begin

fun del_all :: "'l \<Rightarrow> ('e \<times> 'h) list \<Rightarrow> 'l" where
  "del_all l [] = l"
| "del_all l ((e, h) # hs) = del_all (del l e h) hs"

lemma calls_distinct_del: "distinct (calls l e) \<Longrightarrow> distinct (calls (del l e' h) e)"
  by (auto simp: calls_del)

lemma set_calls_del:
  "distinct (calls l e) \<Longrightarrow> set (calls (del l e' h) e) = set (calls l e) - {k. e' = e \<and> k = h}"
  by (auto simp: calls_del)

text \<open>What was registered and then removed is not called again, and nothing else is lost.\<close>

lemma calls_del_all: "distinct (calls l e) \<Longrightarrow> set (calls (del_all l hs) e) = set (calls l e) - {h. (e, h) \<in> set hs}"
  by (induction l hs rule: del_all.induct) (auto simp: set_calls_del calls_distinct_del)

lemma registered_then_removed:
  "distinct (calls l e) \<Longrightarrow> set (calls (del_all (add_all l hs) hs) e) = set (calls l e) - {h. (e, h) \<in> set hs}"
  by (simp add: calls_del_all calls_distinct calls_add_all_set) blast

end

section \<open>A Map of Sets\<close>

type_synonym 'h listeners = "(jstring \<times> 'h list) list"

definition listener_calls :: "'h listeners \<Rightarrow> jstring \<Rightarrow> 'h list" where
  "listener_calls l e = (case map_of l e of Some hs \<Rightarrow> hs | None \<Rightarrow> [])"

text \<open>\<open>on\<close>: make the Set if the event has none, then add the callback to it.\<close>

definition listener_on :: "'h listeners \<Rightarrow> jstring \<Rightarrow> 'h \<Rightarrow> 'h listeners" where
  "listener_on l e h =
     (let l1 = (if map_of l e = None then AList.update e [] l else l)
      in case map_of l1 e of
           Some hs \<Rightarrow> AList.update e (if h \<in> set hs then hs else hs @ [h]) l1
         | None \<Rightarrow> l1)"

text \<open>\<open>off\<close>: \<open>listeners.get(type)?.delete(handler)\<close>.\<close>

definition listener_off :: "'h listeners \<Rightarrow> jstring \<Rightarrow> 'h \<Rightarrow> 'h listeners" where
  "listener_off l e h = (case map_of l e of Some hs \<Rightarrow> AList.update e (remove1 h hs) l | None \<Rightarrow> l)"

lemma listener_calls_none [simp]: "listener_calls [] e = []"
  by (simp add: listener_calls_def)

lemma listener_calls_on:
  "listener_calls (listener_on l e h) e' =
     (if e' = e \<and> h \<notin> set (listener_calls l e) then listener_calls l e @ [h] else listener_calls l e')"
  by (auto simp: listener_calls_def listener_on_def map_of_update_eq Let_def split: option.splits)

lemma listener_calls_off:
  "listener_calls (listener_off l e h) e' =
     (if e' = e then remove1 h (listener_calls l e) else listener_calls l e')"
  by (auto simp: listener_calls_def listener_off_def map_of_update_eq split: option.splits)

end
