(* ===== verification/SignalingClient.thy ===== *)
theory SignalingClient
  imports Emitter WebSocketState
begin

text \<open>
  \<open>client/js/signaling.js\<close>: the class \<open>SignalingClient\<close>. The sockets it opens are numbered,
  the timers it starts are a flag each that says whether the timer still runs, and a promise is
  its outcome. \<open>pendingRequests\<close> is the list of its keys in order; the \<open>resolve\<close>, \<open>reject\<close> and
  \<open>timeout\<close> of an entry are those of the request under the same id in \<open>cl_requests\<close>, which
  also remembers the requests that are over. A listener is taken to return.
\<close>

section \<open>State\<close>

text \<open>A promise settles once: a later \<open>resolve\<close> or \<open>reject\<close> has no effect.\<close>

datatype outcome = Pending | Resolved jsval | Rejected jsval

definition settle :: "outcome \<Rightarrow> outcome \<Rightarrow> outcome" where
  "settle old new = (if old = Pending then new else old)"

lemma settle_settled [simp]: "old \<noteq> Pending \<Longrightarrow> settle old new = old" and settle_Pending [simp]: "settle Pending new = new"
  by (simp_all add: settle_def)

record socket =
  so_ready :: ready_state
  so_promise :: outcome
  so_timer :: bool

record request =
  rq_type :: jstring
  rq_promise :: outcome
  rq_timer :: bool

record 'h client =
  cl_ws :: "nat option"
  cl_sockets :: "nat \<rightharpoonup> socket"
  cl_listeners :: "'h listeners"
  cl_pending :: "jstring list"
  cl_requests :: "jstring \<rightharpoonup> request"
  cl_isIntentionalClose :: bool

definition new_SignalingClient :: "'h client" where
  "new_SignalingClient = \<lparr>cl_ws = None, cl_sockets = Map.empty, cl_listeners = [], cl_pending = [],
     cl_requests = Map.empty, cl_isIntentionalClose = False\<rparr>"

text \<open>What an operation does outside: a frame on a socket, or the call of a listener.\<close>

datatype 'h client_out = SendFrame nat jsval | CallListener 'h jsval

section \<open>Listeners\<close>

definition client_on :: "'h client \<Rightarrow> jstring \<Rightarrow> 'h \<Rightarrow> 'h client" where
  "client_on c typ handler = c\<lparr>cl_listeners := listener_on (cl_listeners c) typ handler\<rparr>"

definition client_off :: "'h client \<Rightarrow> jstring \<Rightarrow> 'h \<Rightarrow> 'h client" where
  "client_off c typ handler = c\<lparr>cl_listeners := listener_off (cl_listeners c) typ handler\<rparr>"

definition client_calls :: "'h client \<Rightarrow> jstring \<Rightarrow> 'h list" where
  "client_calls c typ = listener_calls (cl_listeners c) typ"

fun client_emit :: "'h client \<Rightarrow> jsval \<Rightarrow> jsval \<Rightarrow> 'h client_out list" where
  "client_emit c (Str typ) data = map (\<lambda>h. CallListener h data) (client_calls c typ)"
| "client_emit c _ data = []"

interpretation client_events: emitter client_on client_calls new_SignalingClient client_off
  by unfold_locales (simp_all add: client_on_def client_off_def client_calls_def new_SignalingClient_def
    listener_calls_on listener_calls_off)

section \<open>The connection\<close>

definition with_socket :: "nat \<Rightarrow> (socket \<Rightarrow> socket) \<Rightarrow> 'h client \<Rightarrow> 'h client" where
  "with_socket n f c = c\<lparr>cl_sockets := (cl_sockets c)(n := map_option f (cl_sockets c n))\<rparr>"

text \<open>\<open>connect()\<close>, whose \<open>new WebSocket\<close> is number \<open>n\<close>; and \<open>disconnect()\<close>.\<close>

definition client_connect :: "nat \<Rightarrow> 'h client \<Rightarrow> 'h client" where
  "client_connect n c = c\<lparr>cl_isIntentionalClose := False, cl_ws := Some n,
     cl_sockets := (cl_sockets c)(n \<mapsto> \<lparr>so_ready = CONNECTING, so_promise = Pending, so_timer = True\<rparr>)\<rparr>"

definition disconnect :: "'h client \<Rightarrow> 'h client" where
  "disconnect c =
     (let c1 = c\<lparr>cl_isIntentionalClose := True\<rparr>
      in case cl_ws c1 of
           None \<Rightarrow> c1
         | Some n \<Rightarrow> with_socket n (\<lambda>s. s\<lparr>so_ready := close_ready (so_ready s)\<rparr>) c1)"

text \<open>The timer of \<open>connect\<close> fires.\<close>

definition connect_timeout :: "nat \<Rightarrow> 'h client \<Rightarrow> 'h client" where
  "connect_timeout n c = disconnect (with_socket n
     (\<lambda>s. s\<lparr>so_timer := False, so_promise := settle (so_promise s) (Rejected (Str (js ''Connection timed out'')))\<rparr>) c)"

definition onopen :: "nat \<Rightarrow> 'h client \<Rightarrow> 'h client" where
  "onopen n = with_socket n
     (\<lambda>s. s\<lparr>so_ready := OPEN, so_timer := False, so_promise := settle (so_promise s) (Resolved Undefined)\<rparr>)"

definition onerror :: "nat \<Rightarrow> 'h client \<Rightarrow> 'h client" where
  "onerror n = with_socket n (\<lambda>s. s\<lparr>so_timer := False,
     so_promise := settle (so_promise s) (Rejected (Str (js ''Could not connect to meeting server'')))\<rparr>)"

text \<open>\<open>request.resolve(...)\<close> and \<open>request.reject(...)\<close>; and \<open>clearTimeout(request.timeout); request.reject(...)\<close>.\<close>

definition settle_request :: "outcome \<Rightarrow> request \<Rightarrow> request" where
  "settle_request out r = r\<lparr>rq_promise := settle (rq_promise r) out\<rparr>"

definition finish :: "outcome \<Rightarrow> request \<Rightarrow> request" where
  "finish out r = settle_request out (r\<lparr>rq_timer := False\<rparr>)"

definition onclose :: "nat \<Rightarrow> 'h client \<Rightarrow> 'h client \<times> 'h client_out list" where
  "onclose n c =
     (let closed = Rejected (Str (js ''Connection closed''));
          c1 = with_socket n (\<lambda>s. s\<lparr>so_ready := CLOSED, so_timer := False, so_promise := settle (so_promise s) closed\<rparr>) c;
          c2 = c1\<lparr>cl_requests := (\<lambda>i. if i \<in> set (cl_pending c1) then map_option (finish closed) (cl_requests c1 i)
                 else cl_requests c1 i), cl_pending := []\<rparr>
      in (c2, if \<not> cl_isIntentionalClose c2 then client_emit c2 (Str (js ''disconnected'')) (Obj []) else []))"

section \<open>Requests\<close>

definition client_ready :: "'h client \<Rightarrow> ready_state option" where
  "client_ready c = (case cl_ws c of None \<Rightarrow> None | Some n \<Rightarrow> map_option so_ready (cl_sockets c n))"

text \<open>\<open>send\<close> throws unless the socket is open.\<close>

definition client_send :: "'h client \<Rightarrow> jstring \<Rightarrow> jsval \<Rightarrow> jsval \<Rightarrow> jstring + 'h client_out list" where
  "client_send c typ payload requestId =
     (if client_ready c \<noteq> Some OPEN then Inl (js ''Connection is closed'')
      else Inr [SendFrame (the (cl_ws c)) (wire (envelope typ payload requestId))])"

definition drop_pending :: "jstring \<Rightarrow> 'h client \<Rightarrow> 'h client" where
  "drop_pending i c = c\<lparr>cl_pending := remove1 i (cl_pending c)\<rparr>"

definition with_request :: "jstring \<Rightarrow> (request \<Rightarrow> request) \<Rightarrow> 'h client \<Rightarrow> 'h client" where
  "with_request i f c = c\<lparr>cl_requests := (cl_requests c)(i := map_option f (cl_requests c i))\<rparr>"

text \<open>\<open>sendRequest\<close>, with the id \<open>randomUUID\<close> gave it.\<close>

definition sendRequest :: "'h client \<Rightarrow> jstring \<Rightarrow> jstring \<Rightarrow> jsval \<Rightarrow> 'h client \<times> 'h client_out list" where
  "sendRequest c i typ payload =
     (let c1 = c\<lparr>cl_requests := (cl_requests c)(i \<mapsto> \<lparr>rq_type = typ, rq_promise = Pending, rq_timer = True\<rparr>),
                 cl_pending := (if i \<in> set (cl_pending c) then cl_pending c else cl_pending c @ [i])\<rparr>
      in case client_send c1 typ payload (Str i) of
           Inr out \<Rightarrow> (c1, out)
         | Inl err \<Rightarrow> (with_request i (finish (Rejected (Str err))) (drop_pending i c1), []))"

definition request_timeout :: "jstring \<Rightarrow> 'h client \<Rightarrow> 'h client" where
  "request_timeout i c = with_request i
     (\<lambda>r. finish (Rejected (Str (js ''Request '' @ rq_type r @ js '' timed out''))) r) (drop_pending i c)"

text \<open>\<open>pendingRequests.get(requestId)\<close>: its keys are strings.\<close>

fun pending_request :: "'h client \<Rightarrow> jsval \<Rightarrow> jstring option" where
  "pending_request c (Str i) = (if i \<in> set (cl_pending c) then Some i else None)"
| "pending_request c _ = None"

text \<open>
  \<open>handleMessage\<close>. Reading \<open>payload.message\<close> of a payload that is \<open>null\<close> or \<open>undefined\<close>
  throws, after the entry and its timer are gone; so does taking apart a message that is \<open>null\<close>.
\<close>

definition handleMessage :: "'h client \<Rightarrow> jsval \<Rightarrow> 'h client \<times> 'h client_out list" where
  "handleMessage c msg =
     (if nullish msg then (c, [])
      else
        let typ = get_prop msg (js ''type''); payload = get_prop msg (js ''payload'') in
        case pending_request c (get_prop msg (js ''requestId'')) of
          None \<Rightarrow> (c, client_emit c typ payload)
        | Some i \<Rightarrow>
            let c1 = with_request i (\<lambda>r. r\<lparr>rq_timer := False\<rparr>) (drop_pending i c) in
            if typ = Str (js ''error'') then
              if nullish payload then (c1, [])
              else
                let c2 = with_request i (settle_request (Rejected (get_prop payload (js ''message'')))) c1
                in (c2, client_emit c2 typ payload)
            else
              let c2 = with_request i (settle_request (Resolved payload)) c1
              in (c2, client_emit c2 typ payload))"

text \<open>\<open>onmessage\<close>: what \<open>JSON.parse\<close> makes of the frame, if it does not throw.\<close>

definition onmessage :: "'h client \<Rightarrow> jsval option \<Rightarrow> 'h client \<times> 'h client_out list" where
  "onmessage c data = (case data of None \<Rightarrow> (c, []) | Some msg \<Rightarrow> handleMessage c msg)"

section \<open>Steps\<close>

datatype 'h client_event =
    Dial nat
  | HangUp
  | DialTimer nat
  | Opened nat
  | Errored nat
  | Received nat "jsval option"
  | Closed nat
  | Ask jstring jstring jsval
  | AskTimer jstring
  | Tell jstring jsval
  | Listen jstring 'h
  | Unlisten jstring 'h

text \<open>
  One step: a call of a method, or an event of a socket or a timer. A new socket and a new
  request have a fresh number and a fresh id; a socket opens once, is not heard after it closed,
  and receives while it is open; a timer fires while it runs.
\<close>

inductive client_step :: "'h client \<Rightarrow> 'h client_event \<times> 'h client_out list \<Rightarrow> 'h client \<Rightarrow> bool" where
  dial: "cl_sockets c n = None \<Longrightarrow> client_step c (Dial n, []) (client_connect n c)"
| hang_up: "client_step c (HangUp, []) (disconnect c)"
| dial_timer: "cl_sockets c n = Some s \<Longrightarrow> so_timer s \<Longrightarrow> client_step c (DialTimer n, []) (connect_timeout n c)"
| opened: "cl_sockets c n = Some s \<Longrightarrow> so_ready s = CONNECTING \<Longrightarrow> client_step c (Opened n, []) (onopen n c)"
| errored: "cl_sockets c n = Some s \<Longrightarrow> so_ready s \<noteq> CLOSED \<Longrightarrow> client_step c (Errored n, []) (onerror n c)"
| received: "cl_sockets c n = Some s \<Longrightarrow> so_ready s = OPEN \<Longrightarrow> onmessage c data = (d, out) \<Longrightarrow>
    client_step c (Received n data, out) d"
| closed: "cl_sockets c n = Some s \<Longrightarrow> so_ready s \<noteq> CLOSED \<Longrightarrow> onclose n c = (d, out) \<Longrightarrow>
    client_step c (Closed n, out) d"
| ask: "cl_requests c i = None \<Longrightarrow> sendRequest c i typ payload = (d, out) \<Longrightarrow> client_step c (Ask i typ payload, out) d"
| ask_timer: "cl_requests c i = Some r \<Longrightarrow> rq_timer r \<Longrightarrow> client_step c (AskTimer i, []) (request_timeout i c)"
| tell: "client_send c typ payload Undefined = Inr out \<Longrightarrow> client_step c (Tell typ payload, out) c"
| listen: "client_step c (Listen typ h, []) (client_on c typ h)"
| unlisten: "client_step c (Unlisten typ h, []) (client_off c typ h)"

inductive_cases ask_stepE: "client_step c (Ask i typ payload, out) d"
inductive_cases received_stepE: "client_step c (Received n data, out) d"
inductive_cases closed_stepE: "client_step c (Closed n, out) d"
inductive_cases ask_timer_stepE: "client_step c (AskTimer i, out) d"

lemmas client_defs = client_connect_def disconnect_def connect_timeout_def onopen_def onerror_def
  onclose_def client_send_def drop_pending_def with_request_def with_socket_def sendRequest_def
  request_timeout_def handleMessage_def onmessage_def client_on_def client_off_def finish_def settle_request_def

end
