(* ===== verification/SignalingProperties.thy ===== *)
theory SignalingProperties
  imports SignalingClient
begin

text \<open>
  The promises of the signaling client: the invariant that ties pending requests, their timers
  and their promises together, and the properties of requests and connections that rest on it.
\<close>

section \<open>Requests\<close>

definition request_inv :: "'h client \<Rightarrow> bool" where
  "request_inv c \<longleftrightarrow> distinct (cl_pending c) \<and>
     (\<forall>i. i \<in> set (cl_pending c) \<longleftrightarrow> (\<exists>r. cl_requests c i = Some r \<and> rq_timer r)) \<and>
     (\<forall>i r. cl_requests c i = Some r \<longrightarrow> rq_timer r \<longrightarrow> rq_promise r = Pending)"

text \<open>
  How a step changes the requests: not at all, one request is added, one is taken out of the
  pending ones with its promise settled or not, or all pending ones are rejected.
\<close>

inductive request_change :: "'h client \<Rightarrow> 'h client \<Rightarrow> bool" for c where
  keep: "cl_requests d = cl_requests c \<Longrightarrow> cl_pending d = cl_pending c \<Longrightarrow> request_change c d"
| issue: "cl_requests c i = None \<Longrightarrow> cl_requests d = (cl_requests c)(i \<mapsto> \<lparr>rq_type = typ, rq_promise = Pending, rq_timer = True\<rparr>) \<Longrightarrow>
    cl_pending d = (if i \<in> set (cl_pending c) then cl_pending c else cl_pending c @ [i]) \<Longrightarrow> request_change c d"
| reject: "cl_requests c i = None \<Longrightarrow> cl_requests d = (cl_requests c)(i \<mapsto> r) \<Longrightarrow> rq_promise r \<noteq> Pending \<Longrightarrow> \<not> rq_timer r \<Longrightarrow>
    cl_pending d = (if i \<in> set (cl_pending c) then remove1 i (cl_pending c) else cl_pending c) \<Longrightarrow> request_change c d"
| answer: "i \<in> set (cl_pending c) \<or> (\<exists>r. cl_requests c i = Some r \<and> rq_timer r) \<Longrightarrow> cl_requests d = (cl_requests c)(i := map_option f (cl_requests c i)) \<Longrightarrow> cl_pending d = remove1 i (cl_pending c) \<Longrightarrow>
    (\<And>r. \<not> rq_timer (f r)) \<Longrightarrow> (\<And>r. rq_promise r \<noteq> Pending \<Longrightarrow> rq_promise (f r) = rq_promise r) \<Longrightarrow> request_change c d"
| reject_all: "cl_requests d = (\<lambda>i. if i \<in> set (cl_pending c) then map_option (finish (Rejected v)) (cl_requests c i) else cl_requests c i) \<Longrightarrow>
    cl_pending d = [] \<Longrightarrow> request_change c d"

lemma with_socket_requests [simp]: "cl_requests (with_socket n f c) = cl_requests c" "cl_pending (with_socket n f c) = cl_pending c"
  by (simp_all add: with_socket_def)

lemma disconnect_requests [simp]: "cl_requests (disconnect c) = cl_requests c" "cl_pending (disconnect c) = cl_pending c"
  by (simp_all add: disconnect_def Let_def split: option.split)

lemma client_emit_update: "cl_listeners c = cl_listeners d \<Longrightarrow> client_emit c t v = client_emit d t v"
  by (cases t) (simp_all add: client_calls_def)

lemma finish_timer [simp]: "\<not> rq_timer (finish v r)"
  and finish_promise: "rq_promise (finish v r) = settle (rq_promise r) v"
  by (simp_all add: finish_def settle_request_def)

lemma client_ready_requests [simp]:
  "client_ready (c\<lparr>cl_requests := q, cl_pending := p\<rparr>) = client_ready c"
  by (simp add: client_ready_def split: option.split)

lemma sendRequest_change:
  assumes "cl_requests c i = None" and "sendRequest c i typ payload = (d, out)"
  shows "request_change c d"
proof (cases "client_ready c = Some OPEN")
  case True
  with assms show ?thesis
    by (intro issue [of c i]) (auto simp: sendRequest_def client_send_def Let_def)
next
  case False
  with assms show ?thesis
    by (intro reject [of c i]) (auto simp: sendRequest_def client_send_def Let_def
        with_request_def drop_pending_def remove1_append finish_def settle_request_def)
qed

text \<open>What a message does to the request whose id it carries.\<close>

definition answered :: "jsval \<Rightarrow> request \<Rightarrow> request" where
  "answered msg =
     (let typ = get_prop msg (js ''type''); payload = get_prop msg (js ''payload'') in
      if typ = Str (js ''error'') then
        if nullish payload then (\<lambda>r. r\<lparr>rq_timer := False\<rparr>) else finish (Rejected (get_prop payload (js ''message'')))
      else finish (Resolved payload))"

lemma with_request_twice: "with_request i f (with_request i g c) = with_request i (f \<circ> g) c"
  by (simp add: with_request_def option.map_comp)

lemma settle_cleared: "settle_request v \<circ> (\<lambda>r. r\<lparr>rq_timer := False\<rparr>) = finish v"
  by (simp add: finish_def fun_eq_iff)

lemma handleMessage_state:
  "fst (handleMessage c msg) =
     (case (if nullish msg then None else pending_request c (get_prop msg (js ''requestId''))) of
        None \<Rightarrow> c | Some i \<Rightarrow> with_request i (answered msg) (drop_pending i c))"
  by (simp add: handleMessage_def Let_def answered_def with_request_twice settle_cleared split: option.split)

lemma answered_timer [simp]: "\<not> rq_timer (answered msg r)"
  and answered_settled: "rq_promise r \<noteq> Pending \<Longrightarrow> rq_promise (answered msg r) = rq_promise r"
  by (simp_all add: answered_def Let_def finish_promise)

lemma answer_change:
  assumes "\<And>r. \<not> rq_timer (f r)" and "\<And>r. rq_promise r \<noteq> Pending \<Longrightarrow> rq_promise (f r) = rq_promise r"
    and "i \<in> set (cl_pending c) \<or> (\<exists>r. cl_requests c i = Some r \<and> rq_timer r)"
  shows "request_change c (with_request i f (drop_pending i c))"
  by (rule answer [where f = f and i = i]) (simp_all add: with_request_def drop_pending_def assms)

lemma pending_request_Some: "pending_request c v = Some i \<Longrightarrow> v = Str i \<and> i \<in> set (cl_pending c)"
  by (cases v) (auto split: if_splits)

lemma handleMessage_change: "handleMessage c msg = (d, out) \<Longrightarrow> request_change c d"
  using handleMessage_state [of c msg]
  by (auto intro: keep answer_change answered_settled dest: pending_request_Some split: option.splits)

lemma step_request_change: "client_step c (ev, out) d \<Longrightarrow> request_change c d"
proof (induction c "(ev, out)" d rule: client_step.induct)
  case received
  then show ?case by (auto simp: onmessage_def intro: keep handleMessage_change split: option.splits)
next
  case closed
  then show ?case by (auto simp: onclose_def Let_def intro!: reject_all [where v = "Str (js ''Connection closed'')"])
next
  case ask
  then show ?case by (auto intro: sendRequest_change)
next
  case ask_timer
  then show ?case
    by (simp add: request_timeout_def answer_change finish_promise)
qed (auto intro!: keep simp: client_connect_def connect_timeout_def onopen_def onerror_def client_on_def client_off_def)

lemma request_change_inv: "request_change c d \<Longrightarrow> request_inv c \<Longrightarrow> request_inv d"
proof (induction rule: request_change.induct)
  case (answer d i f)
  then show ?case by (auto simp: request_inv_def map_option_case split: option.splits if_splits)
qed (auto simp: request_inv_def split: if_splits)

definition outcome_of :: "'h client \<Rightarrow> jstring \<Rightarrow> outcome option" where
  "outcome_of c i = map_option rq_promise (cl_requests c i)"

lemma outcome_stable:
  "request_change c d \<Longrightarrow> outcome_of c i = Some v \<Longrightarrow> v \<noteq> Pending \<or> i \<notin> set (cl_pending c) \<Longrightarrow> request_inv c \<Longrightarrow>
   i \<notin> set (cl_pending d) \<and> outcome_of d i = Some v"
proof (induction rule: request_change.induct)
  case (answer d j f)
  then show ?case
    by (auto simp: outcome_of_def request_inv_def map_option_case split: option.splits if_splits)
qed (auto simp: outcome_of_def request_inv_def finish_promise split: if_splits)

lemma outcome_stable_run:
  "execution client_step c ls d \<Longrightarrow> outcome_of c i = Some v \<Longrightarrow> v \<noteq> Pending \<or> i \<notin> set (cl_pending c) \<Longrightarrow> request_inv c \<Longrightarrow>
   i \<notin> set (cl_pending d) \<and> outcome_of d i = Some v"
proof (induction rule: execution.induct)
  case (execution_cons c l e ls d)
  obtain ev out where "l = (ev, out)" by force
  with execution_cons have change: "request_change c e" by (simp add: step_request_change)
  from outcome_stable [OF this execution_cons.prems] have "i \<notin> set (cl_pending e) \<and> outcome_of e i = Some v" .
  moreover have "request_inv e" by (rule request_change_inv [OF change execution_cons.prems(3)])
  ultimately show ?case using execution_cons.IH by blast
next
  case (execution_nil c)
  then show ?case by (auto simp: request_inv_def outcome_of_def)
qed

section \<open>Connections\<close>

definition socket_ok :: "socket \<Rightarrow> bool" where
  "socket_ok s \<longleftrightarrow> (so_promise s = Pending \<longrightarrow> so_timer s) \<and> (so_timer s \<longrightarrow> so_promise s = Pending) \<and>
     (so_promise s = Pending \<longrightarrow> so_ready s = CONNECTING \<or> so_ready s = CLOSING)"

definition socket_inv :: "'h client \<Rightarrow> bool" where
  "socket_inv c \<longleftrightarrow> (\<forall>n s. cl_sockets c n = Some s \<longrightarrow> socket_ok s) \<and> (\<forall>n. cl_ws c = Some n \<longrightarrow> cl_sockets c n \<noteq> None)"

lemma settle_not_Pending [simp]: "v \<noteq> Pending \<Longrightarrow> settle u v \<noteq> Pending" "v \<noteq> Pending \<Longrightarrow> Pending \<noteq> settle u v"
  by (simp_all add: settle_def)

lemma with_socket_inv:
  "socket_inv c \<Longrightarrow> (\<And>s. cl_sockets c n = Some s \<Longrightarrow> socket_ok s \<Longrightarrow> socket_ok (f s)) \<Longrightarrow> socket_inv (with_socket n f c)"
  by (auto simp: socket_inv_def with_socket_def)

lemma socket_inv_cong: "cl_sockets d = cl_sockets c \<Longrightarrow> cl_ws d = cl_ws c \<Longrightarrow> socket_inv c \<Longrightarrow> socket_inv d"
  by (simp add: socket_inv_def)

lemma close_ready_ok: "socket_ok s \<Longrightarrow> socket_ok (s\<lparr>so_ready := close_ready (so_ready s)\<rparr>)"
  by (cases "so_ready s") (auto simp: socket_ok_def)

lemma disconnect_inv: "socket_inv c \<Longrightarrow> socket_inv (disconnect c)"
  by (auto simp: disconnect_def Let_def split: option.split
      intro!: with_socket_inv close_ready_ok elim: socket_inv_cong [rotated 2])

lemma handleMessage_sockets: "cl_sockets (fst (handleMessage c m)) = cl_sockets c" "cl_ws (fst (handleMessage c m)) = cl_ws c"
  by (auto simp: handleMessage_state with_request_def drop_pending_def split: option.split)

lemma onmessage_sockets: "cl_sockets (fst (onmessage c m)) = cl_sockets c" "cl_ws (fst (onmessage c m)) = cl_ws c"
  by (auto simp: onmessage_def handleMessage_sockets split: option.split)

lemma sendRequest_sockets: "cl_sockets (fst (sendRequest c i t p)) = cl_sockets c" "cl_ws (fst (sendRequest c i t p)) = cl_ws c"
  by (auto simp: sendRequest_def with_request_def drop_pending_def Let_def split: sum.split)

lemma step_socket_inv: "client_step c (ev, out) d \<Longrightarrow> socket_inv c \<Longrightarrow> socket_inv d"
proof (induction c "(ev, out)" d rule: client_step.induct)
  case (received c n s data d)
  then show ?case
    using onmessage_sockets [of c data] by (auto elim: socket_inv_cong [rotated 2])
next
  case (ask c i ty payload d)
  then show ?case using sendRequest_sockets [of c i ty payload] by (auto elim: socket_inv_cong [rotated 2])
next
  case (closed c n s d)
  let ?f = "\<lambda>s. s\<lparr>so_ready := CLOSED, so_timer := False, so_promise := settle (so_promise s) (Rejected (Str (js ''Connection closed'')))\<rparr>"
  from closed have "socket_inv (with_socket n ?f c)" by (auto intro: with_socket_inv simp: socket_ok_def)
  with closed show ?case by (auto simp: onclose_def Let_def elim: socket_inv_cong [rotated 2])
next
  case (dial_timer c n s)
  then show ?case
    unfolding connect_timeout_def by (intro disconnect_inv with_socket_inv) (auto simp: socket_ok_def)
next
  case (dial c n)
  then show ?case by (auto simp: client_connect_def socket_inv_def socket_ok_def)
qed (auto simp: onopen_def onerror_def client_on_def client_off_def request_timeout_def with_request_def drop_pending_def
    intro!: with_socket_inv disconnect_inv simp: socket_ok_def elim: socket_inv_cong [rotated 2])

section \<open>The machine\<close>

text \<open>
  An error frame carries a payload. \<open>server.js\<close> sends no other; the last property below says
  what one without a payload would do.
\<close>

definition frame_ok :: "jsval \<Rightarrow> bool" where
  "frame_ok msg \<longleftrightarrow> get_prop msg (js ''type'') = Str (js ''error'') \<longrightarrow> \<not> nullish (get_prop msg (js ''payload''))"

fun event_ok :: "'h client_event \<Rightarrow> bool" where
  "event_ok (Received n (Some msg)) = frame_ok msg"
| "event_ok ev = True"

definition good_step :: "'h client \<Rightarrow> 'h client_event \<times> 'h client_out list \<Rightarrow> 'h client \<Rightarrow> bool" where
  "good_step c l d \<longleftrightarrow> client_step c l d \<and> event_ok (fst l)"

definition client_reachable :: "'h client \<Rightarrow> bool" where
  "client_reachable = reachable (\<lambda>c. c = new_SignalingClient) good_step"

definition client_inv :: "'h client \<Rightarrow> bool" where
  "client_inv c \<longleftrightarrow> request_inv c \<and> socket_inv c \<and> (\<forall>i. outcome_of c i = Some Pending \<longrightarrow> i \<in> set (cl_pending c))"

lemma nullish_Obj [simp]: "\<not> nullish (Obj ps)"
  by (simp add: nullish_def)

lemma answered_ok: "frame_ok msg \<Longrightarrow> rq_promise (answered msg r) \<noteq> Pending"
  by (simp add: frame_ok_def answered_def Let_def finish_promise)

lemma handleMessage_none_lost:
  "frame_ok msg \<Longrightarrow> \<forall>i. outcome_of c i = Some Pending \<longrightarrow> i \<in> set (cl_pending c) \<Longrightarrow> handleMessage c msg = (d, out) \<Longrightarrow>
   outcome_of d i = Some Pending \<Longrightarrow> i \<in> set (cl_pending d)"
  using handleMessage_state [of c msg] answered_ok [of msg]
  by (auto simp: outcome_of_def with_request_def drop_pending_def split: option.splits if_splits)

lemma none_lost:
  "client_step c (ev, out) d \<Longrightarrow> event_ok ev \<Longrightarrow> \<forall>i. outcome_of c i = Some Pending \<longrightarrow> i \<in> set (cl_pending c) \<Longrightarrow>
   outcome_of d i = Some Pending \<Longrightarrow> i \<in> set (cl_pending d)"
proof (induction c "(ev, out)" d rule: client_step.induct)
  case (received c n s data d)
  then show ?case by (cases data) (auto simp: onmessage_def intro: handleMessage_none_lost)
next
  case (closed c n s d)
  then show ?case by (auto simp: onclose_def Let_def outcome_of_def finish_promise split: if_splits)
next
  case (ask c j ty payload d)
  then show ?case
    by (auto simp: sendRequest_def client_send_def Let_def outcome_of_def with_request_def drop_pending_def finish_promise
        split: if_splits)
next
  case (ask_timer c j r)
  then show ?case
    by (auto simp: request_timeout_def outcome_of_def with_request_def drop_pending_def finish_promise split: if_splits)
qed (auto simp: outcome_of_def client_connect_def connect_timeout_def onopen_def onerror_def client_on_def client_off_def)

interpretation client_machine: machine "\<lambda>c. c = new_SignalingClient" good_step client_inv
proof
  fix c d :: "'h client" and l
  assume inv: "client_inv c" and stp: "good_step c l d"
  obtain ev out where l: "l = (ev, out)" by force
  with stp have cs: "client_step c (ev, out) d" and ok: "event_ok ev" by (simp_all add: good_step_def)
  from request_change_inv [OF step_request_change [OF cs]] step_socket_inv [OF cs] none_lost [OF cs ok] inv
  show "client_inv d" by (simp add: client_inv_def)
qed (simp add: client_inv_def request_inv_def socket_inv_def outcome_of_def new_SignalingClient_def)

lemma client_reachable_inv: "client_reachable c \<Longrightarrow> client_inv c"
  unfolding client_reachable_def by (rule client_machine.reach_inv)

lemma client_reachable_step: "client_reachable c \<Longrightarrow> client_step c (ev, out) d \<Longrightarrow> event_ok ev \<Longrightarrow> client_reachable d"
  unfolding client_reachable_def by (rule reachable_step [where l = "(ev, out)"]) (simp_all add: good_step_def)

lemma client_reachable_new: "client_reachable new_SignalingClient"
  unfolding client_reachable_def by (rule reachable_start) simp

section \<open>A client that hung up\<close>

text \<open>Once its sockets are closing or closed and it does not dial again, a client gets no answer any more:
  whatever was waiting is rejected if it settles at all.\<close>

definition hung_up :: "'h client \<Rightarrow> bool" where
  "hung_up c \<longleftrightarrow> (\<forall>n s. cl_sockets c n = Some s \<longrightarrow> so_ready s \<noteq> CONNECTING \<and> so_ready s \<noteq> OPEN)"

lemma hung_up_rejects:
  assumes "client_step c (ev, out) d" and "hung_up c" and "\<And>n. ev \<noteq> Dial n"
  shows "hung_up d" and "outcome_of c i = Some Pending \<Longrightarrow> outcome_of d i \<noteq> Some (Resolved v)"
    and "cl_sockets c n = Some s \<Longrightarrow> so_promise s = Pending \<Longrightarrow> cl_sockets d n = Some s' \<Longrightarrow> so_promise s' \<noteq> Resolved v"
proof -
  have "hung_up d \<and> (outcome_of c i = Some Pending \<longrightarrow> outcome_of d i \<noteq> Some (Resolved v)) \<and>
    (cl_sockets c n = Some s \<longrightarrow> so_promise s = Pending \<longrightarrow> cl_sockets d n = Some s' \<longrightarrow> so_promise s' \<noteq> Resolved v)"
    using assms
  proof (induction c "(ev, out)" d rule: client_step.induct)
    case (ask c j ty payload d)
    then show ?case
      by (auto simp: sendRequest_def client_send_def Let_def hung_up_def outcome_of_def with_request_def drop_pending_def
          finish_promise split: if_splits)
  next
    case (ask_timer c j r)
    then show ?case
      by (auto simp: request_timeout_def with_request_def drop_pending_def hung_up_def outcome_of_def finish_promise)
  next
    case (closed c m s d)
    then show ?case
      by (auto simp: onclose_def Let_def hung_up_def with_socket_def outcome_of_def finish_promise split: if_splits)
  next
    case (hang_up c)
    then show ?case
      by (auto simp: hung_up_def disconnect_def with_socket_def outcome_of_def Let_def split: option.splits)
  next
    case (dial_timer c m s)
    then show ?case
      by (auto simp: connect_timeout_def hung_up_def disconnect_def with_socket_def outcome_of_def Let_def split: option.splits if_splits)
  qed (auto simp: hung_up_def onerror_def with_socket_def outcome_of_def client_on_def client_off_def)
  then show "hung_up d" and "outcome_of c i = Some Pending \<Longrightarrow> outcome_of d i \<noteq> Some (Resolved v)"
    and "cl_sockets c n = Some s \<Longrightarrow> so_promise s = Pending \<Longrightarrow> cl_sockets d n = Some s' \<Longrightarrow> so_promise s' \<noteq> Resolved v"
    by blast+
qed

section \<open>A client to run\<close>

text \<open>One client with a listener for errors, connected, with a join request under way.\<close>

definition demo_waiting :: "nat client" where
  "demo_waiting = \<lparr>cl_ws = Some 10, cl_sockets = [10 \<mapsto> \<lparr>so_ready = OPEN, so_promise = Resolved Undefined, so_timer = False\<rparr>],
     cl_listeners = [(js ''error'', [7])], cl_pending = [js ''r1''],
     cl_requests = [js ''r1'' \<mapsto> \<lparr>rq_type = js ''room.join'', rq_promise = Pending, rq_timer = True\<rparr>],
     cl_isIntentionalClose = False\<rparr>"

lemma demo_waiting_reachable: "client_reachable demo_waiting"
proof -
  let ?c1 = "client_on (new_SignalingClient :: nat client) (js ''error'') 7"
  let ?c2 = "client_connect 10 ?c1" let ?c3 = "onopen 10 ?c2"
  have "client_reachable ?c1" by (rule client_reachable_step [OF client_reachable_new listen]) simp
  then have "client_reachable ?c2"
    by (rule client_reachable_step [OF _ dial]) (simp_all add: client_on_def new_SignalingClient_def)
  then have "client_reachable ?c3"
    by (rule client_reachable_step [OF _ opened]) (auto simp: client_connect_def)
  then have "client_reachable (fst (sendRequest ?c3 (js ''r1'') (js ''room.join'') (Obj [])))"
    by (rule client_reachable_step [OF _ ask [OF _ surjective_pairing]])
      (simp_all add: onopen_def with_socket_def client_connect_def client_on_def new_SignalingClient_def)
  moreover have "fst (sendRequest ?c3 (js ''r1'') (js ''room.join'') (Obj [])) = demo_waiting"
    by (simp add: sendRequest_def client_send_def client_ready_def onopen_def with_socket_def client_connect_def
        client_on_def new_SignalingClient_def demo_waiting_def listener_on_def Let_def)
  ultimately show ?thesis by simp
qed

section \<open>Properties\<close>

text \<open>C12. No request is left hanging: as long as it has no outcome its timer runs, and the timer can
  fire and rejects it as timed out.\<close>

theorem no_request_hangs:
  assumes "client_reachable c" and "outcome_of c i = Some Pending"
  shows "i \<in> set (cl_pending c) \<and> (\<exists>d r. client_step c (AskTimer i, []) d \<and> cl_requests c i = Some r \<and>
    outcome_of d i = Some (Rejected (Str (js ''Request '' @ rq_type r @ js '' timed out''))))"
proof -
  from client_reachable_inv [OF assms(1)] assms(2) have pending: "i \<in> set (cl_pending c)" and "request_inv c"
    by (simp_all add: client_inv_def)
  then obtain r where r: "cl_requests c i = Some r" "rq_timer r" by (auto simp: request_inv_def)
  moreover have "rq_promise r = Pending" using assms(2) r(1) by (simp add: outcome_of_def)
  ultimately have "outcome_of (request_timeout i c) i = Some (Rejected (Str (js ''Request '' @ rq_type r @ js '' timed out'')))"
    by (simp add: outcome_of_def request_timeout_def with_request_def drop_pending_def finish_promise)
  with pending r show ?thesis using ask_timer by blast
qed

theorem no_request_hangs_witness: "js ''r1'' \<in> set (cl_pending demo_waiting)"
  using no_request_hangs [OF demo_waiting_reachable, of "js ''r1''"] by (simp add: demo_waiting_def outcome_of_def)

text \<open>C27. A message that carries the id of a pending request settles that request and no other: an
  error rejects it with the message of the payload, anything else resolves it with the payload. Its
  timer is cleared, it is no longer pending, and nothing about any other request changes, its timer
  included. Then the listeners of the type are called with the payload, as they are for a message
  that answers nothing.\<close>

theorem message_settles_request:
  assumes "client_reachable c" and "frame_ok msg" and "\<not> nullish msg"
    and "get_prop msg (js ''requestId'') = Str i" and "i \<in> set (cl_pending c)" and "onmessage c (Some msg) = (d, out)"
  shows "outcome_of d = (outcome_of c)(i \<mapsto>
      if get_prop msg (js ''type'') = Str (js ''error'') then Rejected (msg_field msg ''message'')
      else Resolved (get_prop msg (js ''payload''))) \<and>
    (\<exists>r. cl_requests c i = Some r \<and> rq_timer r) \<and> (\<exists>r. cl_requests d i = Some r \<and> \<not> rq_timer r) \<and>
    (\<exists>r. cl_requests d = (cl_requests c)(i \<mapsto> r)) \<and> cl_pending d = remove1 i (cl_pending c) \<and>
    out = client_emit c (get_prop msg (js ''type'')) (get_prop msg (js ''payload''))"
proof (intro conjI)
  from client_reachable_inv [OF assms(1)] assms(5)
  obtain r where r: "cl_requests c i = Some r" "rq_timer r" "rq_promise r = Pending"
    unfolding client_inv_def request_inv_def by blast
  from r show "\<exists>r. cl_requests c i = Some r \<and> rq_timer r" by blast
  have d: "d = with_request i (answered msg) (drop_pending i c)"
    using handleMessage_state [of c msg] assms(3-6) by (simp add: onmessage_def)
  with r have "cl_requests d = (cl_requests c)(i \<mapsto> answered msg r)"
    by (simp add: with_request_def drop_pending_def)
  then show "\<exists>r. cl_requests d = (cl_requests c)(i \<mapsto> r)" "\<exists>r. cl_requests d i = Some r \<and> \<not> rq_timer r"
    by auto
  from d show "cl_pending d = remove1 i (cl_pending c)" by (simp add: with_request_def drop_pending_def)
  from d r assms(2) show "outcome_of d = (outcome_of c)(i \<mapsto>
      if get_prop msg (js ''type'') = Str (js ''error'') then Rejected (msg_field msg ''message'')
      else Resolved (get_prop msg (js ''payload'')))"
    by (auto simp: outcome_of_def with_request_def drop_pending_def answered_def finish_promise frame_ok_def
        msg_field_def fun_eq_iff Let_def)
  from assms show "out = client_emit c (get_prop msg (js ''type'')) (get_prop msg (js ''payload''))"
    by (auto simp: onmessage_def handleMessage_def frame_ok_def Let_def with_request_def drop_pending_def
        client_calls_def split: if_splits intro!: client_emit_update)
qed

definition demo_answer :: jsval where
  "demo_answer = wire (envelope (js ''error'') (Obj [(js ''message'', Str (js ''Room is full''))]) (Str (js ''r1'')))"

lemma demo_answer_props:
  "get_prop demo_answer (js ''type'') = Str (js ''error'')" "get_prop demo_answer (js ''requestId'') = Str (js ''r1'')"
  "get_prop demo_answer (js ''payload'') = Obj [(js ''message'', Str (js ''Room is full''))]"
  by (simp_all add: demo_answer_def get_prop_wire_envelope)

lemma nullish_no_prop: "get_prop m k \<noteq> Undefined \<Longrightarrow> \<not> nullish m"
  by (auto simp: nullish_def get_prop.simps)

lemma demo_answer_some: "\<not> nullish demo_answer"
  by (rule nullish_no_prop [where k = "js ''type''"]) (simp add: demo_answer_props)

lemma demo_answer_ok: "frame_ok demo_answer"
  by (simp add: frame_ok_def demo_answer_props nullish_def)

theorem message_settles_request_witness:
  "outcome_of (fst (onmessage demo_waiting (Some demo_answer))) (js ''r1'') = Some (Rejected (Str (js ''Room is full'')))"
  using message_settles_request [OF demo_waiting_reachable demo_answer_ok demo_answer_some demo_answer_props(2) _ surjective_pairing]
  by (simp add: demo_waiting_def demo_answer_props msg_field_def get_prop.simps)

text \<open>C28. When a socket closes nothing is left waiting. Every request that had no outcome is rejected as
  closed, and only those; none is pending and no timer of a request runs. The promise of \<open>connect\<close>
  for that socket is rejected as closed unless it had settled before. The \<open>disconnected\<close> listeners
  are told unless the client hung up itself.\<close>

theorem close_settles_everything:
  assumes "client_reachable c" and "client_step c (Closed n, out) d"
  shows "cl_pending d = [] \<and>
    outcome_of d = (\<lambda>i. if outcome_of c i = Some Pending then Some (Rejected (Str (js ''Connection closed'')))
      else outcome_of c i) \<and>
    (\<forall>i r. cl_requests d i = Some r \<longrightarrow> \<not> rq_timer r) \<and>
    (\<exists>s s'. cl_sockets c n = Some s \<and> cl_sockets d n = Some s' \<and> so_ready s' = CLOSED \<and> \<not> so_timer s' \<and>
      so_promise s' = (if so_promise s = Pending then Rejected (Str (js ''Connection closed'')) else so_promise s)) \<and>
    out = (if cl_isIntentionalClose c then []
           else map (\<lambda>h. CallListener h (Obj [])) (client_calls c (js ''disconnected'')))"
proof -
  have d: "onclose n c = (d, out)" and s: "cl_sockets c n \<noteq> None"
    using assms(2) by (auto elim: closed_stepE)
  from d have requests: "cl_requests d = (\<lambda>i. if i \<in> set (cl_pending c)
      then map_option (finish (Rejected (Str (js ''Connection closed'')))) (cl_requests c i) else cl_requests c i)"
    by (auto simp: onclose_def Let_def)
  have inv: "client_inv c" by (rule client_reachable_inv [OF assms(1)])
  then have waiting: "i \<in> set (cl_pending c) \<longleftrightarrow> outcome_of c i = Some Pending" for i
    unfolding client_inv_def request_inv_def outcome_of_def by auto
  have "outcome_of d i = (if outcome_of c i = Some Pending then Some (Rejected (Str (js ''Connection closed'')))
      else outcome_of c i)" for i
    using waiting [of i] by (auto simp: outcome_of_def requests finish_promise settle_def)
  moreover have "\<not> rq_timer r" if "cl_requests d i = Some r" for i r
    using inv that by (cases "i \<in> set (cl_pending c)") (auto simp: requests client_inv_def request_inv_def)
  moreover from d have "cl_pending d = []" by (auto simp: onclose_def Let_def)
  ultimately show ?thesis using d s
    by (auto simp: onclose_def Let_def with_socket_def client_calls_def settle_def)
qed

theorem close_settles_everything_witness:
  "outcome_of (fst (onclose 10 demo_waiting)) (js ''r1'') = Some (Rejected (Str (js ''Connection closed'')))"
proof -
  have "client_step demo_waiting (Closed 10, snd (onclose 10 demo_waiting)) (fst (onclose 10 demo_waiting))"
    by (rule closed [OF _ _ surjective_pairing]) (auto simp: demo_waiting_def)
  from close_settles_everything [OF demo_waiting_reachable this] show ?thesis
    by (simp add: outcome_of_def demo_waiting_def)
qed

text \<open>C29. \<open>connect\<close> cannot hang either: a socket whose promise has no outcome is connecting or closing
  and its timer runs; when the timer fires, the promise is rejected and the client's socket is closed.\<close>

theorem connect_never_hangs:
  assumes "client_reachable c" and "cl_sockets c n = Some s" and "so_promise s = Pending"
  shows "so_ready s \<in> {CONNECTING, CLOSING} \<and> (\<exists>s'. client_step c (DialTimer n, []) (connect_timeout n c) \<and>
    cl_sockets (connect_timeout n c) n = Some s' \<and> so_promise s' = Rejected (Str (js ''Connection timed out'')) \<and>
    \<not> so_timer s' \<and> client_ready (connect_timeout n c) \<noteq> Some OPEN)"
proof -
  from client_reachable_inv [OF assms(1)] assms(2) have "socket_ok s" by (simp add: client_inv_def socket_inv_def)
  with assms(3) have timer: "so_timer s" and ready: "so_ready s \<in> {CONNECTING, CLOSING}"
    by (auto simp: socket_ok_def)
  note stp = dial_timer [OF assms(2) timer]
  have "\<exists>s'. cl_sockets (connect_timeout n c) n = Some s' \<and>
      so_promise s' = Rejected (Str (js ''Connection timed out'')) \<and> \<not> so_timer s'"
    using assms(2,3) by (auto simp: connect_timeout_def disconnect_def with_socket_def Let_def split: option.split)
  moreover have "client_ready (connect_timeout n c) \<noteq> Some OPEN"
    by (auto simp: connect_timeout_def disconnect_def with_socket_def client_ready_def Let_def split: option.splits)
  ultimately show ?thesis using stp ready by blast
qed

theorem connect_never_hangs_witness:
  "client_ready (connect_timeout 10 (client_connect 10 (new_SignalingClient :: nat client))) \<noteq> Some OPEN"
proof -
  let ?c = "client_connect 10 (new_SignalingClient :: nat client)"
  have "client_step (new_SignalingClient :: nat client) (Dial 10, []) ?c"
    by (rule dial) (simp add: new_SignalingClient_def)
  then have "client_reachable ?c" by (rule client_reachable_step [OF client_reachable_new]) simp
  from connect_never_hangs [OF this, of 10 "\<lparr>so_ready = CONNECTING, so_promise = Pending, so_timer = True\<rparr>"]
  show ?thesis unfolding client_connect_def by simp blast
qed

text \<open>An error frame without a payload loses the request it answers: its entry and its timer are gone
  but its promise never settles, whatever happens later.\<close>

theorem error_without_payload_hangs:
  assumes "client_reachable c" and "client_step c (Received n (Some msg), out) d"
    and "get_prop msg (js ''type'') = Str (js ''error'')" and "nullish (get_prop msg (js ''payload''))"
    and "get_prop msg (js ''requestId'') = Str i" and "i \<in> set (cl_pending c)" and "execution client_step d ls e"
  shows "outcome_of e i = Some Pending \<and> i \<notin> set (cl_pending e)"
proof -
  from client_reachable_inv [OF assms(1)] have inv: "request_inv c" by (simp add: client_inv_def)
  with assms(6) obtain r where r: "cl_requests c i = Some r" "rq_promise r = Pending"
    unfolding request_inv_def by blast
  have "\<not> nullish msg" using assms(5) by (auto simp: nullish_def get_prop.simps)
  then have d: "d = with_request i (answered msg) (drop_pending i c)"
    using handleMessage_state [of c msg] assms(2,5,6) by (auto elim!: received_stepE simp: onmessage_def)
  have "outcome_of d i = Some Pending" using r assms(3,4) by (simp add: d outcome_of_def with_request_def drop_pending_def answered_def)
  moreover have "i \<notin> set (cl_pending d)" using inv by (simp add: d with_request_def drop_pending_def request_inv_def)
  moreover have "request_inv d" by (rule request_change_inv [OF step_request_change [OF assms(2)] inv])
  ultimately show ?thesis using outcome_stable_run [OF assms(7)] by blast
qed

definition demo_bare_error :: jsval where
  "demo_bare_error = Obj [(js ''type'', Str (js ''error'')), (js ''requestId'', Str (js ''r1''))]"

theorem error_without_payload_hangs_witness:
  "outcome_of (fst (onmessage demo_waiting (Some demo_bare_error))) (js ''r1'') = Some Pending"
proof -
  let ?d = "fst (onmessage demo_waiting (Some demo_bare_error))"
  have "client_step demo_waiting (Received 10 (Some demo_bare_error), snd (onmessage demo_waiting (Some demo_bare_error))) ?d"
    by (rule received [OF _ _ surjective_pairing]) (auto simp: demo_waiting_def)
  from error_without_payload_hangs [OF demo_waiting_reachable this _ _ _ _ execution_nil, of "js ''r1''"] show ?thesis
    by (simp add: demo_bare_error_def demo_waiting_def nullish_def get_prop.simps)
qed

end
