(* ===== verification/RoomState.thy ===== *)
theory RoomState
  imports Emitter
begin

text \<open>
  \<open>client/js/room.js\<close>: the class \<open>RoomState\<close>, which the client keeps of the room it is in.
  A participant is the object the server sent; its id keys the Map. An operation that emits
  returns the calls of the listeners, with the event's data, after the new state; a
  listener is taken to return.
\<close>

record 'h room_state =
  rs_localParticipantId :: jsval
  rs_roomId :: jsval
  rs_participants :: "(jsval \<times> jsval) list"
  rs_videoTiles :: "(jsval \<times> jsval) list"
  rs_listeners :: "'h listeners"

definition new_RoomState :: "'h room_state" where
  "new_RoomState = \<lparr>rs_localParticipantId = Null, rs_roomId = Null, rs_participants = [],
     rs_videoTiles = [], rs_listeners = []\<rparr>"

definition setLocalInfo :: "'h room_state \<Rightarrow> jsval \<Rightarrow> jsval \<Rightarrow> 'h room_state" where
  "setLocalInfo r roomId participantId = r\<lparr>rs_roomId := roomId, rs_localParticipantId := participantId\<rparr>"

definition room_emit :: "'h room_state \<Rightarrow> jstring \<Rightarrow> jsval \<Rightarrow> ('h \<times> jsval) list" where
  "room_emit r event data = map (\<lambda>cb. (cb, data)) (listener_calls (rs_listeners r) event)"

definition room_on :: "'h room_state \<Rightarrow> jstring \<Rightarrow> 'h \<Rightarrow> 'h room_state" where
  "room_on r event cb = r\<lparr>rs_listeners := listener_on (rs_listeners r) event cb\<rparr>"

definition addParticipant :: "'h room_state \<Rightarrow> jsval \<Rightarrow> 'h room_state \<times> ('h \<times> jsval) list" where
  "addParticipant r participant =
     (let r1 = r\<lparr>rs_participants := AList.update (get_prop participant (js ''id'')) participant (rs_participants r)\<rparr>
      in (r1, room_emit r1 (js ''participantAdded'') participant))"

definition removeParticipant :: "'h room_state \<Rightarrow> jsval \<Rightarrow> 'h room_state \<times> ('h \<times> jsval) list" where
  "removeParticipant r participantId =
     (if map_of (rs_participants r) participantId \<noteq> None then
        let r1 = r\<lparr>rs_participants := AList.delete participantId (rs_participants r)\<rparr>
        in (r1, room_emit r1 (js ''participantRemoved'') participantId)
      else (r, []))"

definition getParticipant :: "'h room_state \<Rightarrow> jsval \<Rightarrow> jsval option" where
  "getParticipant r participantId = map_of (rs_participants r) participantId"

definition getAllParticipants :: "'h room_state \<Rightarrow> jsval list" where
  "getAllParticipants r = map snd (rs_participants r)"

definition room_clear :: "'h room_state \<Rightarrow> 'h room_state" where
  "room_clear r = r\<lparr>rs_participants := [], rs_videoTiles := [], rs_localParticipantId := Null, rs_roomId := Null\<rparr>"

lemmas room_state_defs = setLocalInfo_def room_emit_def room_on_def addParticipant_def
  removeParticipant_def getParticipant_def getAllParticipants_def room_clear_def

text \<open>Its listener table keeps the contract; it has no \<open>off\<close>.\<close>

interpretation room_events: listening room_on "\<lambda>r. listener_calls (rs_listeners r)" new_RoomState
  by unfold_locales (simp_all add: room_on_def listener_calls_on new_RoomState_def)

section \<open>Properties\<close>

text \<open>The participants are keyed by their own id, without repetition.\<close>

definition room_state_ok :: "'h room_state \<Rightarrow> bool" where
  "room_state_ok r \<longleftrightarrow> distinct (keys_of (rs_participants r)) \<and>
     list_all (\<lambda>(k, p). k = get_prop p (js ''id'')) (rs_participants r)"

lemma room_state_ok_new: "room_state_ok new_RoomState"
  by (simp add: room_state_ok_def new_RoomState_def)

lemma keyed_update: "list_all P m \<Longrightarrow> P (k, v) \<Longrightarrow> list_all P (AList.update k v m)"
  by (induction m) auto

lemma keyed_delete: "list_all P m \<Longrightarrow> list_all P (AList.delete k m)"
  by (induction m) auto

lemma addParticipant_ok: "room_state_ok r \<Longrightarrow> room_state_ok (fst (addParticipant r p))"
  by (simp add: room_state_ok_def addParticipant_def Let_def keyed_update)

lemma removeParticipant_ok: "room_state_ok r \<Longrightarrow> room_state_ok (fst (removeParticipant r i))"
  by (simp add: room_state_ok_def removeParticipant_def Let_def keyed_delete)

lemma room_clear_ok: "room_state_ok (room_clear r)"
  by (simp add: room_state_ok_def room_clear_def)

abbreviation id_of :: "jsval \<Rightarrow> jsval" where
  "id_of p \<equiv> get_prop p (js ''id'')"

lemma keyed_entry: "list_all (\<lambda>(k, p). k = id_of p) m \<Longrightarrow> map (id_of \<circ> snd) m = keys_of m"
  by (induction m) auto

lemma keys_update: "keys_of (AList.update k v m) = (if k \<in> set (keys_of m) then keys_of m else keys_of m @ [k])"
  by (induction m) auto

lemma keyed_delete_values:
  "list_all (\<lambda>(k, p). k = id_of p) m \<Longrightarrow> map snd (AList.delete i m) = filter (\<lambda>p. id_of p \<noteq> i) (map snd m)"
  by (induction m) (auto simp: AList.delete_eq)

lemma participant_ids: "room_state_ok r \<Longrightarrow> map id_of (getAllParticipants r) = keys_of (rs_participants r)"
  by (simp add: room_state_ok_def getAllParticipants_def keyed_entry)

lemma removed_participants:
  "room_state_ok r \<Longrightarrow> getAllParticipants (fst (removeParticipant r i)) = filter (\<lambda>p. id_of p \<noteq> i) (getAllParticipants r)"
proof (cases "map_of (rs_participants r) i")
  case None
  assume ok: "room_state_ok r"
  have "AList.delete i (rs_participants r) = rs_participants r"
    using None by (simp add: delete_idem map_of_eq_None_iff)
  with ok None show ?thesis
    by (simp add: removeParticipant_def getAllParticipants_def room_state_ok_def flip: keyed_delete_values)
qed (simp add: removeParticipant_def getAllParticipants_def room_state_ok_def keyed_delete_values Let_def)

text \<open>Adding a participant makes it the one its id finds, and keeps the place in the list of an
  id that is known and appends a new one. Removing takes the id out and keeps the order of the
  others. The \<open>participantAdded\<close> listeners are each called with the participant, and the
  \<open>participantRemoved\<close> ones with the id, but only if the id was there.\<close>

theorem room_state_updates:
  assumes "room_state_ok r"
  shows "getParticipant (fst (addParticipant r p)) = (getParticipant r)(id_of p \<mapsto> p) \<and>
    map id_of (getAllParticipants (fst (addParticipant r p))) =
      (let ids = map id_of (getAllParticipants r) in if id_of p \<in> set ids then ids else ids @ [id_of p]) \<and>
    getParticipant (fst (removeParticipant r i)) = (getParticipant r)(i := None) \<and>
    getAllParticipants (fst (removeParticipant r i)) = filter (\<lambda>p. id_of p \<noteq> i) (getAllParticipants r) \<and>
    snd (addParticipant r p) = map (\<lambda>h. (h, p)) (listener_calls (rs_listeners r) (js ''participantAdded'')) \<and>
    snd (removeParticipant r i) = (if getParticipant r i = None then []
      else map (\<lambda>h. (h, i)) (listener_calls (rs_listeners r) (js ''participantRemoved'')))"
proof (intro conjI)
  show "map id_of (getAllParticipants (fst (addParticipant r p))) =
      (let ids = map id_of (getAllParticipants r) in if id_of p \<in> set ids then ids else ids @ [id_of p])"
    using participant_ids [OF assms] participant_ids [OF addParticipant_ok [OF assms], of p]
    by (simp add: addParticipant_def keys_update Let_def)
  show "getAllParticipants (fst (removeParticipant r i)) = filter (\<lambda>p. id_of p \<noteq> i) (getAllParticipants r)"
    by (rule removed_participants [OF assms])
qed (auto simp: getParticipant_def addParticipant_def removeParticipant_def room_emit_def Let_def
    map_of_update_eq map_of_delete_eq fun_eq_iff)

theorem room_state_updates_witness:
  "getAllParticipants (fst (removeParticipant (fst (addParticipant (new_RoomState :: nat room_state)
     (Obj [(js ''id'', Str (js ''a''))]))) (Str (js ''b'')))) = [Obj [(js ''id'', Str (js ''a''))]]"
proof -
  let ?r = "fst (addParticipant (new_RoomState :: nat room_state) (Obj [(js ''id'', Str (js ''a''))]))"
  have "getAllParticipants (fst (removeParticipant ?r (Str (js ''b'')))) =
      filter (\<lambda>p. id_of p \<noteq> Str (js ''b'')) (getAllParticipants ?r)"
    using room_state_updates [OF addParticipant_ok [OF room_state_ok_new]] by blast
  then show ?thesis by (simp add: getAllParticipants_def addParticipant_def new_RoomState_def get_prop.simps Let_def)
qed

text \<open>A listener registered with \<open>on\<close>, however often, is called once for each event it was
  registered for, in the order of first registration, and for no other event.\<close>

theorem room_listener_called_once:
  "count_list (listener_calls (rs_listeners (room_events.add_all new_RoomState regs)) event) h =
     (if (event, h) \<in> set regs then 1 else 0)"
  by (rule room_events.called_once)

end
