(* ===== verification/WebRtcSession.thy ===== *)
theory WebRtcSession
  imports JsValues
begin

text \<open>
  \<open>client/js/webrtc.js\<close>: the class \<open>WebRtcSession\<close>. Each peer has a queue of asynchronous
  operations that run one after the other; an operation is cut at its \<open>await\<close>s, so what is left
  of the one under way is a value of \<open>continuation\<close>. The browser's \<open>RTCPeerConnection\<close> is
  outside: calling it is an effect, and what it answers comes with the event that resolves or
  rejects the awaited promise. Its constructor may throw, which ends the operation that wanted the
  connection. Three documented facts of it are built in: the remote description is there once
  \<open>setRemoteDescription\<close> has resolved; nothing resolves or fires on a connection that is closed; and
  \<open>addTransceiver\<close> of an audio or video track or kind throws only on a connection that is closed,
  which one of the Map never is.
\<close>

section \<open>State\<close>

record track =
  tk_id :: nat
  tk_kind :: string

text \<open>An entry of \<open>peers\<close>: whether its connection has a remote description, the candidates kept
  back, and the tracks of its stream. A connection is closed when its entry leaves the Map.\<close>

record peer =
  pe_remote :: bool
  pe_candidates :: "jsval list"
  pe_stream :: "nat list"

text \<open>The operations given to \<open>enqueue\<close>: the offer of \<open>start\<close>, and \<open>handle\<close> for a message.\<close>

datatype operation = Offer | Handle string jsval

text \<open>
  What an operation awaits: the offer or answer it creates, the local description (then it
  sends a message of the given type), the remote description (of an offer or not), a candidate
  added on its own, a candidate of those kept back with the ones that follow, and a track
  replaced with the kinds of the transceivers that follow.
\<close>

datatype continuation =
    AwaitCreate string
  | AwaitLocal string
  | AwaitRemote bool
  | AwaitCandidate
  | AwaitDrain "jsval list" bool
  | AwaitSender "string list"

record session =
  rt_peers :: "(jsval \<times> peer) list"
  rt_queues :: "(jsval \<times> operation list) list"
  rt_running :: "jsval \<rightharpoonup> continuation"
  rt_departed :: "jsval list"
  rt_localStream :: "track list option"
  rt_replacing :: "(track option \<times> track option) list"
  rt_closed :: bool

definition new_session :: session where
  "new_session = \<lparr>rt_peers = [], rt_queues = [], rt_running = Map.empty, rt_departed = [],
     rt_localStream = None, rt_replacing = [], rt_closed = False\<rparr>"

datatype failure = Thrown jsval | TypeError | NotConnected | MediaFailed

datatype call =
    NewConnection jsval
  | AddTransceiver jsval string "track option"
  | Create jsval string
  | SetLocal jsval
  | SetRemote jsval bool jsval
  | AddIce jsval jsval
  | ReplaceSender jsval string "track option"
  | ClosePc jsval
  | Signal string jsval
  | RemoteTrack jsval nat
  | ReportError failure

text \<open>
  What the outside answers when a promise resolves: the \<open>sdp\<close> of the local description, the
  kinds of the transceivers, and whether the signaling socket is open.
\<close>

record answer =
  an_sdp :: jsval
  an_kinds :: "string list"
  an_open :: bool

section \<open>Peers and queues\<close>

definition active :: "session \<Rightarrow> jsval \<Rightarrow> bool" where
  "active s i \<longleftrightarrow> \<not> rt_closed s \<and> i \<notin> set (rt_departed s)"

text \<open>\<open>peer(id)\<close>, where it does not throw: the entry, made with a new connection if it is missing.\<close>

definition ensure_peer :: "session \<Rightarrow> jsval \<Rightarrow> session \<times> peer \<times> call list" where
  "ensure_peer s i =
     (case map_of (rt_peers s) i of
        Some p \<Rightarrow> (s, p, [])
      | None \<Rightarrow>
          let p = \<lparr>pe_remote = False, pe_candidates = [], pe_stream = []\<rparr>
          in (s\<lparr>rt_peers := AList.update i p (rt_peers s)\<rparr>, p, [NewConnection i]))"

definition set_peer :: "jsval \<Rightarrow> peer \<Rightarrow> session \<Rightarrow> session" where
  "set_peer i p s = s\<lparr>rt_peers := AList.update i p (rt_peers s)\<rparr>"

definition queue_of :: "session \<Rightarrow> jsval \<Rightarrow> operation list" where
  "queue_of s i = (case map_of (rt_queues s) i of Some q \<Rightarrow> q | None \<Rightarrow> [])"

definition enqueue :: "session \<Rightarrow> jsval \<Rightarrow> operation \<Rightarrow> session" where
  "enqueue s i op = s\<lparr>rt_queues := AList.update i (queue_of s i @ [op]) (rt_queues s)\<rparr>"

definition dequeue :: "session \<Rightarrow> jsval \<Rightarrow> session" where
  "dequeue s i = s\<lparr>rt_queues := AList.update i (tl (queue_of s i)) (rt_queues s)\<rparr>"

definition await :: "jsval \<Rightarrow> continuation \<Rightarrow> session \<Rightarrow> session" where
  "await i k s = s\<lparr>rt_running := (rt_running s)(i \<mapsto> k)\<rparr>"

definition finished :: "jsval \<Rightarrow> session \<Rightarrow> session" where
  "finished i s = s\<lparr>rt_running := (rt_running s)(i := None)\<rparr>"

text \<open>An operation throws: \<open>catch\<close> reports it unless the session is closed or the peer gone.\<close>

definition throws :: "session \<Rightarrow> jsval \<Rightarrow> failure \<Rightarrow> session \<times> call list" where
  "throws s i err = (finished i s, if active s i then [ReportError err] else [])"

definition find_track :: "track list \<Rightarrow> string \<Rightarrow> track option" where
  "find_track stream kind = find (\<lambda>t. tk_kind t = kind) stream"

section \<open>The operations\<close>

text \<open>\<open>handle\<close> from the loop over the transceivers on, with the kinds that are left.\<close>

fun answer_tracks :: "session \<Rightarrow> jsval \<Rightarrow> string list \<Rightarrow> session \<times> call list" where
  "answer_tracks s i [] = (await i (AwaitCreate ''webrtc.answer'') s, [Create i ''webrtc.answer''])"
| "answer_tracks s i (kind # kinds) =
     (case rt_localStream s of
        None \<Rightarrow> throws s i TypeError
      | Some stream \<Rightarrow> (await i (AwaitSender kinds) s, [ReplaceSender i kind (find_track stream kind)]))"

text \<open>\<open>handle\<close> from the loop over the candidates kept back on.\<close>

fun drain :: "session \<Rightarrow> jsval \<Rightarrow> answer \<Rightarrow> jsval list \<Rightarrow> bool \<Rightarrow> session \<times> call list" where
  "drain s i a (c # cs) offer = (await i (AwaitDrain cs offer) s, [AddIce i c])"
| "drain s i a [] offer = (if offer then answer_tracks s i (an_kinds a) else (finished i s, []))"

definition ice_of :: "jsval \<Rightarrow> jsval" where
  "ice_of payload = Obj [(js ''candidate'', get_prop payload (js ''candidate'')),
     (js ''sdpMid'', get_prop payload (js ''sdpMid'')), (js ''sdpMLineIndex'', get_prop payload (js ''sdpMLineIndex''))]"

text \<open>An operation runs up to its first \<open>await\<close>.\<close>

fun begin_op :: "session \<Rightarrow> jsval \<Rightarrow> operation \<Rightarrow> session \<times> call list" where
  "begin_op s i Offer =
     (let (s1, p, made) = ensure_peer s i in
      case rt_localStream s1 of
        None \<Rightarrow> (let (s2, es) = throws s1 i TypeError in (s2, made @ es))
      | Some stream \<Rightarrow>
          (await i (AwaitCreate ''webrtc.offer'') s1,
           made @ map (\<lambda>kind. AddTransceiver i kind (find_track stream kind)) [''audio'', ''video''] @
           [Create i ''webrtc.offer'']))"
| "begin_op s i (Handle typ payload) =
     (let (s1, p, made) = ensure_peer s i in
      if typ = ''webrtc.iceCandidate'' then
        if pe_remote p then (await i AwaitCandidate s1, made @ [AddIce i (ice_of payload)])
        else (finished i (set_peer i (p\<lparr>pe_candidates := pe_candidates p @ [ice_of payload]\<rparr>) s1), made)
      else (await i (AwaitRemote (typ = ''webrtc.offer'')) s1,
            made @ [SetRemote i (typ = ''webrtc.offer'') (get_prop payload (js ''sdp''))]))"

text \<open>The awaited promise resolves and the operation runs up to the next \<open>await\<close>.\<close>

fun resume :: "session \<Rightarrow> jsval \<Rightarrow> peer \<Rightarrow> answer \<Rightarrow> continuation \<Rightarrow> session \<times> call list" where
  "resume s i p a (AwaitCreate typ) = (await i (AwaitLocal typ) s, [SetLocal i])"
| "resume s i p a (AwaitLocal typ) =
     (if an_open a then
        (finished i s, [Signal typ (Obj [(js ''targetId'', i), (js ''sdp'', an_sdp a)])])
      else throws s i NotConnected)"
| "resume s i p a (AwaitRemote offer) =
     drain (set_peer i (p\<lparr>pe_remote := True, pe_candidates := []\<rparr>) s) i a (pe_candidates p) offer"
| "resume s i p a AwaitCandidate = (finished i s, [])"
| "resume s i p a (AwaitDrain cs offer) = drain s i a cs offer"
| "resume s i p a (AwaitSender kinds) = answer_tracks s i kinds"

section \<open>The other methods and handlers\<close>

definition start_session :: "session \<Rightarrow> track list \<Rightarrow> jsval list \<Rightarrow> session" where
  "start_session s stream participants =
     fold (\<lambda>p s. enqueue s (get_prop p (js ''id'')) Offer) participants (s\<lparr>rt_localStream := Some stream\<rparr>)"

definition removePeer :: "session \<Rightarrow> jsval \<Rightarrow> session \<times> call list" where
  "removePeer s i =
     (s\<lparr>rt_departed := List.insert i (rt_departed s), rt_peers := AList.delete i (rt_peers s),
        rt_queues := AList.delete i (rt_queues s)\<rparr>,
      if map_of (rt_peers s) i \<noteq> None then [ClosePc i] else [])"

definition close_session :: "session \<Rightarrow> session \<times> call list" where
  "close_session s =
     (s\<lparr>rt_closed := True, rt_peers := [], rt_queues := []\<rparr>, map (ClosePc \<circ> fst) (rt_peers s))"

text \<open>\<open>newTrack?.kind || oldTrack?.kind\<close>.\<close>

definition replaced_kind :: "track option \<Rightarrow> track option \<Rightarrow> string option" where
  "replaced_kind old new = (case new of Some t \<Rightarrow> Some (tk_kind t) | None \<Rightarrow> map_option tk_kind old)"

text \<open>\<open>replaceTrack\<close> up to its \<open>await\<close>: the sender of each peer that has one of that kind; and after it.\<close>

definition replaceTrack :: "session \<Rightarrow> (jsval \<Rightarrow> string \<Rightarrow> bool) \<Rightarrow> track option \<Rightarrow> track option \<Rightarrow> session \<times> call list" where
  "replaceTrack s has_sender old new =
     (s\<lparr>rt_replacing := rt_replacing s @ [(old, new)]\<rparr>,
      case replaced_kind old new of
        None \<Rightarrow> []
      | Some kind \<Rightarrow> [ReplaceSender i kind new. (i, p) \<leftarrow> rt_peers s, has_sender i kind])"

definition remove_track :: "track option \<Rightarrow> track list \<Rightarrow> track list" where
  "remove_track old stream = (case old of None \<Rightarrow> stream | Some t \<Rightarrow> filter (\<lambda>u. tk_id u \<noteq> tk_id t) stream)"

definition add_track :: "track option \<Rightarrow> track list \<Rightarrow> track list" where
  "add_track new stream =
     (case new of None \<Rightarrow> stream | Some t \<Rightarrow> if tk_id t \<in> tk_id ` set stream then stream else stream @ [t])"

definition track_replaced :: "session \<Rightarrow> track option \<Rightarrow> track option \<Rightarrow> session" where
  "track_replaced s old new =
     s\<lparr>rt_replacing := remove1 (old, new) (rt_replacing s),
       rt_localStream := map_option (add_track new \<circ> remove_track old) (rt_localStream s)\<rparr>"

text \<open>A sender refused the track: \<open>Promise.all\<close> rejects, and the local stream stays as it is.\<close>

definition replace_rejected :: "session \<Rightarrow> track option \<Rightarrow> track option \<Rightarrow> session" where
  "replace_rejected s old new = s\<lparr>rt_replacing := remove1 (old, new) (rt_replacing s)\<rparr>"

text \<open>\<open>onicecandidate\<close> with a candidate's \<open>toJSON()\<close>; the end of candidates does nothing.\<close>

definition onicecandidate :: "session \<Rightarrow> jsval \<Rightarrow> (jstring \<times> jsval) list \<Rightarrow> call list" where
  "onicecandidate s i cand =
     (if \<not> rt_closed s then [Signal ''webrtc.iceCandidate'' (Obj ((js ''targetId'', i) # cand))] else [])"

definition ontrack :: "session \<Rightarrow> jsval \<Rightarrow> peer \<Rightarrow> nat \<Rightarrow> session \<times> call list" where
  "ontrack s i p t = (set_peer i (p\<lparr>pe_stream := List.insert t (pe_stream p)\<rparr>) s, [RemoteTrack i t])"

section \<open>Steps\<close>

datatype session_event =
    Incoming string jsval
  | StartWith "track list" "jsval list"
  | Begin jsval operation
  | NoConnection jsval operation failure
  | Skip jsval operation
  | Fulfilled jsval answer
  | Failed jsval failure
  | PeerLeft jsval
  | CloseAll
  | LocalCandidate jsval "(jstring \<times> jsval) list"
  | TrackArrived jsval nat
  | ConnectionFailed jsval
  | Replace "track option" "track option"
  | Replaced "track option" "track option"
  | ReplaceRejected "track option" "track option"

definition signal_types :: "string list" where
  "signal_types = [''webrtc.offer'', ''webrtc.answer'', ''webrtc.iceCandidate'']"

text \<open>
  One step. A message of one of the three types comes while its handler is registered; an
  operation at the head of a queue begins when none of that peer is under way, or ends at once as
  there is no connection yet and none can be made, or is skipped once the session is closed or the
  peer gone; a promise of a connection resolves only while the
  connection is open, and may be rejected at any time.
\<close>

inductive session_step :: "session \<Rightarrow> session_event \<times> call list \<Rightarrow> session \<Rightarrow> bool" where
  incoming: "\<not> rt_closed s \<Longrightarrow> typ \<in> set signal_types \<Longrightarrow>
    session_step s (Incoming typ payload, []) (enqueue s (get_prop payload (js ''participantId'')) (Handle typ payload))"
| start_with: "session_step s (StartWith stream ps, []) (start_session s stream ps)"
| begin_next: "queue_of s i = op # ops \<Longrightarrow> rt_running s i = None \<Longrightarrow> active s i \<Longrightarrow> begin_op (dequeue s i) i op = (t, es) \<Longrightarrow>
    session_step s (Begin i op, es) t"
| no_connection: "queue_of s i = op # ops \<Longrightarrow> rt_running s i = None \<Longrightarrow> active s i \<Longrightarrow> map_of (rt_peers s) i = None \<Longrightarrow>
    throws (dequeue s i) i err = (t, es) \<Longrightarrow> session_step s (NoConnection i op err, es) t"
| skip_next: "queue_of s i = op # ops \<Longrightarrow> \<not> active s i \<Longrightarrow> session_step s (Skip i op, []) (dequeue s i)"
| fulfilled: "rt_running s i = Some k \<Longrightarrow> map_of (rt_peers s) i = Some p \<Longrightarrow> resume s i p a k = (t, es) \<Longrightarrow>
    session_step s (Fulfilled i a, es) t"
| failed: "rt_running s i = Some k \<Longrightarrow> throws s i err = (t, es) \<Longrightarrow> session_step s (Failed i err, es) t"
| peer_left: "removePeer s i = (t, es) \<Longrightarrow> session_step s (PeerLeft i, es) t"
| close_all: "close_session s = (t, es) \<Longrightarrow> session_step s (CloseAll, es) t"
| local_candidate: "map_of (rt_peers s) i = Some p \<Longrightarrow> session_step s (LocalCandidate i cand, onicecandidate s i cand) s"
| track_arrived: "map_of (rt_peers s) i = Some p \<Longrightarrow> ontrack s i p n = (t, es) \<Longrightarrow> session_step s (TrackArrived i n, es) t"
| connection_failed: "map_of (rt_peers s) i = Some p \<Longrightarrow> session_step s (ConnectionFailed i, [ReportError MediaFailed]) s"
| replace: "replaceTrack s has_sender old new = (t, es) \<Longrightarrow> session_step s (Replace old new, es) t"
| replaced: "(old, new) \<in> set (rt_replacing s) \<Longrightarrow> session_step s (Replaced old new, []) (track_replaced s old new)"
| rejected: "(old, new) \<in> set (rt_replacing s) \<Longrightarrow> session_step s (ReplaceRejected old new, []) (replace_rejected s old new)"

inductive_cases incoming_stepE: "session_step s (Incoming typ payload, es) t"
inductive_cases begin_stepE: "session_step s (Begin i op, es) t"
inductive_cases fulfilled_stepE: "session_step s (Fulfilled i a, es) t"

text \<open>The steps as a function, for running the model (every peer then has senders to replace).\<close>

fun heads :: "'a list \<Rightarrow> 'a \<Rightarrow> bool" where
  "heads [] x = False"
| "heads (y # ys) x = (y = x)"

lemma heads_iff: "heads xs x \<longleftrightarrow> (\<exists>ys. xs = x # ys)"
  by (cases xs) auto

fun session_exec :: "session \<Rightarrow> session_event \<Rightarrow> (session \<times> call list) option" where
  "session_exec s (Incoming typ payload) = (if \<not> rt_closed s \<and> typ \<in> set signal_types
     then Some (enqueue s (get_prop payload (js ''participantId'')) (Handle typ payload), []) else None)"
| "session_exec s (StartWith stream ps) = Some (start_session s stream ps, [])"
| "session_exec s (Begin i op) = (if heads (queue_of s i) op \<and> rt_running s i = None \<and> active s i
     then Some (begin_op (dequeue s i) i op) else None)"
| "session_exec s (NoConnection i op err) = (if heads (queue_of s i) op \<and> rt_running s i = None \<and> active s i \<and>
     map_of (rt_peers s) i = None then Some (throws (dequeue s i) i err) else None)"
| "session_exec s (Skip i op) = (if heads (queue_of s i) op \<and> \<not> active s i then Some (dequeue s i, []) else None)"
| "session_exec s (Fulfilled i a) = (case (rt_running s i, map_of (rt_peers s) i) of
     (Some k, Some p) \<Rightarrow> Some (resume s i p a k) | _ \<Rightarrow> None)"
| "session_exec s (Failed i err) = (case rt_running s i of Some k \<Rightarrow> Some (throws s i err) | None \<Rightarrow> None)"
| "session_exec s (PeerLeft i) = Some (removePeer s i)"
| "session_exec s CloseAll = Some (close_session s)"
| "session_exec s (LocalCandidate i cand) = (case map_of (rt_peers s) i of Some p \<Rightarrow> Some (s, onicecandidate s i cand) | None \<Rightarrow> None)"
| "session_exec s (TrackArrived i n) = (case map_of (rt_peers s) i of Some p \<Rightarrow> Some (ontrack s i p n) | None \<Rightarrow> None)"
| "session_exec s (ConnectionFailed i) = (case map_of (rt_peers s) i of Some p \<Rightarrow> Some (s, [ReportError MediaFailed]) | None \<Rightarrow> None)"
| "session_exec s (Replace old new) = Some (replaceTrack s (\<lambda>i k. True) old new)"
| "session_exec s (Replaced old new) = (if (old, new) \<in> set (rt_replacing s) then Some (track_replaced s old new, []) else None)"
| "session_exec s (ReplaceRejected old new) = (if (old, new) \<in> set (rt_replacing s) then Some (replace_rejected s old new, []) else None)"

lemma session_exec_step: "session_exec s ev = Some (t, es) \<Longrightarrow> session_step s (ev, es) t"
  by (cases ev) (auto simp: heads_iff split: option.splits if_splits intro: session_step.intros)

fun session_run :: "session \<Rightarrow> session_event list \<Rightarrow> (session \<times> (session_event \<times> call list) list) option" where
  "session_run s [] = Some (s, [])"
| "session_run s (ev # evs) = (case session_exec s ev of
     None \<Rightarrow> None
   | Some (t, es) \<Rightarrow> map_option (\<lambda>(u, ls). (u, (ev, es) # ls)) (session_run t evs))"

lemma session_run_execution: "session_run s evs = Some (t, ls) \<Longrightarrow> execution session_step s ls t"
  by (induction evs arbitrary: s ls) (auto split: option.splits intro: execution_nil execution_cons session_exec_step)

definition session_reachable :: "session \<Rightarrow> bool" where
  "session_reachable = reachable (\<lambda>s. s = new_session) session_step"

lemmas session_defs = ensure_peer_def set_peer_def enqueue_def dequeue_def await_def finished_def
  throws_def removePeer_def close_session_def replaceTrack_def track_replaced_def ontrack_def

end
