(* ===== verification/DeviceManager.thy ===== *)
theory DeviceManager
  imports JsValues
begin

text \<open>
  \<open>client/js/devices.js\<close>: the class \<open>DeviceManager\<close>. Tracks and audio contexts are objects of
  the browser and are numbered; stopping a track, closing a context and the like are effects. A
  method that awaits the browser is two definitions, up to the \<open>await\<close> and after it, the second
  taking what the browser gave. A \<open>MediaStream\<close> is the list of its tracks, where a track is once
  at most. The level meter computes with rationals where the code has doubles.
\<close>

section \<open>State\<close>

record media_track =
  mt_id :: nat
  mt_kind :: string
  mt_enabled :: bool

datatype recorder_state = Inactive | Recording

record devices =
  dv_localStream :: "media_track list"
  dv_captureVersion :: int
  dv_screenStream :: "media_track list option"
  dv_audioContext :: "nat option"
  dv_analyser :: "nat option"
  dv_recorder :: "recorder_state option"
  dv_recordedChunks :: "nat list"
  dv_animationFrameId :: "nat option"

definition new_DeviceManager :: devices where
  "new_DeviceManager = \<lparr>dv_localStream = [], dv_captureVersion = 0, dv_screenStream = None, dv_audioContext = None,
     dv_analyser = None, dv_recorder = None, dv_recordedChunks = [], dv_animationFrameId = None\<rparr>"

datatype device_call =
    StopTrack nat
  | CloseContext nat
  | OpenContext nat
  | CancelFrame nat
  | StartRecorder bool
  | StopRecorder
  | Download "nat list"
  | ShowStream

text \<open>What the page asks the browser for: any device of a kind, the one with an id, the screen, or the list
  of devices.\<close>

datatype media_request =
    AnyOf string
  | Exactly string jstring
  | TheScreen
  | TheDevices

definition add_media :: "media_track \<Rightarrow> media_track list \<Rightarrow> media_track list" where
  "add_media t stream = (if mt_id t \<in> mt_id ` set stream then stream else stream @ [t])"

definition stop_tracks :: "media_track list \<Rightarrow> device_call list" where
  "stop_tracks stream = map (StopTrack \<circ> mt_id) stream"

definition of_kind :: "string \<Rightarrow> media_track list \<Rightarrow> media_track list" where
  "of_kind kind stream = filter (\<lambda>t. mt_kind t = kind) stream"

section \<open>Capture\<close>

text \<open>\<open>enumerateDevices\<close>: the cameras and microphones of the list the browser gives, if it does.\<close>

definition enumerateDevices :: "jsval list option \<Rightarrow> jsval list \<times> jsval list" where
  "enumerateDevices found = (case found of
     None \<Rightarrow> ([], [])
   | Some ds \<Rightarrow> (filter (\<lambda>d. get_prop d (js ''kind'') = Str (js ''videoinput'')) ds,
                 filter (\<lambda>d. get_prop d (js ''kind'') = Str (js ''audioinput'')) ds))"

text \<open>\<open>getLocalStream\<close> takes a new version before it asks for the devices.\<close>

definition getLocalStream_begin :: "devices \<Rightarrow> devices \<times> int" where
  "getLocalStream_begin s = (let v = dv_captureVersion s + 1 in (s\<lparr>dv_captureVersion := v\<rparr>, v))"

definition getLocalStream_asks :: "media_request list" where
  "getLocalStream_asks = map AnyOf [''audio'', ''video'']"

text \<open>After the requests settled, each with the tracks it got or rejected.\<close>

fun keep_or_stop :: "int \<Rightarrow> media_track list \<Rightarrow> devices \<Rightarrow> devices \<times> device_call list" where
  "keep_or_stop version [] s = (s, [])"
| "keep_or_stop version (t # ts) s =
     (if version \<noteq> dv_captureVersion s then
        let (s1, es) = keep_or_stop version ts s in (s1, StopTrack (mt_id t) # es)
      else keep_or_stop version ts (s\<lparr>dv_localStream := add_media t (dv_localStream s)\<rparr>))"

definition getLocalStream_end :: "int \<Rightarrow> media_track list option list \<Rightarrow> devices \<Rightarrow> devices \<times> device_call list" where
  "getLocalStream_end version results s =
     keep_or_stop version (concat (map (\<lambda>r. case r of Some ts \<Rightarrow> ts | None \<Rightarrow> []) results)) s"

definition cancelPendingCapture :: "devices \<Rightarrow> devices" where
  "cancelPendingCapture s = s\<lparr>dv_captureVersion := dv_captureVersion s + 1\<rparr>"

text \<open>\<open>acquireTrack\<close> remembers the version of its request.\<close>

definition acquireTrack_begin :: "string \<Rightarrow> devices \<Rightarrow> int \<times> media_request" where
  "acquireTrack_begin kind s = (dv_captureVersion s, AnyOf kind)"

text \<open>\<open>acquireTrack\<close> after the browser gave the tracks; it throws when the request was cancelled.\<close>

definition acquireTrack_end :: "int \<Rightarrow> media_track list \<Rightarrow> devices \<Rightarrow> devices \<times> device_call list \<times> (string + media_track)" where
  "acquireTrack_end version tracks s =
     (if version \<noteq> dv_captureVersion s then (s, stop_tracks tracks, Inl ''Device request cancelled'')
      else case tracks of
        [] \<Rightarrow> (s, [], Inl ''TypeError'')
      | t # ts \<Rightarrow> (s\<lparr>dv_localStream := add_media t (dv_localStream s)\<rparr>, [], Inr t))"

text \<open>The old track of a kind is taken out and stopped, the new one put in.\<close>

definition swap_track :: "string \<Rightarrow> media_track \<Rightarrow> devices \<Rightarrow> devices \<times> device_call list" where
  "swap_track kind new s =
     (case of_kind kind (dv_localStream s) of
        [] \<Rightarrow> (s\<lparr>dv_localStream := add_media new (dv_localStream s)\<rparr>, [])
      | old # _ \<Rightarrow> (s\<lparr>dv_localStream := add_media new (filter (\<lambda>t. mt_id t \<noteq> mt_id old) (dv_localStream s))\<rparr>,
                    [StopTrack (mt_id old)]))"

section \<open>The level meter\<close>

text \<open>The number of the new audio context is an argument, or \<open>None\<close> where the browser's constructor throws,
  after a context of before has been closed. The last component tells whether the function returned.\<close>

definition setupAudioLevelIndicator :: "nat option \<Rightarrow> devices \<Rightarrow> devices \<times> device_call list \<times> bool" where
  "setupAudioLevelIndicator ctx s =
     (if of_kind ''audio'' (dv_localStream s) = [] then (s, [], True)
      else
        let closing = (case dv_audioContext s of Some old \<Rightarrow> [CloseContext old] | None \<Rightarrow> []) in
        case ctx of
          None \<Rightarrow> (s, closing, False)
        | Some n \<Rightarrow> (s\<lparr>dv_audioContext := Some n, dv_analyser := Some n\<rparr>, closing @ [OpenContext n], True))"

text \<open>\<open>Math.round\<close>, and \<open>getAudioLevel\<close> on the bytes of the analyser.\<close>

definition js_round :: "rat \<Rightarrow> int" where
  "js_round x = \<lfloor>x + 1 / 2\<rfloor>"

definition getAudioLevel :: "devices \<Rightarrow> 8 word list \<Rightarrow> int" where
  "getAudioLevel s dataArray =
     (case dv_analyser s of
        None \<Rightarrow> 0
      | Some a \<Rightarrow>
          let average = of_nat (sum_list (map unat dataArray)) / of_nat (length dataArray)
          in min 100 (js_round (average / 255 * 100 * (3 / 2))))"

text \<open>\<open>startLocalPreview\<close>: the video element shows the local stream, and the meter starts, or this throws.\<close>

definition startLocalPreview :: "nat option \<Rightarrow> devices \<Rightarrow> devices \<times> device_call list \<times> bool" where
  "startLocalPreview ctx s = (let (t, es, returned) = setupAudioLevelIndicator ctx s in (t, ShowStream # es, returned))"

section \<open>The other methods\<close>

text \<open>The selectors ask for one device; there is always a local stream.\<close>

definition setCamera_begin :: "jstring \<Rightarrow> media_request" where
  "setCamera_begin deviceId = Exactly ''video'' deviceId"

definition setMicrophone_begin :: "jstring \<Rightarrow> media_request" where
  "setMicrophone_begin deviceId = Exactly ''audio'' deviceId"

definition setCamera_end :: "media_track \<Rightarrow> devices \<Rightarrow> devices \<times> device_call list" where
  "setCamera_end new s = swap_track ''video'' new s"

text \<open>When the meter throws, the new microphone is in the local stream already.\<close>

definition setMicrophone_end :: "nat option \<Rightarrow> media_track \<Rightarrow> devices \<Rightarrow> devices \<times> device_call list \<times> bool" where
  "setMicrophone_end ctx new s =
     (let (s1, es) = swap_track ''audio'' new s; (s2, fs, returned) = setupAudioLevelIndicator ctx s1 in (s2, es @ fs, returned))"

definition stopLocalPreview :: "devices \<Rightarrow> devices \<times> device_call list" where
  "stopLocalPreview s =
     (let s1 = cancelPendingCapture s in
      (s1\<lparr>dv_localStream := [], dv_audioContext := None\<rparr>,
       stop_tracks (dv_localStream s1) @
       (case dv_animationFrameId s1 of Some f \<Rightarrow> [CancelFrame f] | None \<Rightarrow> []) @
       (case dv_audioContext s1 of Some c \<Rightarrow> [CloseContext c] | None \<Rightarrow> [])))"

definition enable_kind :: "string \<Rightarrow> bool \<Rightarrow> devices \<Rightarrow> devices" where
  "enable_kind kind on s =
     s\<lparr>dv_localStream := map (\<lambda>t. if mt_kind t = kind then t\<lparr>mt_enabled := on\<rparr> else t) (dv_localStream s)\<rparr>"

definition setAudioMuted :: "bool \<Rightarrow> devices \<Rightarrow> devices" where
  "setAudioMuted muted = enable_kind ''audio'' (\<not> muted)"

definition setVideoEnabled :: "bool \<Rightarrow> devices \<Rightarrow> devices" where
  "setVideoEnabled enabled = enable_kind ''video'' enabled"

text \<open>\<open>startScreenShare\<close> after the browser gave a stream or the user refused.\<close>

definition startScreenShare_end :: "media_track list option \<Rightarrow> devices \<Rightarrow> devices" where
  "startScreenShare_end got s = (case got of Some st \<Rightarrow> s\<lparr>dv_screenStream := Some st\<rparr> | None \<Rightarrow> s)"

definition stopScreenShare :: "devices \<Rightarrow> devices \<times> device_call list" where
  "stopScreenShare s = (case dv_screenStream s of
     None \<Rightarrow> (s, []) | Some st \<Rightarrow> (s\<lparr>dv_screenStream := None\<rparr>, stop_tracks st))"

text \<open>Recording: \<open>startRecording\<close>, the data and stop events of the recorder, \<open>stopRecording\<close>. A
  chunk is its size.\<close>

text \<open>The browser can record VP9, or only its default format, or the stream not at all: then the second
  constructor throws as well. The last component tells whether the recorder was started, and its
  argument whether it was given the codec.\<close>

datatype recorder_support = Vp9 | DefaultFormat | NoRecorder

definition startRecording :: "recorder_support \<Rightarrow> devices \<Rightarrow> devices \<times> device_call list \<times> bool" where
  "startRecording support s =
     (let s1 = s\<lparr>dv_recordedChunks := []\<rparr> in
      if support = NoRecorder then (s1, [], False)
      else (s1\<lparr>dv_recorder := Some Recording\<rparr>, [StartRecorder (support = Vp9)], True))"

definition ondataavailable :: "nat \<Rightarrow> devices \<Rightarrow> devices" where
  "ondataavailable chunk s = (if chunk > 0 then s\<lparr>dv_recordedChunks := dv_recordedChunks s @ [chunk]\<rparr> else s)"

definition onstop :: "devices \<Rightarrow> devices \<times> device_call list" where
  "onstop s = (s, [Download (dv_recordedChunks s)])"

definition stopRecording :: "devices \<Rightarrow> devices \<times> device_call list" where
  "stopRecording s =
     (if dv_recorder s = Some Recording then (s\<lparr>dv_recorder := Some Inactive\<rparr>, [StopRecorder]) else (s, []))"

section \<open>Properties\<close>

lemma keep_or_stop_stale:
  "version \<noteq> dv_captureVersion s \<Longrightarrow> keep_or_stop version ts s = (s, stop_tracks ts)"
  by (induction ts) (simp_all add: stop_tracks_def)

lemma keep_or_stop_current:
  "keep_or_stop (dv_captureVersion s) ts s = (s\<lparr>dv_localStream := fold add_media ts (dv_localStream s)\<rparr>, [])"
proof (induction ts arbitrary: s)
  case (Cons t ts)
  from Cons [of "s\<lparr>dv_localStream := add_media t (dv_localStream s)\<rparr>"] show ?case by simp
qed simp

text \<open>Devices that arrive too late are released: if another capture, a cancellation or a stop of the
  preview came between the request and its answer, the local stream stays as it is and every track
  the browser gave is stopped; otherwise every track is in the stream and none is stopped.\<close>

theorem late_capture_released:
  "getLocalStream_end version results s =
     (let tracks = concat (map (\<lambda>r. case r of Some ts \<Rightarrow> ts | None \<Rightarrow> []) results) in
      if version \<noteq> dv_captureVersion s then (s, map (\<lambda>t. StopTrack (mt_id t)) tracks)
      else (s\<lparr>dv_localStream := fold add_media tracks (dv_localStream s)\<rparr>, [])) \<and>
   (version \<noteq> dv_captureVersion s \<longrightarrow>
      acquireTrack_end version ts s = (s, map (\<lambda>t. StopTrack (mt_id t)) ts, Inl ''Device request cancelled'')) \<and>
   snd (getLocalStream_begin s) \<noteq> dv_captureVersion (fst (stopLocalPreview (fst (getLocalStream_begin s))))"
  by (simp add: getLocalStream_end_def keep_or_stop_stale keep_or_stop_current acquireTrack_end_def stop_tracks_def
      getLocalStream_begin_def stopLocalPreview_def cancelPendingCapture_def comp_def Let_def)

theorem late_capture_released_witness:
  "fst (getLocalStream_end 0 [Some [\<lparr>mt_id = 4, mt_kind = ''video'', mt_enabled = True\<rparr>]] (cancelPendingCapture new_DeviceManager)) =
     cancelPendingCapture new_DeviceManager"
  using late_capture_released [of 0 "[Some [\<lparr>mt_id = 4, mt_kind = ''video'', mt_enabled = True\<rparr>]]" "cancelPendingCapture new_DeviceManager"]
  by (simp add: cancelPendingCapture_def new_DeviceManager_def)

lemma js_round_nonneg: "0 \<le> x \<Longrightarrow> 0 \<le> js_round x"
  by (simp add: js_round_def)

text \<open>The level the meter shows is a percentage: between 0 and 100 whatever the bytes, 0 without an
  analyser and on silence, and 100 as soon as the average byte is at least 170.\<close>

theorem audio_level_percentage:
  assumes "dataArray \<noteq> []"
  shows "0 \<le> getAudioLevel s dataArray \<and> getAudioLevel s dataArray \<le> 100 \<and>
    (dv_analyser s = None \<longrightarrow> getAudioLevel s dataArray = 0) \<and>
    (set dataArray = {0} \<longrightarrow> getAudioLevel s dataArray = 0) \<and>
    (dv_analyser s \<noteq> None \<and> 170 * length dataArray \<le> sum_list (map unat dataArray) \<longrightarrow> getAudioLevel s dataArray = 100)"
proof (cases "dv_analyser s")
  case (Some a)
  let ?sum = "sum_list (map unat dataArray)" let ?avg = "of_nat ?sum / of_nat (length dataArray) :: rat"
  have level: "getAudioLevel s dataArray = min 100 (js_round (?avg / 255 * 100 * (3 / 2)))"
    by (simp only: getAudioLevel_def Some option.case Let_def)
  have "0 \<le> ?avg" by simp
  then have low: "0 \<le> js_round (?avg / 255 * 100 * (3 / 2))" by (intro js_round_nonneg) simp
  have silent: "getAudioLevel s dataArray = 0" if "set dataArray = {0}"
  proof -
    from that have "map unat dataArray = map (\<lambda>_. 0) dataArray" by (intro map_cong) auto
    then have "?sum = 0" by (simp add: map_replicate_const)
    then have "?avg = 0" by (simp only: of_nat_0 div_0)
    then have "getAudioLevel s dataArray = min 100 (js_round (0 / 255 * 100 * (3 / 2)))"
      unfolding level by (simp only:)
    moreover have "\<lfloor>1 / 2 :: rat\<rfloor> = 0" by (rule floor_unique) simp_all
    ultimately show ?thesis by (simp add: js_round_def)
  qed
  have loud: "getAudioLevel s dataArray = 100" if "170 * length dataArray \<le> ?sum"
  proof -
    from that have "of_nat (170 * length dataArray) \<le> (of_nat ?sum :: rat)" by (rule of_nat_mono)
    then have "170 \<le> ?avg" using assms by (simp add: pos_le_divide_eq)
    then have "100 \<le> js_round (?avg / 255 * 100 * (3 / 2))"
      by (simp add: js_round_def le_floor_iff)
    then show ?thesis by (simp add: level)
  qed
  show ?thesis using low silent loud Some level by auto
qed (simp add: getAudioLevel_def)

theorem audio_level_percentage_witness: "getAudioLevel new_DeviceManager [3] = 0"
  using audio_level_percentage [of "[3]" new_DeviceManager] by (simp add: new_DeviceManager_def)

end
