(* ===== verification/UI.thy ===== *)
theory UI
  imports JsValues
begin

text \<open>
  \<open>client/js/ui.js\<close> and \<open>client/js/chat.js\<close>: the page as far as these modules change it. The
  elements that \<open>client/index.html\<close> declares once are fields; the ones the code makes are lists,
  in document order. Media streams are objects of the browser and are numbered. A class list is
  a flag for the class the code sets, and a \<open>setTimeout\<close> is an entry of \<open>ui_timers\<close> until it
  fires.
\<close>

section \<open>The page\<close>

record button =
  bt_text :: string
  bt_mark :: bool
  bt_pressed :: bool
  bt_label :: string

text \<open>A video tile: the participant id in its element id, the name it shows, its stream, whether
  its video is muted as the local one, and whether the button to start playback is hidden.\<close>

record tile =
  tl_id :: jsval
  tl_name :: jsval
  tl_stream :: "nat option"
  tl_local :: bool
  tl_speaker :: bool
  tl_playHidden :: bool

datatype toast_kind = Info | Error | Success

record toast =
  to_key :: nat
  to_text :: jsval
  to_kind :: toast_kind

datatype timer = RemoveToast nat | ClearPanels

record chat_line =
  ch_name :: jsval
  ch_text :: jsval
  ch_time :: "jsval option"

record ui =
  ui_view :: "string list"
  ui_tiles :: "tile list"
  ui_toasts :: "toast list"
  ui_timers :: "timer list"
  ui_nextToast :: nat
  ui_mic :: button
  ui_previewMic :: button
  ui_cam :: button
  ui_previewCam :: button
  ui_record :: button
  ui_cameras :: "(jsval \<times> jsval) list"
  ui_microphones :: "(jsval \<times> jsval) list"
  ui_participants :: "jsval list"
  ui_sidebarOpen :: bool
  ui_panels :: "string list"
  ui_chat :: "chat_line list"

definition plain_button :: "string \<Rightarrow> string \<Rightarrow> button" where
  "plain_button text label = \<lparr>bt_text = text, bt_mark = False, bt_pressed = False, bt_label = label\<rparr>"

text \<open>The page as \<open>index.html\<close> delivers it.\<close>

definition initial_ui :: ui where
  "initial_ui = \<lparr>ui_view = [''lobby''], ui_tiles = [], ui_toasts = [], ui_timers = [], ui_nextToast = 0,
     ui_mic = plain_button ''Microphone'' ''Microphone'', ui_previewMic = plain_button ''Mute microphone'' '''',
     ui_cam = plain_button ''Camera'' ''Camera'', ui_previewCam = plain_button ''Turn camera off'' '''',
     ui_record = plain_button ''Record locally'' ''Record locally'', ui_cameras = [], ui_microphones = [],
     ui_participants = [], ui_sidebarOpen = False, ui_panels = [''chat-panel''], ui_chat = []\<rparr>"

text \<open>\<open>a || b\<close>.\<close>

definition js_or :: "jsval \<Rightarrow> jsval \<Rightarrow> jsval" where
  "js_or a b = (if truthy a then a else b)"

section \<open>The functions of \<open>UI\<close>\<close>

definition showView :: "string \<Rightarrow> ui \<Rightarrow> ui" where
  "showView viewId u = u\<lparr>ui_view := [viewId]\<rparr>"

definition createVideoTile :: "jsval \<Rightarrow> jsval \<Rightarrow> nat option \<Rightarrow> bool \<Rightarrow> ui \<Rightarrow> ui" where
  "createVideoTile participantId displayName stream isLocal u =
     u\<lparr>ui_tiles := ui_tiles u @ [\<lparr>tl_id = participantId, tl_name = js_or displayName participantId,
         tl_stream = stream, tl_local = isLocal, tl_speaker = False, tl_playHidden = True\<rparr>]\<rparr>"

text \<open>\<open>document.getElementById('tile-' + id)\<close>: the first tile of that id.\<close>

definition tile_of :: "ui \<Rightarrow> jsval \<Rightarrow> tile option" where
  "tile_of u participantId = find (\<lambda>t. tl_id t = participantId) (ui_tiles u)"

fun update_first :: "('a \<Rightarrow> bool) \<Rightarrow> ('a \<Rightarrow> 'a) \<Rightarrow> 'a list \<Rightarrow> 'a list" where
  "update_first P f [] = []"
| "update_first P f (x # xs) = (if P x then f x # xs else x # update_first P f xs)"

fun remove_first :: "('a \<Rightarrow> bool) \<Rightarrow> 'a list \<Rightarrow> 'a list" where
  "remove_first P [] = []"
| "remove_first P (x # xs) = (if P x then xs else x # remove_first P xs)"

definition removeVideoTile :: "jsval \<Rightarrow> ui \<Rightarrow> ui" where
  "removeVideoTile participantId u = u\<lparr>ui_tiles := remove_first (\<lambda>t. tl_id t = participantId) (ui_tiles u)\<rparr>"

definition updateVideoTile :: "jsval \<Rightarrow> nat option \<Rightarrow> ui \<Rightarrow> ui" where
  "updateVideoTile participantId stream u =
     u\<lparr>ui_tiles := update_first (\<lambda>t. tl_id t = participantId) (\<lambda>t. t\<lparr>tl_stream := stream\<rparr>) (ui_tiles u)\<rparr>"

text \<open>The listeners of a remote tile's video: \<open>play()\<close> was refused, and the video plays.\<close>

definition playback_refused :: "jsval \<Rightarrow> ui \<Rightarrow> ui" where
  "playback_refused participantId u = u\<lparr>ui_tiles := update_first (\<lambda>t. tl_id t = participantId \<and> \<not> tl_local t)
     (\<lambda>t. t\<lparr>tl_playHidden := False\<rparr>) (ui_tiles u)\<rparr>"

definition playback_started :: "jsval \<Rightarrow> ui \<Rightarrow> ui" where
  "playback_started participantId u = u\<lparr>ui_tiles := update_first (\<lambda>t. tl_id t = participantId \<and> \<not> tl_local t)
     (\<lambda>t. t\<lparr>tl_playHidden := True\<rparr>) (ui_tiles u)\<rparr>"

definition setActiveSpeaker :: "jsval \<Rightarrow> ui \<Rightarrow> ui" where
  "setActiveSpeaker participantId u =
     (let u1 = u\<lparr>ui_tiles := map (\<lambda>t. t\<lparr>tl_speaker := False\<rparr>) (ui_tiles u)\<rparr>
      in if truthy participantId
         then u1\<lparr>ui_tiles := update_first (\<lambda>t. tl_id t = participantId) (\<lambda>t. t\<lparr>tl_speaker := True\<rparr>) (ui_tiles u1)\<rparr>
         else u1)"

definition showNotification :: "jsval \<Rightarrow> toast_kind \<Rightarrow> ui \<Rightarrow> ui" where
  "showNotification text kind u =
     u\<lparr>ui_toasts := ui_toasts u @ [\<lparr>to_key = ui_nextToast u, to_text = text, to_kind = kind\<rparr>],
       ui_timers := ui_timers u @ [RemoveToast (ui_nextToast u)], ui_nextToast := ui_nextToast u + 1\<rparr>"

definition setMuted :: "bool \<Rightarrow> ui \<Rightarrow> ui" where
  "setMuted muted u =
     u\<lparr>ui_mic := \<lparr>bt_text = (if muted then ''Unmute'' else ''Microphone''), bt_mark = muted, bt_pressed = muted,
                   bt_label = (if muted then ''Unmute microphone'' else ''Mute microphone'')\<rparr>,
       ui_previewMic := (ui_previewMic u)\<lparr>bt_text := (if muted then ''Unmute microphone'' else ''Mute microphone''),
                   bt_mark := muted, bt_pressed := muted\<rparr>\<rparr>"

definition setCameraEnabled :: "bool \<Rightarrow> ui \<Rightarrow> ui" where
  "setCameraEnabled enabled u =
     u\<lparr>ui_cam := \<lparr>bt_text = (if \<not> enabled then ''Camera off'' else ''Camera''), bt_mark = (\<not> enabled), bt_pressed = (\<not> enabled),
                   bt_label = (if enabled then ''Turn camera off'' else ''Turn camera on'')\<rparr>,
       ui_previewCam := (ui_previewCam u)\<lparr>bt_text := (if \<not> enabled then ''Turn camera on'' else ''Turn camera off''),
                   bt_mark := \<not> enabled, bt_pressed := \<not> enabled\<rparr>\<rparr>"

definition setRecording :: "bool \<Rightarrow> ui \<Rightarrow> ui" where
  "setRecording recording u =
     (let text = (if recording then ''Stop recording'' else ''Record locally'')
      in u\<lparr>ui_record := \<lparr>bt_text = text, bt_mark = recording, bt_pressed = recording, bt_label = text\<rparr>\<rparr>)"

text \<open>The options of a selector: the device id and its label, or a name with the option's number;
  \<open>select.length\<close> is the number of options before it.\<close>

fun device_options :: "(nat \<Rightarrow> jsval) \<Rightarrow> nat \<Rightarrow> jsval list \<Rightarrow> (jsval \<times> jsval) list" where
  "device_options name n [] = []"
| "device_options name n (d # ds) =
     (get_prop d (js ''deviceId''), js_or (get_prop d (js ''label'')) (name (n + 1))) # device_options name (n + 1) ds"

definition populateDeviceSelectors :: "(nat \<Rightarrow> jstring) \<Rightarrow> jsval list \<Rightarrow> jsval list \<Rightarrow> ui \<Rightarrow> ui" where
  "populateDeviceSelectors ordinal cameras microphones u =
     u\<lparr>ui_cameras := device_options (\<lambda>n. Str (js ''Camera '' @ ordinal n)) 0 cameras,
       ui_microphones := device_options (\<lambda>n. Str (js ''Microphone '' @ ordinal n)) 0 microphones\<rparr>"

definition updateParticipantsList :: "jsval list \<Rightarrow> ui \<Rightarrow> ui" where
  "updateParticipantsList participants u =
     u\<lparr>ui_participants := map (\<lambda>p. js_or (get_prop p (js ''displayName'')) (get_prop p (js ''id''))) participants\<rparr>"

definition togglePanel :: "string \<Rightarrow> ui \<Rightarrow> ui" where
  "togglePanel panelId u =
     (if ui_sidebarOpen u \<and> panelId \<in> set (ui_panels u)
      then u\<lparr>ui_sidebarOpen := False, ui_timers := ui_timers u @ [ClearPanels]\<rparr>
      else u\<lparr>ui_panels := [panelId], ui_sidebarOpen := True\<rparr>)"

text \<open>A timer fires.\<close>

fun run_timer :: "timer \<Rightarrow> ui \<Rightarrow> ui" where
  "run_timer (RemoveToast k) u = u\<lparr>ui_toasts := filter (\<lambda>t. to_key t \<noteq> k) (ui_toasts u)\<rparr>"
| "run_timer ClearPanels u = u\<lparr>ui_panels := []\<rparr>"

definition fire :: "timer \<Rightarrow> ui \<Rightarrow> ui" where
  "fire t u = run_timer t (u\<lparr>ui_timers := remove1 t (ui_timers u)\<rparr>)"

section \<open>The chat\<close>

text \<open>\<open>ChatManager.appendMessage\<close>: a line shows the name or the id, the text, and the time of the
  message, or the present one where it has none. \<open>textContent\<close> takes the strings as they are.\<close>

definition appendMessage :: "jsval \<Rightarrow> ui \<Rightarrow> ui" where
  "appendMessage payload u =
     u\<lparr>ui_chat := ui_chat u @ [\<lparr>ch_name = js_or (get_prop payload (js ''displayName'')) (get_prop payload (js ''participantId'')),
         ch_text = get_prop payload (js ''text''),
         ch_time = (if truthy (get_prop payload (js ''timestamp'')) then Some (get_prop payload (js ''timestamp'')) else None)\<rparr>]\<rparr>"

definition chat_clear :: "ui \<Rightarrow> ui" where
  "chat_clear u = u\<lparr>ui_chat := []\<rparr>"

section \<open>Properties\<close>

text \<open>Closing the side panel and opening the other one within 300 ms leaves an open side bar with
  nothing in it: the timer of the close takes the class off every panel, the one just opened included.\<close>

theorem reopened_panel_vanishes:
  "a \<noteq> b \<Longrightarrow> ui_sidebarOpen u \<Longrightarrow> a \<in> set (ui_panels u) \<Longrightarrow>
   (let v = fire ClearPanels (togglePanel b (togglePanel a u)) in ui_sidebarOpen v \<and> ui_panels v = [])"
  by (simp add: togglePanel_def fire_def)

theorem reopened_panel_vanishes_witness:
  "ui_panels (fire ClearPanels (togglePanel ''chat-panel'' (togglePanel ''participants-panel''
     (togglePanel ''participants-panel'' initial_ui)))) = []"
  using reopened_panel_vanishes [of "''participants-panel''" "''chat-panel''" "togglePanel ''participants-panel'' initial_ui"]
  by (simp add: togglePanel_def initial_ui_def Let_def)

end
