(* ===== verification/App.thy ===== *)
theory App
  imports RoomState SignalingClient WebRtcSession DeviceManager UI
begin

text \<open>
  \<open>client/js/app.js\<close>: the module's variables and the functions that tie the client's classes
  together: the checks of the lobby form, the listeners of the room and of the signaling
  client, joining and leaving a meeting, and the chat. \<open>onJoinRoom\<close> awaits twice: for the
  connection and for the answer to its \<open>room.join\<close>; what it waits for is \<open>ap_await\<close>. A call of
  \<open>onJoinRoom\<close> that is still waiting when it is called again, after the user left, goes on waiting for its
  own client, which the module no longer names: \<open>ap_earlier\<close> holds these clients, each with what is
  awaited of it.
\<close>

section \<open>State\<close>

text \<open>The callbacks the module registers, on the room and on the signaling client.\<close>

datatype room_listener = OnAdded | OnRemoved

datatype signal_listener = OnJoined | OnLeft | OnChat | OnError | OnDisconnected | OnWebrtc string

datatype join_await = AwaitNothing | AwaitConnect nat | AwaitJoin jstring

record app =
  ap_signaling :: "signal_listener client option"
  ap_devices :: devices
  ap_webrtc :: "session option"
  ap_room :: "room_listener room_state"
  ap_ui :: ui
  ap_displayName :: jstring
  ap_roomId :: jstring
  ap_muted :: bool
  ap_videoEnabled :: bool
  ap_recording :: bool
  ap_await :: join_await
  ap_earlier :: "(signal_listener client \<times> join_await) list"

datatype app_call = ByClient "signal_listener client_out" | BySession call | ByDevices device_call

section \<open>The lobby\<close>

text \<open>\<open>generateRoomId\<close>, from the string \<open>randomUUID\<close> gives.\<close>

definition generateRoomId :: "jstring \<Rightarrow> jstring" where
  "generateRoomId u = take 16 (filter (\<lambda>c. c \<noteq> 45) u)"

text \<open>The check of \<open>setupPreview\<close>: \<open>/^[a-zA-Z0-9]{3,32}$/\<close>.\<close>

definition preview_room_ok :: "jstring \<Rightarrow> bool" where
  "preview_room_ok r \<longleftrightarrow> list_all is_alnum r \<and> 3 \<le> length r \<and> length r \<le> 32"

definition room_id_message :: jstring where
  "room_id_message = js ''Room ID must contain 3'' @ [8211] @ js ''32 letters or numbers''"

text \<open>\<open>onJoinLobbyClick\<close>: the trimmed name and room id, where an invitation link stands for the
  \<open>room\<close> parameter of its query, which \<open>link_room\<close> reads; or the message shown. Then the check
  of \<open>setupPreview\<close>.\<close>

definition is_link :: "jstring \<Rightarrow> bool" where
  "is_link r \<longleftrightarrow> starts_with r (js ''http://'') \<or> starts_with r (js ''https://'')"

definition onJoinLobbyClick :: "(jstring \<Rightarrow> jstring option) \<Rightarrow> jstring \<Rightarrow> jstring \<Rightarrow> jstring + jstring \<times> jstring" where
  "onJoinLobbyClick link_room name_field room_field =
     (let name = trim name_field; typed = trim room_field;
          roomId = (if is_link typed then (case link_room typed of Some r \<Rightarrow> r | None \<Rightarrow> []) else typed)
      in if name = [] then Inl (js ''Please enter a display name'')
         else if roomId = [] then Inl (js ''Please enter a room ID'')
         else if \<not> preview_room_ok roomId then Inl room_id_message
         else Inr (name, roomId))"

definition onNewMeeting :: "jstring \<Rightarrow> jstring \<Rightarrow> jstring + jstring \<times> jstring" where
  "onNewMeeting u name_field =
     (let name = trim name_field; roomId = generateRoomId u
      in if name = [] then Inl (js ''Please enter a display name'')
         else if \<not> preview_room_ok roomId then Inl room_id_message
         else Inr (name, roomId))"

section \<open>The room\<close>

definition with_ui :: "(ui \<Rightarrow> ui) \<Rightarrow> app \<Rightarrow> app" where
  "with_ui f a = a\<lparr>ap_ui := f (ap_ui a)\<rparr>"

text \<open>The listeners \<open>init\<close> puts on the room, and adding and removing a participant with them.\<close>

fun run_room_listener :: "room_listener \<times> jsval \<Rightarrow> app \<Rightarrow> app" where
  "run_room_listener (OnAdded, p) a =
     with_ui (\<lambda>u. updateParticipantsList (getAllParticipants (ap_room a))
       (if get_prop p (js ''id'') \<noteq> rs_localParticipantId (ap_room a) \<and> tile_of u (get_prop p (js ''id'')) = None
        then createVideoTile (get_prop p (js ''id'')) (get_prop p (js ''displayName'')) None False u else u)) a"
| "run_room_listener (OnRemoved, i) a =
     with_ui (\<lambda>u. updateParticipantsList (getAllParticipants (ap_room a)) (removeVideoTile i u)) a"

definition app_add :: "jsval \<Rightarrow> app \<Rightarrow> app" where
  "app_add p a = (let (r, calls) = addParticipant (ap_room a) p in fold run_room_listener calls (a\<lparr>ap_room := r\<rparr>))"

definition app_remove :: "jsval \<Rightarrow> app \<Rightarrow> app" where
  "app_remove i a = (let (r, calls) = removeParticipant (ap_room a) i in fold run_room_listener calls (a\<lparr>ap_room := r\<rparr>))"

text \<open>What \<open>init\<close> sets up.\<close>

definition init_app :: app where
  "init_app = \<lparr>ap_signaling = None, ap_devices = new_DeviceManager, ap_webrtc = None,
     ap_room = room_on (room_on new_RoomState (js ''participantAdded'') OnAdded) (js ''participantRemoved'') OnRemoved,
     ap_ui = initial_ui, ap_displayName = [], ap_roomId = [], ap_muted = False, ap_videoEnabled = True,
     ap_recording = False, ap_await = AwaitNothing, ap_earlier = []\<rparr>"

section \<open>Leaving\<close>

text \<open>The constructor and \<open>close\<close> of \<open>WebRtcSession\<close> put its three handlers on the client and off.\<close>

definition webrtc_on :: "signal_listener client \<Rightarrow> signal_listener client" where
  "webrtc_on c = fold (\<lambda>ty c. client_on c (js ty) (OnWebrtc ty)) signal_types c"

definition webrtc_off :: "signal_listener client \<Rightarrow> signal_listener client" where
  "webrtc_off c = fold (\<lambda>ty c. client_off c (js ty) (OnWebrtc ty)) signal_types c"

definition leaveRoom :: "app \<Rightarrow> app \<times> app_call list" where
  "leaveRoom a =
     (let closed = (case ap_webrtc a of Some s \<Rightarrow> snd (close_session s) | None \<Rightarrow> []);
          sig = (if ap_webrtc a \<noteq> None then map_option webrtc_off (ap_signaling a) else ap_signaling a);
          (d1, es1) = stopLocalPreview (ap_devices a); (d2, es2) = stopScreenShare d1; (d3, es3) = stopRecording d2
      in (a\<lparr>ap_webrtc := None, ap_signaling := map_option disconnect sig, ap_devices := d3,
            ap_room := room_clear (ap_room a),
            ap_ui := setRecording False (setCameraEnabled True (setMuted False (showView ''lobby''
              ((chat_clear (updateParticipantsList [] (ap_ui a)))\<lparr>ui_tiles := []\<rparr>)))),
            ap_muted := False, ap_videoEnabled := True, ap_recording := False\<rparr>,
          map BySession closed @ map ByDevices (es1 @ es2 @ es3)))"

section \<open>The signaling listeners\<close>

text \<open>A template literal with a string in it.\<close>

definition notice :: "jsval \<Rightarrow> string \<Rightarrow> jsval" where
  "notice name suffix = Str (str_val name @ js suffix)"

fun run_signal_listener :: "signal_listener \<Rightarrow> jsval \<Rightarrow> app \<Rightarrow> app \<times> app_call list" where
  "run_signal_listener OnJoined payload a =
     (let p = get_prop payload (js ''participant'')
      in (with_ui (showNotification (notice (get_prop p (js ''displayName'')) '' joined'') Info) (app_add p a), []))"
| "run_signal_listener OnLeft payload a =
     (let i = get_prop payload (js ''participantId'') in
      case ap_webrtc a of
        None \<Rightarrow> (app_remove i a, [])
      | Some s \<Rightarrow> (let (s1, es) = removePeer s i in (app_remove i (a\<lparr>ap_webrtc := Some s1\<rparr>), map BySession es)))"
| "run_signal_listener OnChat payload a = (with_ui (appendMessage payload) a, [])"
| "run_signal_listener OnError payload a = (with_ui (showNotification (get_prop payload (js ''message'')) UI.Error) a, [])"
| "run_signal_listener OnDisconnected payload a =
     (let (b, es) = leaveRoom a
      in (with_ui (showNotification (Str (js ''Connection lost. Join the meeting again.'')) UI.Error) b, es))"
| "run_signal_listener (OnWebrtc ty) payload a =
     (a\<lparr>ap_webrtc := map_option (\<lambda>s. enqueue s (get_prop payload (js ''participantId'')) (Handle ty payload)) (ap_webrtc a)\<rparr>, [])"

text \<open>A listener that takes apart a payload, or reads a participant, that is \<open>null\<close> or \<open>undefined\<close>
  throws before it does anything; the \<open>try\<close> around \<open>handleMessage\<close> then ends the emission.\<close>

fun listener_throws :: "signal_listener \<Rightarrow> jsval \<Rightarrow> bool" where
  "listener_throws OnJoined payload = nullish (get_prop payload (js ''participant''))"
| "listener_throws OnDisconnected payload = False"
| "listener_throws h payload = nullish payload"

text \<open>The calls an operation of the client makes: frames go out, listeners run in turn.\<close>

fun run_outs :: "signal_listener client_out list \<Rightarrow> app \<Rightarrow> app \<times> app_call list" where
  "run_outs [] a = (a, [])"
| "run_outs (SendFrame n m # outs) a =
     (let (b, es) = run_outs outs a in (b, ByClient (SendFrame n m) # es))"
| "run_outs (CallListener h payload # outs) a =
     (if listener_throws h payload then (a, [])
      else let (b, es) = run_signal_listener h payload a; (c, fs) = run_outs outs b in (c, es @ fs))"

text \<open>\<open>setupSignalingHandlers\<close>.\<close>

definition setup_handlers :: "signal_listener client \<Rightarrow> signal_listener client" where
  "setup_handlers c = fold (\<lambda>(ty, h) c. client_on c (js ty) h)
     [(''participant.joined'', OnJoined), (''participant.left'', OnLeft), (''chat.message'', OnChat),
      (''error'', OnError), (''disconnected'', OnDisconnected)] c"

section \<open>Joining\<close>

definition to_track :: "media_track \<Rightarrow> track" where
  "to_track t = \<lparr>tk_id = mt_id t, tk_kind = mt_kind t\<rparr>"

text \<open>The call of before, if it still waits, keeps its client.\<close>

definition earlier_joins :: "app \<Rightarrow> (signal_listener client \<times> join_await) list" where
  "earlier_joins a = ap_earlier a @
     (case ap_signaling a of Some c \<Rightarrow> if ap_await a = AwaitNothing then [] else [(c, ap_await a)] | None \<Rightarrow> [])"

text \<open>\<open>onJoinRoom\<close> up to its first \<open>await\<close>; the new socket is number \<open>n\<close>.\<close>

definition onJoinRoom :: "nat \<Rightarrow> app \<Rightarrow> app \<times> app_call list" where
  "onJoinRoom n a =
     (let d = cancelPendingCapture (ap_devices a);
          muted = (\<not> list_ex mt_enabled (of_kind ''audio'' (dv_localStream d)));
          video = list_ex mt_enabled (of_kind ''video'' (dv_localStream d));
          u = createVideoTile (Str (js ''local'')) (Str (ap_displayName a @ js '' (You)'')) (Some 0) True
                (showView ''room'' (setCameraEnabled video (setMuted muted (ap_ui a))))
      in (a\<lparr>ap_devices := d, ap_muted := muted, ap_videoEnabled := video, ap_ui := u,
            ap_signaling := Some (client_connect n (setup_handlers new_SignalingClient)), ap_await := AwaitConnect n,
            ap_earlier := earlier_joins a\<rparr>,
          (case dv_animationFrameId d of Some f \<Rightarrow> [ByDevices (CancelFrame f)] | None \<Rightarrow> [])))"

text \<open>The \<open>catch\<close> of \<open>onJoinRoom\<close>: it leaves whatever meeting the module is in.\<close>

definition join_caught :: "jsval \<Rightarrow> app \<Rightarrow> app \<times> app_call list" where
  "join_caught err a = leaveRoom (with_ui (showNotification (js_or err (Str (js ''Failed to join room''))) UI.Error) a)"

definition join_failed :: "jsval \<Rightarrow> app \<Rightarrow> app \<times> app_call list" where
  "join_failed err a = join_caught err (a\<lparr>ap_await := AwaitNothing\<rparr>)"

text \<open>After \<open>connect\<close>: the join request, with the id \<open>i\<close>.\<close>

definition join_connected :: "jstring \<Rightarrow> app \<Rightarrow> app \<times> app_call list" where
  "join_connected i a =
     (case ap_signaling a of
        None \<Rightarrow> (a, [])
      | Some c \<Rightarrow>
          let (c1, outs) = sendRequest c i (js ''room.join'')
                (Obj [(js ''roomId'', Str (ap_roomId a)), (js ''displayName'', Str (ap_displayName a))])
          in (a\<lparr>ap_signaling := Some c1, ap_await := AwaitJoin i\<rparr>, map ByClient outs))"

fun arr_val :: "jsval \<Rightarrow> jsval list" where
  "arr_val (Arr vs) = vs"
| "arr_val v = []"

text \<open>After the answer: the room is filled and the peer session starts with the others.\<close>

definition join_answered :: "jsval \<Rightarrow> app \<Rightarrow> app" where
  "join_answered res a =
     (let i = get_prop res (js ''participantId''); ps = arr_val (get_prop res (js ''participants''));
          a1 = a\<lparr>ap_room := setLocalInfo (ap_room a) (Str (ap_roomId a)) i, ap_await := AwaitNothing\<rparr>;
          a2 = fold app_add ps a1
      in a2\<lparr>ap_signaling := map_option webrtc_on (ap_signaling a2),
            ap_webrtc := Some (start_session new_session (map to_track (dv_localStream (ap_devices a2)))
              (filter (\<lambda>p. get_prop p (js ''id'') \<noteq> i) ps))\<rparr>)"

text \<open>An answer that cannot be taken apart: no object, no list of participants, or no object in that list.
  Then a \<open>TypeError\<close> reaches the \<open>catch\<close>, and leaving undoes what was done of the room. The text of the
  exception is the engine's; the name of its class stands for it.\<close>

definition join_malformed :: "jsval \<Rightarrow> bool" where
  "join_malformed res \<longleftrightarrow> nullish res \<or>
     (case get_prop res (js ''participants'') of Arr ps \<Rightarrow> list_ex nullish ps | _ \<Rightarrow> True)"

text \<open>After \<open>start\<close>.\<close>

definition join_finished :: "app \<Rightarrow> app" where
  "join_finished a = with_ui (showNotification
     (Str (js ''Joined room '' @ ap_roomId a @ js ''. Share this page URL to invite people.'')) Success) a"

text \<open>The continuation of \<open>onJoinRoom\<close> runs once what it awaits has settled; \<open>i\<close> is the id a join
  request would get.\<close>

definition settle_join :: "jstring \<Rightarrow> app \<Rightarrow> app \<times> app_call list" where
  "settle_join i a =
     (case (ap_await a, ap_signaling a) of
        (AwaitConnect n, Some c) \<Rightarrow>
          (case map_option so_promise (cl_sockets c n) of
             Some (Resolved v) \<Rightarrow> join_connected i a
           | Some (Rejected err) \<Rightarrow> join_failed err a
           | _ \<Rightarrow> (a, []))
      | (AwaitJoin j, Some c) \<Rightarrow>
          (case map_option rq_promise (cl_requests c j) of
             Some (Resolved res) \<Rightarrow>
               if join_malformed res then join_failed (Str (js ''TypeError'')) a else (join_answered res a, [])
           | Some (Rejected err) \<Rightarrow> join_failed err a
           | _ \<Rightarrow> (a, []))
      | _ \<Rightarrow> (a, []))"

text \<open>A frame arrives: the client handles it, the listeners run, then the continuation.\<close>

definition app_frame :: "jstring \<Rightarrow> jsval \<Rightarrow> app \<Rightarrow> app \<times> app_call list" where
  "app_frame i msg a =
     (case ap_signaling a of
        None \<Rightarrow> (a, [])
      | Some c \<Rightarrow>
          let (c1, outs) = onmessage c (Some msg);
              (b, es) = run_outs outs (a\<lparr>ap_signaling := Some c1\<rparr>);
              (d, fs) = settle_join i b
          in (d, es @ fs))"

text \<open>The socket closes.\<close>

definition app_closed :: "jstring \<Rightarrow> nat \<Rightarrow> app \<Rightarrow> app \<times> app_call list" where
  "app_closed i n a =
     (case ap_signaling a of
        None \<Rightarrow> (a, [])
      | Some c \<Rightarrow>
          let (c1, outs) = onclose n c;
              (b, es) = run_outs outs (a\<lparr>ap_signaling := Some c1\<rparr>);
              (d, fs) = settle_join i b
          in (d, es @ fs))"

text \<open>
  An event \<open>f\<close> of the \<open>k\<close>th earlier client. Leaving has disconnected that client, and the room's view hid
  the button that joins until then, so its socket opens no more and brings no answer, as
  \<open>hung_up_rejects\<close> of \<open>SignalingProperties\<close> says: what is awaited of it is rejected in the end, and the
  \<open>catch\<close> of that call runs.
\<close>

definition awaited :: "signal_listener client \<Rightarrow> join_await \<Rightarrow> outcome option" where
  "awaited c w =
     (case w of
        AwaitNothing \<Rightarrow> None
      | AwaitConnect n \<Rightarrow> map_option so_promise (cl_sockets c n)
      | AwaitJoin i \<Rightarrow> map_option rq_promise (cl_requests c i))"

definition app_earlier :: "nat \<Rightarrow> (signal_listener client \<Rightarrow> signal_listener client) \<Rightarrow> app \<Rightarrow> app \<times> app_call list" where
  "app_earlier k f a =
     (if k < length (ap_earlier a) then
        let (c, w) = ap_earlier a ! k in
        case awaited (f c) w of
          Some (Rejected err) \<Rightarrow> join_caught err (a\<lparr>ap_earlier := take k (ap_earlier a) @ drop (Suc k) (ap_earlier a)\<rparr>)
        | _ \<Rightarrow> (a\<lparr>ap_earlier := (ap_earlier a)[k := (f c, w)]\<rparr>, [])
      else (a, []))"

section \<open>Chat\<close>

text \<open>\<open>sendChat\<close> with the value of the input: what is sent, or the exception of \<open>send\<close>.\<close>

definition sendChat :: "jstring \<Rightarrow> app \<Rightarrow> jstring + app_call list" where
  "sendChat field a =
     (let text = trim field in
      case ap_signaling a of
        None \<Rightarrow> Inr []
      | Some c \<Rightarrow> if text = [] then Inr []
          else map_sum id (map ByClient) (client_send c (js ''chat.send'') (Obj [(js ''text'', Str text)]) Undefined))"

end
