(* ===== verification/Meeting.thy ===== *)
theory Meeting
  imports RoomManager ServerProperties SignalingProperties App
begin

text \<open>
  Both ends together: what a participant's page shows of the room it is in, against the room the
  server keeps. The two sides meet in an abstract roster, a list of participants changed by the
  frames a client gets: the server's steps and the page's reaction to frames both implement it.
  A socket delivers the frames sent on it in order.
\<close>

section \<open>The roster\<close>

definition frames_to :: "nat \<Rightarrow> effect list \<Rightarrow> jsval list" where
  "frames_to w es = concat (map (\<lambda>e. case e of Send v m \<Rightarrow> if v = w then [m] else [] | _ \<Rightarrow> []) es)"

lemma frames_to_simps [simp]:
  "frames_to w [] = []" "frames_to w (xs @ ys) = frames_to w xs @ frames_to w ys"
  "frames_to w (Send v m # es) = (if v = w then m # frames_to w es else frames_to w es)"
  by (simp_all add: frames_to_def)

lemma frames_to_in: "m \<in> set (frames_to w es) \<longleftrightarrow> Send w m \<in> set es"
  by (auto simp: frames_to_def split: effect.splits if_splits)

definition keyed :: "jsval list \<Rightarrow> (jsval \<times> jsval) list" where
  "keyed ps = map (\<lambda>p. (id_of p, p)) ps"

definition roster_add :: "jsval \<Rightarrow> jsval list \<Rightarrow> jsval list" where
  "roster_add p ps = map snd (AList.update (id_of p) p (keyed ps))"

definition roster_remove :: "jsval \<Rightarrow> jsval list \<Rightarrow> jsval list" where
  "roster_remove i ps = filter (\<lambda>p. id_of p \<noteq> i) ps"

definition roster_frame :: "jsval \<Rightarrow> jsval list \<Rightarrow> jsval list" where
  "roster_frame m ps =
     (if msg_type m = Str (js ''participant.joined'') \<and> \<not> nullish (msg_field m ''participant'')
        then roster_add (msg_field m ''participant'') ps
      else if msg_type m = Str (js ''participant.left'') \<and> \<not> nullish (get_prop m (js ''payload''))
        then roster_remove (msg_field m ''participantId'') ps
      else ps)"

lemma roster_add_fresh: "id_of p \<notin> id_of ` set ps \<Longrightarrow> roster_add p ps = ps @ [p]"
  by (simp add: roster_add_def keyed_def update_fresh comp_def image_image)

lemma keyed_values [simp]: "map snd (keyed ps) = ps"
  by (simp add: keyed_def comp_def)

section \<open>The server's side\<close>

definition roster :: "server \<Rightarrow> jstring \<Rightarrow> jsval list" where
  "roster s r = map (publicParticipant \<circ> snd) (room_of s r)"

lemma publicParticipant_props [simp]:
  "id_of (publicParticipant p) = Str (p_id p)" "get_prop (publicParticipant p) (js ''displayName'') = Str (p_displayName p)"
  "wire (publicParticipant p) = publicParticipant p" "publicParticipant p \<noteq> Undefined"
  by (simp_all add: publicParticipant_def get_prop.simps)

lemma roster_some [simp]: "list_all (\<lambda>p. \<not> nullish p) (roster s r)"
  by (simp add: roster_def list_all_iff publicParticipant_def nullish_def)

text \<open>The frames a client acts on and those it does not; the server sends no \<open>disconnected\<close>.\<close>

definition neutral :: "jsval \<Rightarrow> bool" where
  "neutral m \<longleftrightarrow> msg_type m \<noteq> Str (js ''participant.joined'') \<and> msg_type m \<noteq> Str (js ''participant.left'') \<and>
     msg_type m \<noteq> Str (js ''disconnected'')"

lemma neutral_roster: "neutral m \<Longrightarrow> roster_frame m ps = ps"
  by (simp add: neutral_def roster_frame_def)

lemma neutral_frames: "(\<And>m. m \<in> set ms \<Longrightarrow> neutral m) \<Longrightarrow> fold roster_frame ms ps = ps"
  by (induction ms arbitrary: ps) (simp_all add: neutral_roster)

lemma neutral_send: "m \<in> set (frames_to w (send s v ty pl r)) \<Longrightarrow> ty \<notin> {''participant.joined'', ''participant.left'', ''disconnected''} \<Longrightarrow> neutral m"
  by (auto simp: frames_to_in send_effects neutral_def)

lemma frames_to_map: "distinct vs \<Longrightarrow> frames_to w (map (\<lambda>v. Send v m) vs) = (if w \<in> set vs then [m] else [])"
  by (induction vs) auto

lemma frames_to_broadcast:
  assumes inv: "server_inv cfg t" and p: "part_of t w = Some p" and rdy: "ready_of t w = OPEN"
  shows "frames_to w (broadcast_room t (room_of t r) ty pl except) =
    (if p_roomId p = r \<and> Some (p_id p) \<noteq> except then [wire (envelope (js ty) pl Undefined)] else [])"
proof -
  have "distinct (map p_ws (map snd (room_of t r)))"
    using distinct_room_sockets [OF inv, of r] by (simp add: room_sockets_def comp_def)
  then have "distinct (open_members t (room_of t r) except)"
    unfolding open_members_def by (rule distinct_map_filter)
  moreover have "w \<in> set (open_members t (room_of t r) except) \<longleftrightarrow> p_roomId p = r \<and> Some (p_id p) \<noteq> except"
  proof -
    have "w \<in> set (open_members t (room_of t r) except) \<longleftrightarrow>
        (\<exists>i q. (i, q) \<in> set (room_of t r) \<and> p_ws q = w \<and> Some (p_id q) \<noteq> except)"
      using rdy by (force simp: open_members_def)
    also have "\<dots> \<longleftrightarrow> p_roomId p = r \<and> Some (p_id p) \<noteq> except"
      using p inv_part [OF inv p] by (auto simp: inv_room_of [OF inv])
    finally show ?thesis .
  qed
  ultimately show ?thesis by (simp add: broadcast_room_map frames_to_map)
qed

text \<open>A frame set of neutral frames, for a step that leaves the rooms alone.\<close>

lemma neutral_step:
  assumes "\<And>m. m \<in> set (frames_to w es) \<Longrightarrow> neutral m" and "roster t r = roster s r"
  shows "fold roster_frame (frames_to w es) (roster s r) = roster t r \<and> (\<forall>m \<in> set (frames_to w es). msg_type m \<noteq> Str (js ''disconnected''))"
  using assms by (auto simp: neutral_frames) (simp add: neutral_def)

lemma roster_cong: "sv_rooms t = sv_rooms s \<Longrightarrow> roster t = roster s"
  by (simp add: roster_def room_of_def fun_eq_iff)

lemma roster_set_conn [simp]: "roster (set_conn v c s) = roster s"
  by (rule roster_cong) simp

lemma neutral_fail: "m \<in> set (frames_to w (fail s v code x r)) \<Longrightarrow> neutral m"
  unfolding fail_def by (erule neutral_send) simp

lemma neutral_broadcast:
  "m \<in> set (frames_to w (broadcast_room s room ''chat.message'' pl except)) \<Longrightarrow> neutral m"
  by (auto simp: frames_to_in broadcast_room_map neutral_def)

lemma roster_ids: "id_of ` set (roster s r) = Str ` (p_id \<circ> snd) ` set (room_of s r)"
  by (auto simp: roster_def image_image)

lemma joined_frame:
  "roster_frame (wire (envelope (js ''participant.joined'') (Obj [(js ''participant'', publicParticipant q)]) Undefined)) ps =
     roster_add (publicParticipant q) ps"
  by (simp add: roster_frame_def msg_field_wire get_prop.simps Let_def) (simp add: nullish_def publicParticipant_def)

lemma left_frame:
  "roster_frame (wire (envelope (js ''participant.left'') (Obj [(js ''participantId'', Str i)]) Undefined)) ps =
     roster_remove (Str i) ps"
  by (simp add: roster_frame_def msg_field_wire get_prop_wire_envelope nullish_def get_prop.simps Let_def)

lemma seated_roster:
  assumes inv: "server_inv cfg s" and inv_t: "server_inv cfg t" and t: "t = take_seat s v c q"
    and v: "part_of s v = None" and fresh: "\<And>u q'. part_of s u = Some q' \<Longrightarrow> p_id q' \<noteq> p_id q"
    and p: "part_of s w = Some p" and rdy: "ready_of s w = OPEN"
  shows "fold roster_frame (frames_to w (join_effects cfg t v q r)) (roster s (p_roomId p)) = roster t (p_roomId p) \<and>
    (\<forall>m \<in> set (frames_to w (join_effects cfg t v q r)). msg_type m \<noteq> Str (js ''disconnected''))"
proof -
  have vw: "v \<noteq> w" using v p by auto
  have p_t: "part_of t w = Some p" and rdy_t: "ready_of t w = OPEN" using vw p rdy by (simp_all add: t take_seat_part take_seat_ready)
  let ?m = "wire (envelope (js ''participant.joined'') (Obj [(js ''participant'', publicParticipant q)]) Undefined)"
  have "frames_to w (send t v ''room.joined'' pl r) = []" for pl using vw by (simp add: send_def)
  then have frames: "frames_to w (join_effects cfg t v q r) = (if p_roomId p = p_roomId q then [?m] else [])"
    using fresh [OF p] by (simp add: join_effects_def frames_to_broadcast [OF inv_t p_t rdy_t])
  have keys: "p_id q \<notin> set (keys_of (room_of s (p_roomId q)))"
    using room_entryD(1,3) [OF inv] fresh by fastforce
  then have "roster t (p_roomId p) = (if p_roomId p = p_roomId q
      then roster s (p_roomId p) @ [publicParticipant q] else roster s (p_roomId p))"
    by (simp add: roster_def t room_of_take_seat update_fresh)
  moreover have "id_of (publicParticipant q) \<notin> id_of ` set (roster s (p_roomId q))"
    using keys room_entryD(3) [OF inv] by (auto simp: roster_ids image_iff)
  ultimately show ?thesis by (simp add: frames joined_frame roster_add_fresh)
qed

lemma message_roster:
  assumes reach: "server_reachable cfg s" and step: "server_step cfg s (Message v f d, es) t"
    and p: "part_of s w = Some p" and rdy: "ready_of s w = OPEN"
  shows "fold roster_frame (frames_to w es) (roster s (p_roomId p)) = roster t (p_roomId p) \<and>
    (\<forall>m \<in> set (frames_to w es). msg_type m \<noteq> Str (js ''disconnected''))"
proof -
  obtain c c' where c: "map_of (sv_clients s) v = Some c" and c': "c' = fst (take_token cfg (now1 d) (now2 d) c)"
    and m: "on_message cfg d s v c f = (t, es)" and inv1: "server_inv cfg (set_conn v c' s)" and inv_t: "server_inv cfg t"
    and part: "part_of (set_conn v c' s) = part_of s" and rdy1: "ready_of (set_conn v c' s) = ready_of s"
    by (rule message_step_states [OF reach step])
  have uuid: "fresh_uuid s (uuid d)" using step by (auto elim: message_stepE)
  from m show ?thesis
  proof (cases rule: on_message_cases)
    case (refused code x r)
    then show ?thesis by (intro neutral_step) (auto dest: neutral_fail simp: c')
  next
    case (request msg)
    from request(4) show ?thesis unfolding c' [symmetric]
    proof (cases rule: handle_request_cases)
      case (reply ty pl)
      then show ?thesis by (intro neutral_step) (auto dest: neutral_send)
    next
      case (seated q)
      have "part_of s v = None" using seated(3) c by (simp add: seatable_def c' part_of_conn)
      with seated_roster [OF inv1 inv_t seated(4), of w p] seated(2) part rdy1 p rdy fresh_uuidD [OF uuid]
      show ?thesis by (simp add: seated(5))
    next
      case (relay q room i q' ty copied)
      then show ?thesis by (intro neutral_step) (auto dest!: neutral_send simp: relay_types_def)
    next
      case (chat q room x)
      then show ?thesis by (intro neutral_step) (auto dest: neutral_broadcast)
    qed
  qed
qed

lemma close_roster:
  assumes reach: "server_reachable cfg s" and step: "server_step cfg s (Close v, es) t"
    and p: "part_of s w = Some p" and p_t: "part_of t w = Some p" and rdy_t: "ready_of t w = OPEN"
  shows "fold roster_frame (frames_to w es) (roster s (p_roomId p)) = roster t (p_roomId p) \<and>
    (\<forall>m \<in> set (frames_to w es). msg_type m \<noteq> Str (js ''disconnected''))"
proof -
  note inv = server_reachable_inv [OF reach] and inv_t = server_step_inv [OF server_reachable_inv [OF reach] step]
  from step obtain c where c: "map_of (sv_clients s) v = Some c" and cl: "on_close s v c = Some (t, es)"
    by (auto elim: close_stepE)
  show ?thesis
  proof (cases "ws_participant c")
    case None
    with cl show ?thesis by (intro neutral_step) (auto simp: on_close_def roster_def room_of_def)
  next
    case (Some q)
    then have q: "part_of s v = Some q" using c by (simp add: part_of_conn)
    from inv_seat [OF inv q] obtain room where room: "map_of (sv_rooms s) (p_roomId q) = Some room" by metis
    let ?s1 = "s\<lparr>sv_clients := AList.delete v (sv_clients s)\<rparr>" and ?r = "p_roomId q"
    have t: "t = ?s1\<lparr>sv_rooms := table_leave (sv_rooms s) ?r (p_id q)\<rparr>"
      and es: "es = broadcast_room ?s1 (AList.delete (p_id q) room) ''participant.left'' (Obj [(js ''participantId'', Str (p_id q))]) None"
      using cl Some room by (auto simp: on_close_def Let_def rooms_leave_eq)
    have room_t: "room_of t r = (if r = ?r then AList.delete (p_id q) room else room_of s r)" for r
      by (auto simp: t room_of_def table_leave_def room map_of_table_put)
    have "es = broadcast_room t (room_of t ?r) ''participant.left'' (Obj [(js ''participantId'', Str (p_id q))]) None"
      unfolding es room_t by (simp add: broadcast_room_map open_members_def t)
    then have frames: "frames_to w es = (if p_roomId p = ?r
        then [wire (envelope (js ''participant.left'') (Obj [(js ''participantId'', Str (p_id q))]) Undefined)] else [])"
      by (simp add: frames_to_broadcast [OF inv_t p_t rdy_t])
    have "AList.delete (p_id q) room = filter (\<lambda>x. p_id (snd x) \<noteq> p_id q) room"
      unfolding filter_distinct_update using room_entryD(3) [OF inv, of _ ?r] room by (intro filter_cong) (auto simp: room_of_Some)
    then have "roster t ?r = roster_remove (Str (p_id q)) (roster s ?r)"
      by (simp add: roster_def room_t room_of_Some [OF room] roster_remove_def filter_map comp_def)
    moreover have "roster t r = roster s r" if "r \<noteq> ?r" for r using that by (simp add: roster_def room_t)
    ultimately show ?thesis by (auto simp: frames left_frame)
  qed
qed

lemma roster_step:
  assumes reach: "server_reachable cfg s" and step: "server_step cfg s (ev, es) t" and p: "part_of s w = Some p"
    and p_t: "part_of t w = Some p" and rdy: "ready_of s w = OPEN" "ready_of t w = OPEN"
  shows "fold roster_frame (frames_to w es) (roster s (p_roomId p)) = roster t (p_roomId p) \<and>
    (\<forall>m \<in> set (frames_to w es). msg_type m \<noteq> Str (js ''disconnected''))"
proof (cases "\<exists>v f d. ev = Message v f d \<or> ev = Close v")
  case True
  then show ?thesis
    using message_roster [OF reach _ p rdy(1)] close_roster [OF reach _ p p_t rdy(2)] step by blast
next
  case False
  with step have "frames_to w es = [] \<and> sv_rooms t = sv_rooms s"
    by cases (auto simp: on_connection_def on_heartbeat_def on_server_error_def shutdown_def frames_to_def)
  then show ?thesis using roster_cong [of t s] by simp
qed

text \<open>A connection stays seated until it closes, and its socket only moves towards closing.\<close>

lemma heartbeat_ready: "ready_of (fst (on_heartbeat s)) = ready_of s"
  by (auto simp: ready_of_def on_heartbeat_def map_of_map_values fun_eq_iff split: option.splits)

lemma stay_step:
  assumes "server_step cfg s (ev, es) t" and p: "part_of s w = Some p" and "ev \<noteq> Close w"
  shows "part_of t w = Some p \<and> ready_of s w \<le> ready_of t w"
  using assms(1)
proof cases
  case (message v c d f)
  from message(4) obtain c' where "ws_participant c' = ws_participant c" "ws_readyState c' = ws_readyState c"
    and "t = set_conn v c' s \<or> (\<exists>q. p_id q = uuid d \<and> seatable cfg (set_conn v c' s) v c' q \<and> t = take_seat (set_conn v c' s) v c' q)"
    by (rule on_message_state)
  with message(2) p show ?thesis
    by (auto simp: part_of_conn ready_of_conn take_seat_part take_seat_ready seatable_def)
next
  case (close v c)
  with assms(3) have "v \<noteq> w" by blast
  with close(3) p show ?thesis
    by (auto simp: on_close_def Let_def part_of_def ready_of_def map_of_delete_eq split: option.splits)
next
  case (connect v now rs)
  then have "v \<noteq> w" using p by (auto simp: part_of_def)
  with connect p show ?thesis by (simp add: on_connection_def)
next
  case heartbeat
  then have "t = fst (on_heartbeat s)" by (metis fst_conv)
  then show ?thesis using heartbeat_part [of s] heartbeat_ready [of s] p by simp
next
  case (pong v c)
  with p show ?thesis by (auto simp: part_of_conn ready_of_conn)
next
  case (ready v c rs)
  with p show ?thesis by (auto simp: part_of_conn ready_of_conn)
qed (use p in \<open>auto simp: on_server_error_def shutdown_def part_of_def ready_of_def\<close>)

lemma stay_run:
  "execution (server_step cfg) s ls t \<Longrightarrow> part_of s w = Some p \<Longrightarrow> list_all (\<lambda>(ev, es). ev \<noteq> Close w) ls \<Longrightarrow>
   part_of t w = Some p \<and> ready_of s w \<le> ready_of t w"
proof (induction rule: execution.induct)
  case (execution_cons s l u ls t)
  obtain ev es where l: "l = (ev, es)" by force
  have "part_of u w = Some p \<and> ready_of s w \<le> ready_of u w"
    by (rule stay_step [OF execution_cons(1) [unfolded l] execution_cons(4)]) (use execution_cons(5) l in auto)
  with execution_cons(3,5) show ?case by auto
qed simp

lemma open_between: "OPEN \<le> r \<Longrightarrow> r \<le> OPEN \<Longrightarrow> r = OPEN"
  by (rule antisym)

lemma roster_run:
  "execution (server_step cfg) s ls t \<Longrightarrow> server_reachable cfg s \<Longrightarrow> part_of s w = Some p \<Longrightarrow>
   list_all (\<lambda>(ev, es). ev \<noteq> Close w) ls \<Longrightarrow> ready_of s w = OPEN \<Longrightarrow> ready_of t w = OPEN \<Longrightarrow>
   fold roster_frame (frames_to w (concat (map snd ls))) (roster s (p_roomId p)) = roster t (p_roomId p) \<and>
   (\<forall>m \<in> set (frames_to w (concat (map snd ls))). msg_type m \<noteq> Str (js ''disconnected''))"
proof (induction rule: execution.induct)
  case (execution_cons s l u ls t)
  obtain ev es where l: "l = (ev, es)" by force
  note step = execution_cons(1) [unfolded l]
  have ev: "ev \<noteq> Close w" and rest: "list_all (\<lambda>(ev, es). ev \<noteq> Close w) ls" using execution_cons(6) l by auto
  from stay_step [OF step execution_cons(5) ev] have p: "part_of u w = Some p" and le: "OPEN \<le> ready_of u w"
    using execution_cons(7) by simp_all
  moreover have "ready_of u w \<le> OPEN"
    using stay_run [OF execution_cons(2) p rest] execution_cons(8) by simp
  ultimately have rdy: "ready_of u w = OPEN" by (intro open_between)
  have reach: "server_reachable cfg u" by (rule server_reachable_step [OF execution_cons(4) step])
  from roster_step [OF execution_cons(4) step execution_cons(5) p execution_cons(7) rdy]
    execution_cons(3) [OF reach p rest rdy execution_cons(8)]
  show ?case by (auto simp: l)
qed simp

section \<open>The page's side\<close>

text \<open>A page in the meeting: its listeners are in place and it shows the participants \<open>ps\<close>.\<close>

definition listeners_ok :: "signal_listener client \<Rightarrow> bool" where
  "listeners_ok c \<longleftrightarrow> client_calls c (js ''participant.joined'') = [OnJoined] \<and>
     client_calls c (js ''participant.left'') = [OnLeft] \<and>
     (\<forall>ty. ty \<notin> {js ''participant.joined'', js ''participant.left'', js ''disconnected''} \<longrightarrow>
        set (client_calls c ty) \<inter> {OnJoined, OnLeft, OnDisconnected} = {})"

definition room_listeners_ok :: "room_listener room_state \<Rightarrow> bool" where
  "room_listeners_ok r \<longleftrightarrow> room_state_ok r \<and> listener_calls (rs_listeners r) (js ''participantAdded'') = [OnAdded] \<and>
     listener_calls (rs_listeners r) (js ''participantRemoved'') = [OnRemoved]"

definition listed :: "jsval list \<Rightarrow> jsval list" where
  "listed ps = map (\<lambda>p. js_or (get_prop p (js ''displayName'')) (id_of p)) ps"

definition shows_roster :: "app \<Rightarrow> jsval list \<Rightarrow> bool" where
  "shows_roster a ps \<longleftrightarrow> room_listeners_ok (ap_room a) \<and> getAllParticipants (ap_room a) = ps \<and>
     ui_participants (ap_ui a) = listed ps"

definition in_meeting :: "app \<Rightarrow> jsval list \<Rightarrow> bool" where
  "in_meeting a ps \<longleftrightarrow> shows_roster a ps \<and> ap_await a = AwaitNothing \<and>
     (\<exists>c. ap_signaling a = Some c \<and> listeners_ok c)"

lemma room_state_keyed: "room_state_ok r \<Longrightarrow> rs_participants r = keyed (getAllParticipants r)"
proof -
  have "list_all (\<lambda>(k, p). k = id_of p) m \<Longrightarrow> m = keyed (map snd m)" for m
    by (induction m) (auto simp: keyed_def)
  then show "room_state_ok r \<Longrightarrow> rs_participants r = keyed (getAllParticipants r)"
    unfolding room_state_ok_def getAllParticipants_def by blast
qed

lemma createVideoTile_list [simp]: "ui_participants (createVideoTile i n st l u) = ui_participants u"
  and removeVideoTile_list [simp]: "ui_participants (removeVideoTile i u) = ui_participants u"
  by (simp_all add: createVideoTile_def removeVideoTile_def)

lemma updateParticipantsList_list [simp]: "ui_participants (updateParticipantsList ps u) = listed ps"
  by (simp add: updateParticipantsList_def listed_def)

lemma run_room_listener_fields [simp]:
  "ap_room (run_room_listener l a) = ap_room a" "ap_signaling (run_room_listener l a) = ap_signaling a"
  "ap_await (run_room_listener l a) = ap_await a" "ap_webrtc (run_room_listener l a) = ap_webrtc a"
  "ap_devices (run_room_listener l a) = ap_devices a" "ap_roomId (run_room_listener l a) = ap_roomId a"
  "ui_participants (ap_ui (run_room_listener l a)) = listed (getAllParticipants (ap_room a))"
  by (cases l; cases "fst l"; simp add: with_ui_def)+

lemma addParticipant_listeners [simp]: "rs_listeners (fst (addParticipant r p)) = rs_listeners r"
  and removeParticipant_listeners [simp]: "rs_listeners (fst (removeParticipant r i)) = rs_listeners r"
  by (simp_all add: addParticipant_def removeParticipant_def Let_def)

lemma app_add_shows:
  assumes "shows_roster a ps"
  shows "shows_roster (app_add p a) (roster_add p ps)" and "ap_signaling (app_add p a) = ap_signaling a"
    and "ap_await (app_add p a) = ap_await a" and "ap_devices (app_add p a) = ap_devices a" and "ap_roomId (app_add p a) = ap_roomId a"
    and "rs_localParticipantId (ap_room (app_add p a)) = rs_localParticipantId (ap_room a)"
proof -
  let ?r = "fst (addParticipant (ap_room a) p)"
  have ok: "room_listeners_ok (ap_room a)" and ps: "getAllParticipants (ap_room a) = ps"
    using assms by (simp_all add: shows_roster_def)
  have "rs_participants (ap_room a) = keyed ps" using ok ps by (simp add: room_listeners_ok_def room_state_keyed)
  then have r: "getAllParticipants ?r = roster_add p ps" "rs_localParticipantId ?r = rs_localParticipantId (ap_room a)"
    by (simp_all add: addParticipant_def getAllParticipants_def roster_add_def Let_def)
  have "snd (addParticipant (ap_room a) p) = [(OnAdded, p)]"
    using ok by (simp add: addParticipant_def room_emit_def room_listeners_ok_def Let_def)
  then have a: "app_add p a = run_room_listener (OnAdded, p) (a\<lparr>ap_room := ?r\<rparr>)"
    by (simp add: app_add_def split_beta)
  have "room_listeners_ok ?r" using ok by (simp add: room_listeners_ok_def addParticipant_ok)
  with r show "shows_roster (app_add p a) (roster_add p ps)"
    by (simp add: shows_roster_def a del: run_room_listener.simps)
  show "ap_signaling (app_add p a) = ap_signaling a" "ap_await (app_add p a) = ap_await a"
    "ap_devices (app_add p a) = ap_devices a" "ap_roomId (app_add p a) = ap_roomId a"
    "rs_localParticipantId (ap_room (app_add p a)) = rs_localParticipantId (ap_room a)"
    using r by (simp_all add: a del: run_room_listener.simps)
qed

lemma app_remove_shows:
  assumes "shows_roster a ps"
  shows "shows_roster (app_remove i a) (roster_remove i ps)" and "ap_signaling (app_remove i a) = ap_signaling a"
    and "ap_await (app_remove i a) = ap_await a"
    and "rs_localParticipantId (ap_room (app_remove i a)) = rs_localParticipantId (ap_room a)"
proof -
  let ?r = "fst (removeParticipant (ap_room a) i)" and ?cs = "snd (removeParticipant (ap_room a) i)"
  have ok: "room_listeners_ok (ap_room a)" and ps: "getAllParticipants (ap_room a) = ps" and ui: "ui_participants (ap_ui a) = listed ps"
    using assms by (simp_all add: shows_roster_def)
  have r: "getAllParticipants ?r = roster_remove i ps" "room_listeners_ok ?r" "rs_localParticipantId ?r = rs_localParticipantId (ap_room a)"
    using ok ps by (simp_all add: room_listeners_ok_def removed_participants roster_remove_def removeParticipant_ok)
      (simp add: removeParticipant_def Let_def)
  consider "?cs = [(OnRemoved, i)]" | "?cs = []" "?r = ap_room a"
    using ok by (cases "map_of (rs_participants (ap_room a)) i")
      (auto simp: removeParticipant_def room_emit_def room_listeners_ok_def Let_def)
  then have "app_remove i a = run_room_listener (OnRemoved, i) (a\<lparr>ap_room := ?r\<rparr>) \<or> app_remove i a = a \<and> ?r = ap_room a"
    by cases (simp_all add: app_remove_def split_beta)
  with r ui ps show "shows_roster (app_remove i a) (roster_remove i ps)" "ap_signaling (app_remove i a) = ap_signaling a"
    "ap_await (app_remove i a) = ap_await a" "rs_localParticipantId (ap_room (app_remove i a)) = rs_localParticipantId (ap_room a)"
    by (auto simp: shows_roster_def simp del: run_room_listener.simps)
qed

text \<open>The client's part of a frame: its listeners stay, and it calls those of the type.\<close>

lemma onmessage_calls [simp]: "client_calls (fst (onmessage c m)) = client_calls c"
  by (simp add: onmessage_def handleMessage_state client_calls_def with_request_def drop_pending_def fun_eq_iff split: option.split)

lemma client_calls_request [simp]: "client_calls (with_request i f c) = client_calls c"
  and client_calls_drop [simp]: "client_calls (drop_pending i c) = client_calls c"
  by (simp_all add: client_calls_def with_request_def drop_pending_def fun_eq_iff)

lemma client_emit_cong: "client_calls d = client_calls c \<Longrightarrow> client_emit d t v = client_emit c t v"
  by (cases t) simp_all

lemma onmessage_outs:
  "snd (onmessage c (Some m)) = client_emit c (msg_type m) (get_prop m (js ''payload'')) \<or>
   snd (onmessage c (Some m)) = [] \<and> (msg_type m = Undefined \<or> msg_type m = Str (js ''error''))"
  by (auto simp: onmessage_def handleMessage_def msg_type_def Let_def nullish_def get_prop.simps split: option.split
      intro: client_emit_cong simp del: client_emit.simps)

definition quiet :: "signal_listener \<Rightarrow> bool" where
  "quiet h \<longleftrightarrow> h \<notin> {OnJoined, OnLeft, OnDisconnected}"

lemma quiet_listener:
  assumes "quiet h" and "shows_roster a ps"
  shows "shows_roster (fst (run_signal_listener h v a)) ps \<and> ap_signaling (fst (run_signal_listener h v a)) = ap_signaling a \<and>
    ap_await (fst (run_signal_listener h v a)) = ap_await a \<and>
    ap_roomId (fst (run_signal_listener h v a)) = ap_roomId a \<and> ap_room (fst (run_signal_listener h v a)) = ap_room a \<and>
    ap_devices (fst (run_signal_listener h v a)) = ap_devices a"
  using assms by (cases h) (auto simp: quiet_def shows_roster_def with_ui_def appendMessage_def showNotification_def)

lemma quiet_outs:
  "\<forall>h \<in> set hs. quiet h \<Longrightarrow> shows_roster a ps \<Longrightarrow>
   shows_roster (fst (run_outs (map (\<lambda>h. CallListener h v) hs) a)) ps \<and>
   ap_signaling (fst (run_outs (map (\<lambda>h. CallListener h v) hs) a)) = ap_signaling a \<and>
   ap_await (fst (run_outs (map (\<lambda>h. CallListener h v) hs) a)) = ap_await a \<and>
   ap_roomId (fst (run_outs (map (\<lambda>h. CallListener h v) hs) a)) = ap_roomId a \<and>
   ap_room (fst (run_outs (map (\<lambda>h. CallListener h v) hs) a)) = ap_room a \<and>
   ap_devices (fst (run_outs (map (\<lambda>h. CallListener h v) hs) a)) = ap_devices a"
proof (induction hs arbitrary: a)
  case (Cons h hs)
  from quiet_listener [of h a ps v] Cons.prems Cons.IH [of "fst (run_signal_listener h v a)"]
  show ?case by (simp add: split_beta)
qed simp

lemma shows_roster_signaling [simp]: "shows_roster (a\<lparr>ap_signaling := c\<rparr>) ps = shows_roster a ps"
  and shows_roster_webrtc [simp]: "shows_roster (a\<lparr>ap_webrtc := w\<rparr>) ps = shows_roster a ps"
  and shows_roster_await [simp]: "shows_roster (a\<lparr>ap_await := j\<rparr>) ps = shows_roster a ps"
  by (simp_all add: shows_roster_def)

lemma shows_roster_ui: "ui_participants (f (ap_ui a)) = ui_participants (ap_ui a) \<Longrightarrow> shows_roster (with_ui f a) ps = shows_roster a ps"
  by (simp add: shows_roster_def with_ui_def)

lemma with_ui_fields [simp]:
  "ap_signaling (with_ui f a) = ap_signaling a" "ap_await (with_ui f a) = ap_await a" "ap_room (with_ui f a) = ap_room a"
  "ap_roomId (with_ui f a) = ap_roomId a"
  by (simp_all add: with_ui_def)

lemma listeners_emit:
  assumes "listeners_ok c" and "ty \<noteq> Str (js ''participant.joined'')" and "ty \<noteq> Str (js ''participant.left'')"
    and "ty \<noteq> Str (js ''disconnected'')"
  obtains hs where "client_emit c ty v = map (\<lambda>h. CallListener h v) hs" and "\<forall>h \<in> set hs. quiet h"
proof (cases ty)
  case (Str x)
  then have "\<forall>h \<in> set (client_calls c x). quiet h"
    using assms unfolding listeners_ok_def quiet_def by blast
  with Str show thesis by (intro that) auto
qed (auto intro: that [of "[]"])

lemma frame_shows:
  assumes "in_meeting a ps" and "msg_type m \<noteq> Str (js ''disconnected'')"
  shows "in_meeting (fst (app_frame j m a)) (roster_frame m ps) \<and>
    rs_localParticipantId (ap_room (fst (app_frame j m a))) = rs_localParticipantId (ap_room a) \<and>
    ap_signaling (fst (app_frame j m a)) = map_option (\<lambda>c. fst (onmessage c (Some m))) (ap_signaling a)"
proof -
  from assms(1) obtain c where c: "ap_signaling a = Some c" "listeners_ok c" and sh: "shows_roster a ps"
    and await: "ap_await a = AwaitNothing" by (auto simp: in_meeting_def)
  let ?c1 = "fst (onmessage c (Some m))" and ?outs = "snd (onmessage c (Some m))" and ?v = "get_prop m (js ''payload'')"
  let ?a1 = "a\<lparr>ap_signaling := Some ?c1\<rparr>"
  have c1: "listeners_ok ?c1" using c(2) by (simp add: listeners_ok_def)
  let ?b = "fst (run_outs ?outs ?a1)"
  have frame: "fst (app_frame j m a) = fst (settle_join j ?b)" by (simp add: app_frame_def c split_beta)
  have "shows_roster ?b (roster_frame m ps) \<and> ap_signaling ?b = Some ?c1 \<and> ap_await ?b = AwaitNothing \<and>
      rs_localParticipantId (ap_room ?b) = rs_localParticipantId (ap_room a)"
  proof -
    consider (joined) "msg_type m = Str (js ''participant.joined'')" | (left) "msg_type m = Str (js ''participant.left'')"
      | (other) "msg_type m \<noteq> Str (js ''participant.joined'')" "msg_type m \<noteq> Str (js ''participant.left'')" by blast
    then show ?thesis
    proof cases
      case joined
      then have "?outs = [CallListener OnJoined ?v]"
        using onmessage_outs [of c m] c(2) by (simp add: listeners_ok_def)
      with joined sh await app_add_shows [of ?a1 ps "msg_field m ''participant''"] show ?thesis
        by (simp add: roster_frame_def msg_field_def shows_roster_ui showNotification_def Let_def)
    next
      case left
      then have outs: "?outs = [CallListener OnLeft ?v]"
        using onmessage_outs [of c m] c(2) by (simp add: listeners_ok_def)
      show ?thesis
      proof (cases "ap_webrtc a")
        case None
        with left outs sh await app_remove_shows [of ?a1 ps "msg_field m ''participantId''"] show ?thesis
          by (simp add: roster_frame_def msg_field_def)
      next
        case (Some s)
        let ?a2 = "?a1\<lparr>ap_webrtc := Some (fst (removePeer s (msg_field m ''participantId'')))\<rparr>"
        from Some left outs sh await app_remove_shows [of ?a2 ps "msg_field m ''participantId''"] show ?thesis
          by (simp add: roster_frame_def msg_field_def split_beta Let_def)
      qed
    next
      case other
      obtain hs where "?outs = map (\<lambda>h. CallListener h ?v) hs" "\<forall>h \<in> set hs. quiet h"
        using onmessage_outs [of c m] listeners_emit [OF c(2) other assms(2), of ?v] by (metis empty_iff list.set(1) list.simps(8))
      with quiet_outs [of hs ?a1 ps ?v] sh await other show ?thesis by (simp add: roster_frame_def)
    qed
  qed
  then show ?thesis using c1 c(1) by (simp add: frame settle_join_def in_meeting_def)
qed

lemma frames_show:
  "in_meeting a ps \<Longrightarrow> \<forall>m \<in> set ms. msg_type m \<noteq> Str (js ''disconnected'') \<Longrightarrow>
   in_meeting (fold (\<lambda>m a. fst (app_frame j m a)) ms a) (fold roster_frame ms ps) \<and>
   rs_localParticipantId (ap_room (fold (\<lambda>m a. fst (app_frame j m a)) ms a)) = rs_localParticipantId (ap_room a)"
  by (induction ms arbitrary: a ps) (auto dest: frame_shows [where j = j])

text \<open>A page that waits for the answer to its join request \<open>i\<close>, with an empty room.\<close>

definition joining :: "app \<Rightarrow> jstring \<Rightarrow> bool" where
  "joining a i \<longleftrightarrow> shows_roster a [] \<and> ap_await a = AwaitJoin i \<and>
     (\<exists>c r. ap_signaling a = Some c \<and> listeners_ok c \<and> i \<in> set (cl_pending c) \<and>
        cl_requests c i = Some r \<and> rq_promise r = Pending)"

lemma fold_app_add:
  "shows_roster a ps \<Longrightarrow> shows_roster (fold app_add qs a) (fold roster_add qs ps) \<and> ap_signaling (fold app_add qs a) = ap_signaling a \<and>
   ap_await (fold app_add qs a) = ap_await a \<and> rs_localParticipantId (ap_room (fold app_add qs a)) = rs_localParticipantId (ap_room a) \<and>
   ap_devices (fold app_add qs a) = ap_devices a"
proof (induction qs arbitrary: a ps)
  case (Cons q qs)
  from Cons.IH [OF app_add_shows(1) [OF Cons.prems, of q]] app_add_shows [OF Cons.prems, of q] show ?case by simp
qed simp

lemma fold_roster_add: "distinct (map id_of (ps @ qs)) \<Longrightarrow> fold roster_add qs ps = ps @ qs"
proof (induction qs arbitrary: ps)
  case (Cons q qs)
  then have "roster_add q ps = ps @ [q]" by (intro roster_add_fresh) auto
  with Cons show ?case by simp
qed simp

lemma client_on_other: "ty' \<noteq> ty \<Longrightarrow> client_calls (client_on c ty h) ty' = client_calls c ty'"
  and client_on_set: "set (client_calls (client_on c ty h) ty') \<subseteq> insert h (set (client_calls c ty'))"
  by (auto simp: client_calls_def client_on_def listener_calls_on)

lemma webrtc_on_ok: "listeners_ok c \<Longrightarrow> listeners_ok (webrtc_on c)"
proof -
  have "listeners_ok (client_on c (js ty) (OnWebrtc ty))" if "listeners_ok c" "ty \<in> set signal_types" for c ty
    using that client_on_set [of c "js ty" "OnWebrtc ty"]
    unfolding listeners_ok_def by (fastforce simp: client_on_other signal_types_def)
  then have "listeners_ok (fold (\<lambda>ty c. client_on c (js ty) (OnWebrtc ty)) tys c)"
    if "set tys \<subseteq> set signal_types" "listeners_ok c" for tys c
    using that by (induction tys arbitrary: c) auto
  then show "listeners_ok c \<Longrightarrow> listeners_ok (webrtc_on c)" by (simp add: webrtc_on_def)
qed

text \<open>The answer to the join request fills the room.\<close>

lemma joined_shows:
  assumes "joining a i" and ty: "msg_type m = Str (js ''room.joined'')" and req: "msg_request m = Str i"
    and ps: "msg_field m ''participants'' = Arr qs" and dist: "distinct (map id_of qs)" and objects: "list_all (\<lambda>p. \<not> nullish p) qs"
  shows "in_meeting (fst (app_frame j m a)) qs \<and>
    rs_localParticipantId (ap_room (fst (app_frame j m a))) = msg_field m ''participantId'' \<and>
    ap_signaling (fst (app_frame j m a)) = map_option (\<lambda>c. webrtc_on (fst (onmessage c (Some m)))) (ap_signaling a) \<and>
    ap_webrtc (fst (app_frame j m a)) = Some (start_session new_session (map to_track (dv_localStream (ap_devices a)))
      (filter (\<lambda>p. get_prop p (js ''id'') \<noteq> msg_field m ''participantId'') qs))"
proof -
  from assms(1) obtain c r where c: "ap_signaling a = Some c" "listeners_ok c" and i: "i \<in> set (cl_pending c)"
    and r: "cl_requests c i = Some r" "rq_promise r = Pending" and sh: "shows_roster a []" and await: "ap_await a = AwaitJoin i"
    by (auto simp: joining_def)
  let ?c1 = "fst (onmessage c (Some m))" and ?outs = "snd (onmessage c (Some m))" and ?v = "get_prop m (js ''payload'')"
  let ?a1 = "a\<lparr>ap_signaling := Some ?c1\<rparr>" let ?b = "fst (run_outs ?outs ?a1)"
  have some: "\<not> nullish m" using ty by (auto simp: nullish_def msg_type_def get_prop.simps)
  have "?c1 = with_request i (answered m) (drop_pending i c)"
    using some req i by (simp add: onmessage_def handleMessage_state msg_request_def)
  then have res: "map_option rq_promise (cl_requests ?c1 i) = Some (Resolved ?v)"
    using r ty by (simp add: with_request_def drop_pending_def answered_def msg_type_def finish_promise)
  have c1: "listeners_ok ?c1" using c(2) by (simp add: listeners_ok_def)
  obtain hs where "?outs = map (\<lambda>h. CallListener h ?v) hs" "\<forall>h \<in> set hs. quiet h"
    using onmessage_outs [of c m] listeners_emit [OF c(2), of "msg_type m" ?v] unfolding ty by auto
  with quiet_outs [of hs ?a1 "[]" ?v] sh have b: "shows_roster ?b []" "ap_signaling ?b = Some ?c1" "ap_await ?b = AwaitJoin i"
    "ap_devices ?b = ap_devices a"
    using await by simp_all
  have "\<not> nullish ?v" using ps by (auto simp: nullish_def msg_field_def get_prop.simps)
  then have "\<not> join_malformed ?v"
    using ps objects by (simp add: join_malformed_def msg_field_def list_all_iff list_ex_iff)
  with b have frame: "fst (app_frame j m a) = join_answered ?v ?b"
    using res by (auto simp: app_frame_def c split_beta settle_join_def)
  let ?a2 = "?b\<lparr>ap_room := setLocalInfo (ap_room ?b) (Str (ap_roomId ?b)) (get_prop ?v (js ''participantId'')), ap_await := AwaitNothing\<rparr>"
  have "shows_roster ?a2 []"
    using b(1) by (simp add: shows_roster_def room_listeners_ok_def setLocalInfo_def room_state_ok_def getAllParticipants_def)
  from fold_app_add [OF this, of qs] fold_roster_add [of "[]" qs] dist
  have "shows_roster (fold app_add qs ?a2) qs" "ap_signaling (fold app_add qs ?a2) = Some ?c1"
    "ap_await (fold app_add qs ?a2) = AwaitNothing"
    "rs_localParticipantId (ap_room (fold app_add qs ?a2)) = msg_field m ''participantId''"
    "ap_devices (fold app_add qs ?a2) = ap_devices a"
    using b by (simp_all add: setLocalInfo_def msg_field_def)
  then show ?thesis
    using ps webrtc_on_ok [OF c1] c(1) by (simp add: frame join_answered_def in_meeting_def msg_field_def Let_def)
qed

section \<open>Presence\<close>

text \<open>What the server sends to the connection that joins.\<close>

definition joined_frame_of :: "config \<Rightarrow> server \<Rightarrow> participant \<Rightarrow> jsval \<Rightarrow> jsval" where
  "joined_frame_of cfg t p r = wire (envelope (js ''room.joined'') (joined_payload cfg p (room_of t (p_roomId p))) r)"

lemma joined_payload_props:
  "msg_type (joined_frame_of cfg t p r) = Str (js ''room.joined'')"
  "msg_field (joined_frame_of cfg t p r) ''participants'' = Arr (roster t (p_roomId p))"
  "msg_field (joined_frame_of cfg t p r) ''participantId'' = Str (p_id p)"
  by (simp_all add: joined_frame_of_def joined_payload_def msg_field_wire get_prop.simps Let_def roster_def comp_def)

lemma join_frames:
  assumes reach: "server_reachable cfg s" and step: "server_step cfg s (Message w (Text (Some msg)) d, es) t"
    and unseated: "part_of s w = None" and seat: "part_of t w = Some p" and rdy: "ready_of t w = OPEN"
  shows "frames_to w es = [joined_frame_of cfg t p (request_id msg)]"
proof -
  obtain c c' where c: "map_of (sv_clients s) w = Some c" and c': "c' = fst (take_token cfg (now1 d) (now2 d) c)"
    and m: "on_message cfg d s w c (Text (Some msg)) = (t, es)" and inv_t: "server_inv cfg t"
    and part: "part_of (set_conn w c' s) = part_of s"
    by (rule message_step_states [OF reach step])
  have gone: "t \<noteq> u" if "part_of u = part_of s" for u using that unseated seat by auto
  from m show ?thesis
  proof (cases rule: on_message_cases)
    case (refused code x r)
    then show ?thesis using gone part unfolding c' by blast
  next
    case (request msg')
    then have msg': "msg' = msg" by simp
    from request(4) show ?thesis unfolding c' [symmetric] msg'
    proof (cases rule: handle_request_cases)
      case (seated q)
      then have "q = p" using seat by (simp add: take_seat_part)
      with seated(5) show ?thesis
        using rdy by (simp add: join_effects_def frames_to_broadcast [OF inv_t seat rdy] send_def joined_frame_of_def)
    qed (use gone [OF part] in auto)
  qed
qed

lemma distinct_roster: "server_inv cfg s \<Longrightarrow> distinct (map id_of (roster s r))"
proof -
  assume inv: "server_inv cfg s"
  have "map id_of (roster s r) = map Str (map (p_id \<circ> snd) (room_of s r))"
    by (simp add: roster_def)
  also have "map (p_id \<circ> snd) (room_of s r) = keys_of (room_of s r)"
    using room_entryD(3) [OF inv] by (intro map_cong) auto
  finally show ?thesis
    using room_of_table [OF inv_table [OF inv]] by (simp add: distinct_map inj_on_def)
qed

text \<open>The names the page lists are the display names: none of them is empty.\<close>

lemma listed_roster:
  assumes "server_inv cfg s"
  shows "listed (roster s r) = map (\<lambda>x. Str (p_displayName (snd x))) (room_of s r)"
proof -
  have "p_displayName (snd x) \<noteq> []" if "x \<in> set (room_of s r)" for x
    using inv_part [OF assms room_entryD(1) [OF assms that]] by (auto simp: name_ok_def)
  then show ?thesis by (simp add: listed_def roster_def js_or_def)
qed

text \<open>What a participant sees of the room is the room: from its join on, as long as its socket stays
  open and it does not leave, its page, having taken the frames the server sent it in order, holds the
  participants of the server's room in the server's order, lists their display names in that order,
  and knows its own id, whatever joins, leaves, chat, relays, errors and heartbeats of any clients came
  in between.\<close>

theorem presence_agrees:
  assumes "server_reachable cfg s" and "server_step cfg s (Message w (Text (Some msg)) d, es) t"
    and "part_of s w = None" and "part_of t w = Some p" and "request_id msg = Str i" and "joining a i"
    and "execution (server_step cfg) t ls u" and "list_all (\<lambda>(ev, es). ev \<noteq> Close w) ls"
    and "ready_of t w = OPEN" and "ready_of u w = OPEN"
    and "b = fold (\<lambda>m a. fst (app_frame j m a)) (frames_to w (es @ concat (map snd ls))) a"
  shows "getAllParticipants (ap_room b) = map (publicParticipant \<circ> snd) (room_of u (p_roomId p)) \<and>
    ui_participants (ap_ui b) = map (\<lambda>x. Str (p_displayName (snd x))) (room_of u (p_roomId p)) \<and>
    rs_localParticipantId (ap_room b) = Str (p_id p)"
proof -
  have reach_t: "server_reachable cfg t" by (rule server_reachable_step [OF assms(1,2)])
  have reach_u: "server_reachable cfg u"
    using execution_reachable [OF assms(7)] reach_t by (simp add: server_reachable_def)
  note inv_t = server_reachable_inv [OF reach_t] and inv_u = server_reachable_inv [OF reach_u]
  let ?m = "joined_frame_of cfg t p (Str i)" let ?a = "fst (app_frame j ?m a)"
  have frames: "frames_to w (es @ concat (map snd ls)) = ?m # frames_to w (concat (map snd ls))"
    using join_frames [OF assms(1-4,9)] assms(5) by simp
  have "msg_request ?m = Str i" by (simp add: joined_frame_of_def)
  from joined_shows [OF assms(6) joined_payload_props(1) this joined_payload_props(2) distinct_roster [OF inv_t] roster_some]
  have joined: "in_meeting ?a (roster t (p_roomId p))" "rs_localParticipantId (ap_room ?a) = Str (p_id p)"
    by (simp_all add: joined_payload_props)
  from roster_run [OF assms(7) reach_t assms(4,8,9,10)]
  have "fold roster_frame (frames_to w (concat (map snd ls))) (roster t (p_roomId p)) = roster u (p_roomId p)"
    and "\<forall>m \<in> set (frames_to w (concat (map snd ls))). msg_type m \<noteq> Str (js ''disconnected'')" by blast+
  with frames_show [OF joined(1), of "frames_to w (concat (map snd ls))" j] joined(2)
  have "in_meeting b (roster u (p_roomId p))" "rs_localParticipantId (ap_room b) = Str (p_id p)"
    unfolding assms(11) frames by simp_all
  then show ?thesis
    using listed_roster [OF inv_u] by (simp add: in_meeting_def shows_roster_def roster_def)
qed

section \<open>A page to run\<close>

text \<open>The page of the second client of the scenario, up to its join request \<open>q1\<close>.\<close>

definition demo_page :: app where
  "demo_page =
     (let a = fst (onJoinRoom 7 (init_app\<lparr>ap_roomId := js ''room123'', ap_displayName := js ''B''\<rparr>))
      in fst (join_connected (js ''q1'') (a\<lparr>ap_signaling := map_option (onopen 7) (ap_signaling a)\<rparr>)))"

lemma client_calls_on: "client_calls (client_on c ty h) ty' =
    (if ty' = ty \<and> h \<notin> set (client_calls c ty) then client_calls c ty @ [h] else client_calls c ty')"
  by (rule client_events.calls_add)

lemma setup_handlers_ok: "listeners_ok (setup_handlers new_SignalingClient)"
  by (auto simp: listeners_ok_def setup_handlers_def client_calls_on client_events.calls_none)

lemma listeners_ok_cong: "cl_listeners d = cl_listeners c \<Longrightarrow> listeners_ok d = listeners_ok c"
  by (simp add: listeners_ok_def client_calls_def)

lemma demo_page_room: "room_listeners_ok (ap_room init_app)"
  by (simp add: room_listeners_ok_def init_app_def room_on_def new_RoomState_def listener_calls_on room_state_ok_def)

definition demo_client :: "signal_listener client" where
  "demo_client = (setup_handlers new_SignalingClient)\<lparr>cl_isIntentionalClose := False, cl_ws := Some 7,
     cl_sockets := [7 \<mapsto> \<lparr>so_ready = OPEN, so_promise = Resolved Undefined, so_timer = False\<rparr>],
     cl_requests := [js ''q1'' \<mapsto> \<lparr>rq_type = js ''room.join'', rq_promise = Pending, rq_timer = True\<rparr>], cl_pending := [js ''q1'']\<rparr>"

lemma setup_handlers_fields:
  "cl_sockets (setup_handlers c) = cl_sockets c" "cl_requests (setup_handlers c) = cl_requests c"
  "cl_pending (setup_handlers c) = cl_pending c"
  by (simp_all add: setup_handlers_def client_on_def)

lemma demo_page_client: "ap_signaling demo_page = Some demo_client"
  by (simp add: demo_page_def onJoinRoom_def join_connected_def Let_def split_beta client_connect_def onopen_def with_socket_def
      sendRequest_def client_send_def client_ready_def setup_handlers_fields demo_client_def)
    (simp add: new_SignalingClient_def)

lemma demo_page_joining: "joining demo_page (js ''q1'')"
proof -
  have "shows_roster demo_page []"
    using demo_page_room
    by (simp add: demo_page_def onJoinRoom_def join_connected_def Let_def split_beta shows_roster_def createVideoTile_def
        showView_def setCameraEnabled_def setMuted_def getAllParticipants_def listed_def init_app_def initial_ui_def)
      (simp add: room_on_def new_RoomState_def)
  moreover have "ap_await demo_page = AwaitJoin (js ''q1'')"
    by (simp add: demo_page_def onJoinRoom_def join_connected_def Let_def split_beta)
  moreover have "listeners_ok demo_client"
    using setup_handlers_ok by (subst listeners_ok_cong [where c = "setup_handlers new_SignalingClient"]) (simp_all add: demo_client_def)
  ultimately show ?thesis by (simp add: joining_def demo_page_client) (simp add: demo_client_def)
qed

theorem presence_agrees_witness:
  "\<exists>es. server_step demo_config demo_alone (Message 20 (Text (Some (demo_join_msg ''B''))) (demo_draws ''ub''), es) demo_pair \<and>
     ui_participants (ap_ui (fold (\<lambda>m a. fst (app_frame (js ''q2'') m a)) (frames_to 20 es) demo_page)) =
       [Str (js ''A''), Str (js ''B'')]"
proof -
  obtain es where step: "server_step demo_config demo_alone (Message 20 (Text (Some (demo_join_msg ''B''))) (demo_draws ''ub''), es) demo_pair"
    using demo_run_pair by (auto split: option.splits dest!: server_exec_step simp del: server_exec.simps)
  have "request_id (demo_join_msg ''B'') = Str (js ''q1'')" by (simp add: demo_join_msg_def request_id_def)
  moreover have "part_of demo_alone 20 = None" "part_of demo_pair 20 = Some (demo_person 20 ''B'' ''ub'')" "ready_of demo_pair 20 = OPEN"
    by (simp_all add: part_of_def ready_of_def demo_defs)
  ultimately have "ui_participants (ap_ui (fold (\<lambda>m a. fst (app_frame (js ''q2'') m a)) (frames_to 20 (es @ concat (map snd []))) demo_page)) =
      map (\<lambda>x. Str (p_displayName (snd x))) (room_of demo_pair (p_roomId (demo_person 20 ''B'' ''ub'')))"
    using presence_agrees [OF demo_alone_reachable step _ _ _ demo_page_joining execution_nil _ _ _ refl, where p = "demo_person 20 ''B'' ''ub''"]
    by simp
  also have "\<dots> = [Str (js ''A''), Str (js ''B'')]" by (simp add: room_of_def demo_defs)
  finally show ?thesis using step by auto
qed

section \<open>The client's requests\<close>

lemma request_id_wire: "request_id (wire (envelope t p (Str i))) = Str i"
  by (simp add: request_id_def get_prop_wire_envelope)

lemma envelope_ok_wire: "envelope_ok (wire (envelope t (Obj ps) r))"
  by (simp add: envelope_ok_def get_prop_wire_envelope) (simp add: envelope_def)

text \<open>C34. A join from the lobby is well formed for the server: when the form accepts the name and the
  room id, typed or taken from an invitation link, the frame the client sends is a message the server
  accepts, a join request under the id the client waits for, for that room and that very name. The
  input field keeps names to 50 characters.\<close>

theorem lobby_join_accepted:
  assumes "onJoinLobbyClick link_room name_field room_field = Inr (n, r)" and "length n \<le> 50"
    and "ap_displayName a = n" and "ap_roomId a = r" and "ap_signaling a = Some c" and "client_ready c = Some OPEN"
  shows "\<exists>w m. snd (join_connected i a) = [ByClient (SendFrame w m)] \<and> envelope_ok m \<and> msg_type m = Str (js ''room.join'') \<and>
    request_id m = Str i \<and> join_request (get_prop m (js ''payload'')) = Some (r, n) \<and> trim n = n"
proof -
  let ?m = "wire (envelope (js ''room.join'') (Obj [(js ''roomId'', Str r), (js ''displayName'', Str n)]) (Str i))"
  have ok: "room_id_ok r" and n: "n \<noteq> []" "trim n = n"
    using assms(1) by (auto simp: onJoinLobbyClick_def Let_def preview_room_ok_def room_id_ok_def split: if_splits option.splits)
  then have "join_request (get_prop ?m (js ''payload'')) = Some (r, n)"
    using assms(2) by (simp add: get_prop_wire_envelope join_request_def get_prop.simps name_ok_def)
  moreover have "snd (join_connected i a) = [ByClient (SendFrame (the (cl_ws c)) ?m)]"
    using assms(3-6) by (simp add: join_connected_def sendRequest_def client_send_def Let_def)
  ultimately show ?thesis using n(2) envelope_ok_wire request_id_wire by (intro exI [of _ "the (cl_ws c)"] exI [of _ ?m]) simp
qed

theorem lobby_join_accepted_witness:
  "\<exists>w m. snd (join_connected (js ''q1'') (demo_page\<lparr>ap_displayName := js ''B''\<rparr>)) = [ByClient (SendFrame w m)] \<and>
     join_request (get_prop m (js ''payload'')) = Some (js ''room123'', js ''B'')"
proof -
  have "trim (js ''room123'') = js ''room123''" by (simp add: trim_def js_def char_class_defs)
  moreover have "preview_room_ok (js ''room123'')" by (simp add: preview_room_ok_def, simp add: js_def char_class_defs)
  ultimately have form: "onJoinLobbyClick (\<lambda>_. None) (js ''B'') (js ''room123'') = Inr (js ''B'', js ''room123'')"
    using demo_trim(2) by (simp add: onJoinLobbyClick_def is_link_def)
  have "ap_roomId demo_page = js ''room123''"
    by (simp add: demo_page_def onJoinRoom_def join_connected_def Let_def split_beta)
  moreover have "client_ready demo_client = Some OPEN" by (simp add: client_ready_def demo_client_def)
  ultimately show ?thesis
    using lobby_join_accepted [OF form, of "demo_page\<lparr>ap_displayName := js ''B''\<rparr>" demo_client "js ''q1''"]
    by (auto simp: demo_page_client)
qed

text \<open>A chat line the client sends is one the server accepts: anything in the input that is not blank
  and at most 4000 characters goes out as one well-formed message whose text the server takes, trimmed
  already; a blank input sends nothing, and on a socket that is not open \<open>send\<close> throws.\<close>

theorem chat_line_accepted:
  assumes "ap_signaling a = Some c" and "length field \<le> 4000"
  shows "if trim field = [] then sendChat field a = Inr []
    else if client_ready c \<noteq> Some OPEN then sendChat field a = Inl (js ''Connection is closed'')
    else \<exists>w m. sendChat field a = Inr [ByClient (SendFrame w m)] \<and> envelope_ok m \<and> msg_type m = Str (js ''chat.send'') \<and>
      chat_text (get_prop m (js ''payload'')) = Some (trim field)"
proof -
  have "length (trim field) \<le> 4000" using length_trim [of field] assms(2) by simp
  moreover have "js ''requestId'' \<noteq> js ''payload''" by simp
  ultimately show ?thesis
    using assms(1) envelope_ok_wire
    by (auto simp: sendChat_def client_send_def chat_text_def get_prop_wire_envelope get_prop.simps Let_def)
qed

theorem chat_line_accepted_witness:
  "\<exists>m. sendChat (js ''hi'') demo_page = Inr [ByClient (SendFrame 7 m)]"
  using chat_line_accepted [OF demo_page_client, of "js ''hi''"]
  by (simp add: demo_trim client_ready_def demo_client_def sendChat_def demo_page_client client_send_def)

text \<open>\<open>randomUUID\<close> gives five groups of hex digits, of 8, 4, 4, 4 and 12, with hyphens between.\<close>

definition hex_char :: "16 word \<Rightarrow> bool" where
  "hex_char c \<longleftrightarrow> is_digit c \<or> 97 \<le> c \<and> c \<le> 102"

definition uuid_form :: "jstring \<Rightarrow> bool" where
  "uuid_form u \<longleftrightarrow> map length (split_on 45 u) = [8, 4, 4, 4, 12] \<and> list_all (list_all hex_char) (split_on 45 u)"

lemma hex_alnum: "hex_char c \<Longrightarrow> is_alnum c"
  unfolding hex_char_def is_alnum_def by (auto intro: order_trans)

lemma concat_split_on: "concat (split_on c s) = filter (\<lambda>x. x \<noteq> c) s"
proof (induction s)
  case (Cons x s)
  then show ?case using split_on_nonempty [of c s] by (cases "split_on c s") auto
qed simp

lemma uuid_form_hex:
  assumes "uuid_form u"
  shows "list_all is_alnum (filter (\<lambda>c. c \<noteq> 45) u)" and "length (filter (\<lambda>c. c \<noteq> 45) u) = 32"
proof -
  let ?gs = "split_on 45 u"
  have "list_all is_alnum (concat ?gs)"
    using assms hex_alnum by (auto simp: uuid_form_def list_all_iff)
  then show "list_all is_alnum (filter (\<lambda>c. c \<noteq> 45) u)" by (simp add: concat_split_on)
  have "length (concat ?gs) = sum_list (map length ?gs)" by (rule length_concat)
  then show "length (filter (\<lambda>c. c \<noteq> 45) u) = 32" using assms by (simp add: concat_split_on uuid_form_def)
qed

text \<open>The room ids the program makes are ids it accepts: the 16 characters the client makes for a new
  meeting, which its own form also takes, the 32 the server answers to \<open>room.create\<close>, and the 8 of the
  earlier room manager all pass the server's check.\<close>

theorem generated_ids_accepted:
  assumes "uuid_form u" and "length rnd = 4"
  shows "room_id_ok (generateRoomId u) \<and> preview_room_ok (generateRoomId u) \<and> room_id_ok (filter (\<lambda>c. c \<noteq> 45) u) \<and>
    room_id_ok (fst (createRoom rnd rooms None))"
proof -
  note hex = uuid_form_hex [OF assms(1)]
  have "list_all is_alnum (take 16 (filter (\<lambda>c. c \<noteq> 45) u))"
    using hex(1) by (auto simp: list_all_iff dest: in_set_takeD)
  then have "room_id_ok (generateRoomId u)" using hex(2) by (simp add: generateRoomId_def room_id_ok_def)
  moreover have "room_id_ok (to_hex rnd)" using assms(2) to_hex_alnum [of rnd] length_to_hex [of rnd] by (simp add: room_id_ok_def)
  ultimately show ?thesis using hex by (simp add: room_id_ok_def preview_room_ok_def createRoom_def Let_def)
qed

theorem generated_ids_accepted_witness:
  "room_id_ok (generateRoomId (js ''3f2b8c1e-0d4a-4f6b-9a7c-1e2d3c4b5a69''))"
proof -
  have "uuid_form (js ''3f2b8c1e-0d4a-4f6b-9a7c-1e2d3c4b5a69'')"
    by (simp add: uuid_form_def js_def hex_char_def is_digit_def)
  from generated_ids_accepted [OF this, of "[1, 2, 3, 4]" "[] :: nat manager"] show ?thesis by simp
qed

end
