(* ===== verification/WebRtcProperties.thy ===== *)
theory WebRtcProperties
  imports WebRtcSession
begin

text \<open>
  The invariant of the peer sessions and what follows from it: every ICE candidate reaches the
  connection once, in order and never before the remote description; an offer is answered; a
  peer that left is not heard of again.
\<close>

section \<open>Invariant\<close>

text \<open>The continuations that only run once the remote description is there.\<close>

fun after_remote :: "continuation \<Rightarrow> bool" where
  "after_remote AwaitCandidate = True"
| "after_remote (AwaitDrain cs offer) = True"
| "after_remote _ = False"

text \<open>
  What the session holds for one id: whether the peer is active, its entry and what its
  operation awaits. An active peer has an entry while an operation of it is under way, entries
  belong to active peers, candidates are kept back only before the remote description, and
  candidates are added only after it.
\<close>

type_synonym view = "bool \<times> peer option \<times> continuation option"

definition view :: "session \<Rightarrow> jsval \<Rightarrow> view" where
  "view s i = (active s i, map_of (rt_peers s) i, rt_running s i)"

fun view_ok :: "view \<Rightarrow> bool" where
  "view_ok (a, None, r) = (a \<longrightarrow> r = None)"
| "view_ok (a, Some p, r) = (a \<and> (pe_remote p \<longrightarrow> pe_candidates p = []) \<and>
     (case r of Some k \<Rightarrow> after_remote k \<longrightarrow> pe_remote p | None \<Rightarrow> True))"

definition session_inv :: "session \<Rightarrow> bool" where
  "session_inv s \<longleftrightarrow> (\<forall>i. view_ok (view s i))"

lemma session_inv_view: "session_inv s \<Longrightarrow> view_ok (view s i)"
  by (simp add: session_inv_def)

lemma session_inv_cong: "view t = view s \<Longrightarrow> session_inv s \<Longrightarrow> session_inv t"
  by (simp add: session_inv_def)

lemma session_inv_change: "session_inv s \<Longrightarrow> view t = (view s)(i := v) \<Longrightarrow> view_ok v \<Longrightarrow> session_inv t"
  by (simp add: session_inv_def)

lemma view_cong:
  "rt_peers t = rt_peers s \<Longrightarrow> rt_running t = rt_running s \<Longrightarrow> rt_departed t = rt_departed s \<Longrightarrow> rt_closed t = rt_closed s \<Longrightarrow>
   view t = view s"
  by (simp add: view_def active_def fun_eq_iff)

lemma view_await [simp]: "view (await i k s) = (view s)(i := (active s i, map_of (rt_peers s) i, Some k))"
  and view_finished [simp]: "view (finished i s) = (view s)(i := (active s i, map_of (rt_peers s) i, None))"
  and view_set_peer [simp]: "view (set_peer i p s) = (view s)(i := (active s i, Some p, rt_running s i))"
  by (simp_all add: view_def active_def await_def finished_def set_peer_def map_of_update_eq fun_eq_iff)

lemma set_peer_fields [simp]:
  "map_of (rt_peers (set_peer i p s)) = (map_of (rt_peers s))(i \<mapsto> p)" "rt_running (set_peer i p s) = rt_running s"
  "rt_localStream (set_peer i p s) = rt_localStream s" "active (set_peer i p s) = active s"
  "queue_of (set_peer i p s) = queue_of s"
  by (simp_all add: set_peer_def map_of_update_eq active_def queue_of_def fun_eq_iff)

lemma enqueue_fields [simp]:
  "rt_peers (enqueue s i op) = rt_peers s" "rt_running (enqueue s i op) = rt_running s"
  "rt_departed (enqueue s i op) = rt_departed s" "rt_closed (enqueue s i op) = rt_closed s"
  "rt_localStream (enqueue s i op) = rt_localStream s"
  by (simp_all add: enqueue_def)

lemma dequeue_fields [simp]:
  "rt_peers (dequeue s i) = rt_peers s" "rt_running (dequeue s i) = rt_running s"
  "rt_departed (dequeue s i) = rt_departed s" "rt_closed (dequeue s i) = rt_closed s"
  "rt_localStream (dequeue s i) = rt_localStream s"
  by (simp_all add: dequeue_def)

lemma start_session_fields [simp]:
  "rt_peers (start_session s st ps) = rt_peers s" "rt_running (start_session s st ps) = rt_running s"
  "rt_departed (start_session s st ps) = rt_departed s" "rt_closed (start_session s st ps) = rt_closed s"
proof -
  have "rt_peers (fold (\<lambda>p s. enqueue s (g p) Offer) ps s) = rt_peers s \<and>
      rt_running (fold (\<lambda>p s. enqueue s (g p) Offer) ps s) = rt_running s \<and>
      rt_departed (fold (\<lambda>p s. enqueue s (g p) Offer) ps s) = rt_departed s \<and>
      rt_closed (fold (\<lambda>p s. enqueue s (g p) Offer) ps s) = rt_closed s" for g and s :: session
    by (induction ps arbitrary: s) auto
  then show "rt_peers (start_session s st ps) = rt_peers s" "rt_running (start_session s st ps) = rt_running s"
    "rt_departed (start_session s st ps) = rt_departed s" "rt_closed (start_session s st ps) = rt_closed s"
    by (simp_all add: start_session_def)
qed

lemma view_enqueue [simp]: "view (enqueue s i op) = view s"
  and view_dequeue [simp]: "view (dequeue s i) = view s"
  and view_start [simp]: "view (start_session s st ps) = view s"
  by (rule view_cong; simp)+

lemma ensure_peer_known: "map_of (rt_peers s) i = Some p \<Longrightarrow> ensure_peer s i = (s, p, [])"
  by (simp add: ensure_peer_def)

lemma ensure_peer_new:
  "map_of (rt_peers s) i = None \<Longrightarrow> ensure_peer s i =
     (let p = \<lparr>pe_remote = False, pe_candidates = [], pe_stream = []\<rparr> in (set_peer i p s, p, [NewConnection i]))"
  by (simp add: ensure_peer_def set_peer_def Let_def)

lemma ensure_peer_view:
  assumes "ensure_peer s i = (t, p, es)"
  shows "view t = (view s)(i := (active s i, Some p, rt_running s i))" and "map_of (rt_peers t) i = Some p"
    and "rt_running t = rt_running s" and "rt_localStream t = rt_localStream s" and "active t = active s"
    and "queue_of t = queue_of s"
  using assms
  by (cases "map_of (rt_peers s) i";
      auto simp: ensure_peer_known ensure_peer_new Let_def view_def fun_eq_iff)+

lemma throws_view: "throws s i err = (t, es) \<Longrightarrow> view t = (view s)(i := (active s i, map_of (rt_peers s) i, None))"
  by (auto simp: throws_def)

lemma answer_tracks_view:
  "answer_tracks s i ks = (t, es) \<Longrightarrow>
   \<exists>r. view t = (view s)(i := (active s i, map_of (rt_peers s) i, r)) \<and> (\<forall>k. r = Some k \<longrightarrow> \<not> after_remote k)"
  by (cases ks) (auto split: option.splits dest: throws_view)

lemma view_ok_entry:
  "view_ok (a, Some p, None) \<Longrightarrow> (after_remote k \<Longrightarrow> pe_remote p) \<Longrightarrow> view_ok (a, Some p, Some k)"
  by simp

lemma answer_tracks_inv:
  assumes "session_inv s" and "answer_tracks s i ks = (t, es)" and "active s i" and "map_of (rt_peers s) i = Some p"
  shows "session_inv t"
proof -
  from answer_tracks_view [OF assms(2)] obtain r
    where v: "view t = (view s)(i := (active s i, map_of (rt_peers s) i, r))" and r: "\<forall>k. r = Some k \<longrightarrow> \<not> after_remote k"
    by blast
  have "view_ok (active s i, map_of (rt_peers s) i, r)"
    using session_inv_view [OF assms(1), of i] assms(3,4) r by (auto simp: view_def split: option.splits)
  with assms(1) v show ?thesis by (rule session_inv_change)
qed

lemma await_inv:
  assumes "session_inv s" and "map_of (rt_peers s) i = Some p" and "after_remote k \<Longrightarrow> pe_remote p"
  shows "session_inv (await i k s)"
  using session_inv_view [OF assms(1), of i] assms(2,3)
  by (intro session_inv_change [OF assms(1) view_await]) (auto simp: view_def)

lemma finished_inv: "session_inv s \<Longrightarrow> session_inv (finished i s)"
  by (rule session_inv_change [OF _ view_finished], assumption)
    (drule session_inv_view [of _ i], cases "map_of (rt_peers s) i", auto simp: view_def)

lemma throws_inv: "session_inv s \<Longrightarrow> throws s i err = (t, es) \<Longrightarrow> session_inv t"
  using finished_inv by (auto simp: throws_def)

lemma drain_inv:
  assumes "session_inv s" and "map_of (rt_peers s) i = Some p" and "pe_remote p" and "drain s i a cs offer = (t, es)"
  shows "session_inv t"
proof -
  have "active s i" using session_inv_view [OF assms(1), of i] assms(2) by (simp add: view_def)
  with assms show ?thesis
    by (cases cs) (auto split: if_splits intro: await_inv finished_inv answer_tracks_inv)
qed

lemma resume_inv:
  assumes "session_inv s" and "rt_running s i = Some k" and "map_of (rt_peers s) i = Some p" and "resume s i p a k = (t, es)"
  shows "session_inv t"
proof -
  have ok: "view_ok (active s i, Some p, Some k)" using session_inv_view [OF assms(1), of i] assms(2,3) by (simp add: view_def)
  show ?thesis
  proof (cases k)
    case (AwaitRemote offer)
    let ?s = "set_peer i (p\<lparr>pe_remote := True, pe_candidates := []\<rparr>) s"
    have "session_inv ?s" using ok by (intro session_inv_change [OF assms(1) view_set_peer]) (simp add: assms(2))
    then show ?thesis using assms(4) AwaitRemote by (auto intro: drain_inv)
  next
    case (AwaitDrain cs offer)
    with assms ok show ?thesis by (auto intro: drain_inv)
  next
    case (AwaitSender kinds)
    with assms ok show ?thesis by (auto intro: answer_tracks_inv)
  qed (use assms in \<open>auto split: if_splits intro: await_inv finished_inv throws_inv\<close>)
qed

lemma begin_op_inv:
  assumes "session_inv s" and "rt_running s i = None" and "active s i" and "begin_op s i op = (t, es)"
  shows "session_inv t"
proof -
  obtain s1 p made where e: "ensure_peer s i = (s1, p, made)" by (cases "ensure_peer s i")
  note props = ensure_peer_view [OF e]
  have ok: "pe_remote p \<longrightarrow> pe_candidates p = []"
    using e session_inv_view [OF assms(1), of i]
    by (cases "map_of (rt_peers s) i") (auto simp: ensure_peer_known ensure_peer_new Let_def view_def)
  have inv1: "session_inv s1" by (rule session_inv_change [OF assms(1) props(1)]) (simp add: assms(2,3) ok)
  show ?thesis
  proof (cases op)
    case Offer
    with assms(4) e inv1 props(2) show ?thesis
      by (auto split: option.splits prod.splits intro: await_inv throws_inv)
  next
    case (Handle ty payload)
    have "session_inv (set_peer i (p\<lparr>pe_candidates := cs\<rparr>) s1)" if "\<not> pe_remote p" for cs
      by (rule session_inv_change [OF inv1 view_set_peer]) (use that assms(2,3) props(3,5) in simp)
    with assms(4) e inv1 props(2) Handle show ?thesis
      by (auto split: if_splits intro: await_inv finished_inv)
  qed
qed

lemma removePeer_inv:
  assumes "session_inv s" and "removePeer s i = (t, es)"
  shows "session_inv t"
proof -
  have "view t = (view s)(i := (False, None, rt_running s i))"
    using assms(2) by (auto simp: removePeer_def view_def active_def map_of_delete_eq fun_eq_iff)
  then show ?thesis by (rule session_inv_change [OF assms(1)]) simp
qed

lemma session_step_inv: "session_step s (ev, es) t \<Longrightarrow> session_inv s \<Longrightarrow> session_inv t"
proof (induction s "(ev, es)" t rule: session_step.induct)
  case (begin_next s i op ops t)
  have "session_inv (dequeue s i)" by (rule session_inv_cong [OF view_dequeue]) fact
  with begin_next show ?case by (auto intro: begin_op_inv simp: active_def)
next
  case (no_connection s i op ops err t)
  have "session_inv (dequeue s i)" by (rule session_inv_cong [OF view_dequeue]) fact
  with no_connection show ?case by (auto intro: throws_inv)
next
  case (track_arrived s i p n t)
  have "view_ok (active s i, Some p, rt_running s i)"
    using session_inv_view [of s i] track_arrived by (simp add: view_def)
  with track_arrived show ?case by (auto simp: ontrack_def intro!: session_inv_change [OF _ view_set_peer] split: option.splits)
next
  case (close_all s t)
  then show ?case by (auto simp: close_session_def session_inv_def view_def active_def)
next
  case (replace s has_sender old new t)
  then have "view t = view s" by (intro view_cong) (auto simp: replaceTrack_def)
  from session_inv_cong [OF this] replace show ?case by simp
next
  case (replaced old new s)
  have "view (track_replaced s old new) = view s" by (rule view_cong) (simp_all add: track_replaced_def)
  from session_inv_cong [OF this] replaced show ?case by simp
next
  case (rejected old new s)
  have "view (replace_rejected s old new) = view s" by (rule view_cong) (simp_all add: replace_rejected_def)
  from session_inv_cong [OF this] rejected show ?case by simp
qed (auto intro: resume_inv throws_inv removePeer_inv elim: session_inv_cong [rotated])

interpretation session_machine: machine "\<lambda>s. s = new_session" session_step session_inv
proof
  fix s t l
  assume "session_inv s" and "session_step s l t"
  then show "session_inv t" by (cases l) (auto intro: session_step_inv)
qed (simp add: session_inv_def view_def new_session_def)

lemma session_reachable_inv: "session_reachable s \<Longrightarrow> session_inv s"
  unfolding session_reachable_def by (rule session_machine.reach_inv)

section \<open>ICE candidates\<close>

text \<open>
  For one peer: the candidates that a message brings, those that a step hands to the
  connection, and those on their way: being added after the one under way, kept back, and in
  messages still in the queue.
\<close>

fun ice_in :: "jsval \<Rightarrow> session_event \<Rightarrow> jsval list" where
  "ice_in i (Incoming typ payload) =
     (if typ = ''webrtc.iceCandidate'' \<and> get_prop payload (js ''participantId'') = i then [ice_of payload] else [])"
| "ice_in i ev = []"

fun added_to :: "jsval \<Rightarrow> call \<Rightarrow> jsval list" where
  "added_to i (AddIce j c) = (if j = i then [c] else [])"
| "added_to i e = []"

definition ice_added :: "jsval \<Rightarrow> call list \<Rightarrow> jsval list" where
  "ice_added i es = concat (map (added_to i) es)"

fun op_ice :: "operation \<Rightarrow> jsval list" where
  "op_ice Offer = []"
| "op_ice (Handle typ payload) = (if typ = ''webrtc.iceCandidate'' then [ice_of payload] else [])"

fun cont_ice :: "continuation option \<Rightarrow> jsval list" where
  "cont_ice (Some (AwaitDrain cs offer)) = cs"
| "cont_ice r = []"

definition kept :: "peer option \<Rightarrow> jsval list" where
  "kept p = (case p of Some p \<Rightarrow> pe_candidates p | None \<Rightarrow> [])"

lemma kept_simps [simp]: "kept (Some p) = pe_candidates p" "kept None = []"
  by (simp_all add: kept_def)

definition under_way :: "session \<Rightarrow> jsval \<Rightarrow> jsval list" where
  "under_way s i = cont_ice (rt_running s i) @ kept (map_of (rt_peers s) i)"

definition ice_pending :: "session \<Rightarrow> jsval \<Rightarrow> jsval list" where
  "ice_pending s i = under_way s i @ concat (map op_ice (queue_of s i))"

lemma ice_added_simps [simp]:
  "ice_added i [] = []" "ice_added i (e # es) = added_to i e @ ice_added i es"
  "ice_added i (xs @ ys) = ice_added i xs @ ice_added i ys"
  by (simp_all add: ice_added_def)

lemma ice_added_none: "(\<And>e. e \<in> set es \<Longrightarrow> added_to i e = []) \<Longrightarrow> ice_added i es = []"
  by (simp add: ice_added_def)

lemma queue_enqueue [simp]: "queue_of (enqueue s i op) j = (if j = i then queue_of s i @ [op] else queue_of s j)"
  and queue_dequeue [simp]: "queue_of (dequeue s i) j = (if j = i then tl (queue_of s i) else queue_of s j)"
  by (simp_all add: queue_of_def enqueue_def dequeue_def map_of_update_eq)

lemma await_fields [simp]:
  "queue_of (await i k s) = queue_of s" "rt_peers (await i k s) = rt_peers s"
  "rt_running (await i k s) = (rt_running s)(i \<mapsto> k)" "rt_localStream (await i k s) = rt_localStream s"
  by (simp_all add: await_def queue_of_def fun_eq_iff)

lemma finished_fields [simp]:
  "queue_of (finished i s) = queue_of s" "rt_peers (finished i s) = rt_peers s"
  "rt_running (finished i s) = (rt_running s)(i := None)"
  by (simp_all add: finished_def queue_of_def fun_eq_iff)

lemma throws_ice:
  "throws s i err = (t, es) \<Longrightarrow> ice_added j es = [] \<and> queue_of t = queue_of s \<and>
     rt_peers t = rt_peers s \<and> rt_running t = (rt_running s)(i := None)"
  by (auto simp: throws_def)

text \<open>Steps of one peer do not touch the candidates of another.\<close>

lemma answer_tracks_ice:
  "answer_tracks s i ks = (t, es) \<Longrightarrow> cont_ice (rt_running s i) = [] \<Longrightarrow>
   ice_added j es = [] \<and> under_way t j = under_way s j \<and> queue_of t = queue_of s"
  by (cases ks) (auto split: option.splits dest!: throws_ice [where j = j] simp: under_way_def)

lemma drain_ice:
  assumes "drain s i a cs offer = (t, es)" and "cs = [] \<Longrightarrow> cont_ice (rt_running s i) = []"
  shows "(if j = i then cs @ kept (map_of (rt_peers s) i) else under_way s j) = ice_added j es @ under_way t j \<and>
    queue_of t = queue_of s"
proof (cases cs)
  case (Cons c cs')
  with assms(1) show ?thesis by (auto simp: under_way_def)
next
  case Nil
  show ?thesis
  proof (cases offer)
    case True
    with assms(1) Nil have "answer_tracks s i (an_kinds a) = (t, es)" by simp
    from answer_tracks_ice [OF this assms(2) [OF Nil], of j] show ?thesis
      using assms(2) [OF Nil] Nil by (auto simp: under_way_def)
  next
    case False
    with assms Nil show ?thesis by (auto simp: under_way_def)
  qed
qed

lemma resume_ice:
  assumes "rt_running s i = Some k" and "map_of (rt_peers s) i = Some p" and "resume s i p a k = (t, es)"
  shows "under_way s j = ice_added j es @ under_way t j \<and> queue_of t = queue_of s"
proof (cases k)
  case (AwaitRemote offer)
  with assms(1,3) drain_ice [of "set_peer i (p\<lparr>pe_remote := True, pe_candidates := []\<rparr>) s" i a "pe_candidates p" offer t es j]
  show ?thesis using assms(2) by (auto simp: under_way_def kept_def split: if_splits)
next
  case (AwaitDrain cs offer)
  with assms drain_ice [of s i a cs offer t es j] show ?thesis by (auto simp: under_way_def split: if_splits)
next
  case (AwaitSender kinds)
  with assms answer_tracks_ice [of s i kinds t es j] show ?thesis by auto
next
  case (AwaitLocal ty)
  with assms show ?thesis by (auto simp: under_way_def split: if_splits dest!: throws_ice [where j = j])
qed (use assms in \<open>auto simp: under_way_def\<close>)

lemma ensure_peer_ice:
  assumes "ensure_peer s i = (t, p, es)"
  shows "under_way t j = under_way s j" and "ice_added j es = []" and "kept (map_of (rt_peers t) j) = kept (map_of (rt_peers s) j)"
  using assms by (cases "map_of (rt_peers s) i"; auto simp: ensure_peer_known ensure_peer_new Let_def under_way_def kept_def)+

lemma begin_op_ice:
  assumes "session_inv s" and "rt_running s i = None" and "active s i" and "begin_op s i op = (t, es)"
  shows "(if j = i then under_way s i @ op_ice op else under_way s j) = ice_added j es @ under_way t j \<and> queue_of t = queue_of s"
proof -
  obtain s1 p made where e: "ensure_peer s i = (s1, p, made)" by (cases "ensure_peer s i")
  note view = ensure_peer_view [OF e] and ice = ensure_peer_ice [OF e]
  have remote: "pe_remote p \<longrightarrow> pe_candidates p = []"
    using e session_inv_view [OF assms(1), of i]
    by (cases "map_of (rt_peers s) i") (auto simp: ensure_peer_known ensure_peer_new Let_def view_def)
  have kept: "kept (map_of (rt_peers s) i) = pe_candidates p" using ice(3) [of i] view(2) by simp
  have s1: "under_way s j = cont_ice (rt_running s j) @ kept (map_of (rt_peers s1) j)" for j
    using ice(1) [of j] view(3) by (simp add: under_way_def)
  show ?thesis
  proof (cases op)
    case Offer
    with assms(2,4) e view ice show ?thesis
      by (auto split: option.splits prod.splits dest!: throws_ice [where j = j] simp: s1 under_way_def kept)
  next
    case (Handle ty payload)
    with assms(2,4) e view ice remote show ?thesis
      by (auto split: if_splits simp: s1 under_way_def kept)
  qed
qed

lemma active_fields [simp]:
  "active (await i k s) = active s" "active (finished i s) = active s" "active (dequeue s i) = active s"
  "active (enqueue s i op) = active s" "active (start_session s st ps) = active s"
  by (simp_all add: active_def await_def finished_def fun_eq_iff)

lemma throws_active: "throws s i err = (t, es) \<Longrightarrow> active t = active s"
  by (auto simp: throws_def)

lemma answer_tracks_active: "answer_tracks s i ks = (t, es) \<Longrightarrow> active t = active s"
  by (cases ks) (auto split: option.splits dest: throws_active)

lemma drain_active: "drain s i a cs offer = (t, es) \<Longrightarrow> active t = active s"
  by (cases cs) (auto split: if_splits dest: answer_tracks_active)

lemma resume_active: "resume s i p a k = (t, es) \<Longrightarrow> active t = active s"
  by (cases k) (auto split: if_splits dest: drain_active answer_tracks_active throws_active)

lemma begin_op_active: "begin_op s i op = (t, es) \<Longrightarrow> active t = active s"
  by (cases op) (auto split: option.splits if_splits prod.splits dest!: throws_active ensure_peer_view(5))

text \<open>A peer that left stays gone, and a closed session stays closed.\<close>

lemma step_active: "session_step s l t \<Longrightarrow> active t i \<Longrightarrow> active s i"
proof (induction rule: session_step.induct)
  case (peer_left s j t)
  then show ?case by (auto simp: removePeer_def active_def)
next
  case (close_all s t)
  then show ?case by (auto simp: close_session_def active_def)
next
  case (replace s has_sender old new t)
  then show ?case by (auto simp: replaceTrack_def active_def)
next
  case (replaced old new s)
  then show ?case by (auto simp: track_replaced_def active_def)
next
  case (rejected old new s)
  then show ?case by (auto simp: replace_rejected_def active_def)
qed (auto simp: ontrack_def dest: begin_op_active resume_active throws_active)

lemma start_session_ice: "concat (map op_ice (queue_of (start_session s st ps) i)) = concat (map op_ice (queue_of s i))"
proof -
  have "concat (map op_ice (queue_of (fold (\<lambda>p s. enqueue s (g p) Offer) ps s) i)) = concat (map op_ice (queue_of s i))"
    for g and s :: session
    by (induction ps arbitrary: s) auto
  then show ?thesis by (simp add: start_session_def queue_of_def)
qed

lemma close_left_ice:
  assumes "removePeer s j = (t, es)"
  shows "ice_added i es = []" and "active t i \<Longrightarrow> ice_pending t i = ice_pending s i \<and> active s i"
  using assms by (auto simp: removePeer_def ice_pending_def under_way_def queue_of_def active_def map_of_delete_eq)

lemma fields_ice: "rt_peers t = rt_peers s \<Longrightarrow> rt_running t = rt_running s \<Longrightarrow> rt_queues t = rt_queues s \<Longrightarrow> ice_pending t = ice_pending s"
  by (simp add: ice_pending_def under_way_def queue_of_def fun_eq_iff)

lemma ice_step:
  "session_step s (ev, es) t \<Longrightarrow> session_inv s \<Longrightarrow> active t i \<Longrightarrow> active s i \<Longrightarrow> (\<And>err op. ev \<notin> {Failed i err, NoConnection i op err}) \<Longrightarrow>
   ice_pending s i @ ice_in i ev = ice_added i es @ ice_pending t i"
proof (induction s "(ev, es)" t rule: session_step.induct)
  case (incoming s ty payload)
  then show ?case by (auto simp: ice_pending_def under_way_def active_def)
next
  case (start_with s st ps)
  then show ?case by (auto simp: ice_pending_def under_way_def start_session_ice active_def)
next
  case (begin_next s j op ops t)
  have inv: "session_inv (dequeue s j)" by (rule session_inv_cong [OF view_dequeue]) (rule begin_next(6))
  have "under_way (dequeue s j) = under_way s" by (simp add: under_way_def fun_eq_iff)
  with begin_op_ice [OF inv, of j op t es i] begin_next show ?case
    by (auto simp: ice_pending_def active_def split: if_splits)
next
  case (no_connection s j op ops err t)
  then have "i \<noteq> j" by blast
  with no_connection show ?case by (auto simp: ice_pending_def under_way_def active_def dest!: throws_ice [where j = i])
next
  case (skip_next s j op ops)
  then show ?case by (auto simp: ice_pending_def under_way_def active_def)
next
  case (fulfilled s j k p a t)
  then show ?case using resume_ice [of s j k p a t es i] by (auto simp: ice_pending_def)
next
  case (failed s j k err t)
  then have "i \<noteq> j" by blast
  with failed show ?case by (auto simp: ice_pending_def under_way_def active_def dest!: throws_ice [where j = i])
next
  case (peer_left s j t)
  then show ?case using close_left_ice [of s j t es i] by auto
next
  case (close_all s t)
  then show ?case by (auto simp: close_session_def active_def)
next
  case (local_candidate s j p cand)
  then show ?case by (auto simp: onicecandidate_def)
next
  case (track_arrived s j p n t)
  then show ?case by (auto simp: ontrack_def ice_pending_def under_way_def kept_def)
next
  case (replace s has_sender old new t)
  have "ice_added i es = []"
    using replace by (intro ice_added_none) (auto simp: replaceTrack_def split: option.splits if_splits)
  moreover have "ice_pending t = ice_pending s" using replace by (intro fields_ice) (auto simp: replaceTrack_def)
  ultimately show ?case using replace by (auto simp: replaceTrack_def active_def)
next
  case (replaced old new s)
  have "ice_pending (track_replaced s old new) = ice_pending s" by (intro fields_ice) (auto simp: track_replaced_def)
  with replaced show ?case by (auto simp: track_replaced_def active_def)
next
  case (rejected old new s)
  have "ice_pending (replace_rejected s old new) = ice_pending s" by (intro fields_ice) (auto simp: replace_rejected_def)
  with rejected show ?case by (auto simp: replace_rejected_def active_def)
qed auto

definition candidates_received :: "jsval \<Rightarrow> (session_event \<times> call list) list \<Rightarrow> jsval list" where
  "candidates_received i ls = concat (map (\<lambda>(ev, es). ice_in i ev) ls)"

definition candidates_added :: "jsval \<Rightarrow> (session_event \<times> call list) list \<Rightarrow> jsval list" where
  "candidates_added i ls = concat (map (\<lambda>(ev, es). ice_added i es) ls)"

fun failed_for :: "jsval \<Rightarrow> session_event \<Rightarrow> bool" where
  "failed_for i (Failed j err) = (j = i)"
| "failed_for i (NoConnection j op err) = (j = i)"
| "failed_for i ev = False"

lemma active_run: "execution session_step s ls t \<Longrightarrow> active t i \<Longrightarrow> active s i"
  by (induction rule: execution.induct) (auto dest: step_active)

lemma ice_run:
  "execution session_step s ls t \<Longrightarrow> session_inv s \<Longrightarrow> active t i \<Longrightarrow> list_all (\<lambda>(ev, es). \<not> failed_for i ev) ls \<Longrightarrow>
   ice_pending s i @ candidates_received i ls = candidates_added i ls @ ice_pending t i"
proof (induction rule: execution.induct)
  case (execution_cons s l t ls u)
  obtain ev es where l: "l = (ev, es)" by force
  note act = active_run [OF execution_cons(2,5)]
  have inv: "session_inv t" using session_step_inv execution_cons(1,4) unfolding l by blast
  have "ice_pending s i @ ice_in i ev = ice_added i es @ ice_pending t i"
    using execution_cons(1,6) step_active [OF execution_cons(1) act] l
    by (intro ice_step [OF _ execution_cons(4) act]) auto
  moreover have "ice_pending t i @ candidates_received i ls = candidates_added i ls @ ice_pending u i"
    using execution_cons(3) [OF inv execution_cons(5)] execution_cons(6) l by simp
  ultimately show ?case
    unfolding l candidates_received_def candidates_added_def by simp (metis append.assoc)
qed (simp add: candidates_received_def candidates_added_def)

text \<open>C11. The ICE candidates that arrive from a peer are handed to its connection in the order of
  arrival and each exactly once, however messages, offers and answers interleave: what has arrived is
  what was added followed by what is still on its way. When the peer's queue is at rest after the
  remote description, that is everything. The peer must not have left, and none of its operations failed.\<close>

theorem candidates_in_order:
  assumes "execution session_step new_session ls s" and "active s i" and "list_all (\<lambda>(ev, es). \<not> failed_for i ev) ls"
  shows "candidates_received i ls = candidates_added i ls @ ice_pending s i \<and>
    (rt_running s i = None \<and> queue_of s i = [] \<and> (\<exists>p. map_of (rt_peers s) i = Some p \<and> pe_remote p) \<longrightarrow>
       candidates_received i ls = candidates_added i ls)"
proof -
  have start: "session_inv new_session" by (rule session_machine.start_inv) simp
  have "ice_pending new_session i = []"
    by (simp add: ice_pending_def under_way_def queue_of_def new_session_def)
  with ice_run [OF assms(1) start assms(2,3)]
  have all: "candidates_received i ls = candidates_added i ls @ ice_pending s i" by simp
  have "ice_pending s i = []" if "rt_running s i = None" "queue_of s i = []" "map_of (rt_peers s) i = Some p" "pe_remote p" for p
    using session_inv_view [OF session_machine.run_inv [OF assms(1) start], of i] that
    by (simp add: view_def ice_pending_def under_way_def)
  with all show ?thesis by auto
qed

lemma throws_no_ice: "throws s i err = (t, es) \<Longrightarrow> AddIce j c \<notin> set es"
  by (auto simp: throws_def)

lemma answer_tracks_no_ice: "answer_tracks s i ks = (t, es) \<Longrightarrow> AddIce j c \<notin> set es"
  by (cases ks) (auto split: option.splits dest: throws_no_ice)

lemma drain_adds:
  "drain s i a cs offer = (t, es) \<Longrightarrow> AddIce j c \<in> set es \<Longrightarrow>
   j = i \<and> (\<exists>k. rt_running t i = Some k \<and> after_remote k) \<and> rt_peers t = rt_peers s"
  by (cases cs) (auto split: if_splits dest: answer_tracks_no_ice)

lemma resume_adds:
  "resume s i p a k = (t, es) \<Longrightarrow> AddIce j c \<in> set es \<Longrightarrow> map_of (rt_peers s) i \<noteq> None \<Longrightarrow>
   j = i \<and> (\<exists>k. rt_running t i = Some k \<and> after_remote k) \<and> map_of (rt_peers t) i \<noteq> None"
  by (cases k) (auto split: if_splits dest: drain_adds throws_no_ice answer_tracks_no_ice)

lemma begin_op_adds:
  "begin_op s i op = (t, es) \<Longrightarrow> AddIce j c \<in> set es \<Longrightarrow>
   j = i \<and> (\<exists>k. rt_running t i = Some k \<and> after_remote k) \<and> map_of (rt_peers t) i \<noteq> None"
proof -
  assume asm: "begin_op s i op = (t, es)" "AddIce j c \<in> set es"
  obtain s1 p made where e: "ensure_peer s i = (s1, p, made)" by (cases "ensure_peer s i")
  have "AddIce j c \<notin> set made"
    using e by (cases "map_of (rt_peers s) i") (auto simp: ensure_peer_known ensure_peer_new Let_def)
  with asm e ensure_peer_view(2) [OF e] show ?thesis
    by (cases op) (auto split: option.splits if_splits prod.splits dest: throws_no_ice)
qed

lemma step_adds:
  "session_step s (ev, es) t \<Longrightarrow> AddIce j c \<in> set es \<Longrightarrow>
   (\<exists>k. rt_running t j = Some k \<and> after_remote k) \<and> map_of (rt_peers t) j \<noteq> None"
proof (induction s "(ev, es)" t rule: session_step.induct)
  case (begin_next s i op ops t)
  then show ?case by (auto dest: begin_op_adds)
next
  case (fulfilled s i k p a t)
  then show ?case by (auto dest: resume_adds)
next
  case (replace s has_sender old new t)
  then show ?case by (auto simp: replaceTrack_def split: option.splits if_splits)
qed (auto simp: throws_def removePeer_def close_session_def onicecandidate_def ontrack_def split: if_splits)

text \<open>C24. No candidate is added before the remote description: whenever the session hands a candidate to
  a connection, that connection has one.\<close>

theorem no_early_candidate:
  assumes "session_reachable s" and "session_step s (ev, es) t" and "AddIce i c \<in> set es"
  shows "\<exists>p. map_of (rt_peers t) i = Some p \<and> pe_remote p"
proof -
  have "session_inv t" by (rule session_step_inv [OF assms(2) session_reachable_inv [OF assms(1)]])
  from session_inv_view [OF this, of i] step_adds [OF assms(2,3)] show ?thesis
    by (auto simp: view_def)
qed

section \<open>A session to run\<close>

text \<open>A peer's candidate comes before its offer; the offer is answered after it.\<close>

definition demo_candidate :: jsval where
  "demo_candidate = Obj [(js ''candidate'', Str (js ''c1'')), (js ''participantId'', Str (js ''pa''))]"

definition demo_remote_offer :: jsval where
  "demo_remote_offer = Obj [(js ''sdp'', Str (js ''v=0'')), (js ''participantId'', Str (js ''pa''))]"

definition demo_events :: "session_event list" where
  "demo_events = [StartWith [] [], Incoming ''webrtc.iceCandidate'' demo_candidate, Incoming ''webrtc.offer'' demo_remote_offer,
     Begin (Str (js ''pa'')) (Handle ''webrtc.iceCandidate'' demo_candidate),
     Begin (Str (js ''pa'')) (Handle ''webrtc.offer'' demo_remote_offer),
     Fulfilled (Str (js ''pa'')) \<lparr>an_sdp = Str (js ''v=0''), an_kinds = [''audio''], an_open = True\<rparr>]"

definition demo_offered :: session where
  "demo_offered = \<lparr>rt_peers = [(Str (js ''pa''), \<lparr>pe_remote = False, pe_candidates = [ice_of demo_candidate], pe_stream = []\<rparr>)],
     rt_queues = [(Str (js ''pa''), [])], rt_running = [Str (js ''pa'') \<mapsto> AwaitRemote True], rt_departed = [],
     rt_localStream = Some [], rt_replacing = [], rt_closed = False\<rparr>"

lemma demo_payload [simp]:
  "get_prop demo_candidate (js ''participantId'') = Str (js ''pa'')"
  "get_prop demo_remote_offer (js ''participantId'') = Str (js ''pa'')"
  "get_prop demo_remote_offer (js ''sdp'') = Str (js ''v=0'')"
  by (simp_all add: demo_candidate_def demo_remote_offer_def get_prop.simps)

lemma demo_run_offered:
  "session_run new_session (take 5 demo_events) = Some (demo_offered, [(StartWith [] [], []),
     (Incoming ''webrtc.iceCandidate'' demo_candidate, []), (Incoming ''webrtc.offer'' demo_remote_offer, []),
     (Begin (Str (js ''pa'')) (Handle ''webrtc.iceCandidate'' demo_candidate), [NewConnection (Str (js ''pa''))]),
     (Begin (Str (js ''pa'')) (Handle ''webrtc.offer'' demo_remote_offer), [SetRemote (Str (js ''pa'')) True (Str (js ''v=0''))])])"
  by (simp add: demo_events_def demo_offered_def start_session_def enqueue_def queue_of_def new_session_def signal_types_def
      active_def dequeue_def ensure_peer_def finished_def set_peer_def await_def Let_def)

lemma demo_offered_reachable: "session_reachable demo_offered"
  unfolding session_reachable_def
  by (rule execution_reachable [OF session_run_execution [OF demo_run_offered]]) (rule reachable_start, simp)

lemma demo_fulfilled:
  "session_step demo_offered (Fulfilled (Str (js ''pa'')) a, [AddIce (Str (js ''pa'')) (ice_of demo_candidate)])
     (await (Str (js ''pa'')) (AwaitDrain [] True)
        (set_peer (Str (js ''pa'')) \<lparr>pe_remote = True, pe_candidates = [], pe_stream = []\<rparr> demo_offered))"
  by (rule session_exec_step) (simp add: demo_offered_def)

definition demo_drained :: session where
  "demo_drained = demo_offered\<lparr>rt_peers := [(Str (js ''pa''), \<lparr>pe_remote = True, pe_candidates = [], pe_stream = []\<rparr>)],
     rt_running := [Str (js ''pa'') \<mapsto> AwaitDrain [] True]\<rparr>"

definition demo_trace :: "(session_event \<times> call list) list" where
  "demo_trace = [(StartWith [] [], []),
     (Incoming ''webrtc.iceCandidate'' demo_candidate, []), (Incoming ''webrtc.offer'' demo_remote_offer, []),
     (Begin (Str (js ''pa'')) (Handle ''webrtc.iceCandidate'' demo_candidate), [NewConnection (Str (js ''pa''))]),
     (Begin (Str (js ''pa'')) (Handle ''webrtc.offer'' demo_remote_offer), [SetRemote (Str (js ''pa'')) True (Str (js ''v=0''))]),
     (Fulfilled (Str (js ''pa'')) \<lparr>an_sdp = Str (js ''v=0''), an_kinds = [''audio''], an_open = True\<rparr>,
       [AddIce (Str (js ''pa'')) (ice_of demo_candidate)])]"

lemma demo_run_drained: "session_run new_session demo_events = Some (demo_drained, demo_trace)"
  by (simp add: demo_events_def demo_trace_def demo_drained_def demo_offered_def start_session_def enqueue_def queue_of_def
      new_session_def signal_types_def active_def dequeue_def ensure_peer_def finished_def set_peer_def await_def Let_def)

theorem candidates_in_order_witness:
  "execution session_step new_session demo_trace demo_drained \<and>
   candidates_received (Str (js ''pa'')) demo_trace = candidates_added (Str (js ''pa'')) demo_trace \<and>
   candidates_added (Str (js ''pa'')) demo_trace = [ice_of demo_candidate]"
proof -
  note run = session_run_execution [OF demo_run_drained]
  have "active demo_drained (Str (js ''pa''))" by (simp add: demo_drained_def demo_offered_def active_def)
  moreover have "list_all (\<lambda>(ev, es). \<not> failed_for (Str (js ''pa'')) ev) demo_trace" by (simp add: demo_trace_def)
  moreover have "ice_pending demo_drained (Str (js ''pa'')) = []"
    by (simp add: demo_drained_def demo_offered_def ice_pending_def under_way_def queue_of_def)
  ultimately have "candidates_received (Str (js ''pa'')) demo_trace = candidates_added (Str (js ''pa'')) demo_trace"
    using candidates_in_order [OF run, of "Str (js ''pa'')"] by simp
  with run show ?thesis by (simp add: candidates_added_def demo_trace_def)
qed

theorem no_early_candidate_witness:
  "\<exists>p. map_of (rt_peers (await (Str (js ''pa'')) (AwaitDrain [] True)
     (set_peer (Str (js ''pa'')) \<lparr>pe_remote = True, pe_candidates = [], pe_stream = []\<rparr> demo_offered))) (Str (js ''pa'')) = Some p \<and> pe_remote p"
  by (rule no_early_candidate [OF demo_offered_reachable demo_fulfilled]) simp

section \<open>Peers that left\<close>

text \<open>The peer a call is about; a message is about its target.\<close>

fun about :: "call \<Rightarrow> jsval option" where
  "about (NewConnection i) = Some i"
| "about (AddTransceiver i kind t) = Some i"
| "about (Create i typ) = Some i"
| "about (SetLocal i) = Some i"
| "about (SetRemote i offer sdp) = Some i"
| "about (AddIce i c) = Some i"
| "about (ReplaceSender i kind t) = Some i"
| "about (ClosePc i) = Some i"
| "about (Signal typ payload) = Some (get_prop payload (js ''targetId''))"
| "about (RemoteTrack i n) = Some i"
| "about (ReportError err) = None"

lemma target_of [simp]: "get_prop (Obj ((js ''targetId'', i) # ps)) (js ''targetId'') = i"
  by (simp add: get_prop.simps)

lemma throws_about: "throws s i err = (t, es) \<Longrightarrow> e \<in> set es \<Longrightarrow> about e = None"
  by (auto simp: throws_def split: if_splits)

lemma answer_tracks_about: "answer_tracks s i ks = (t, es) \<Longrightarrow> e \<in> set es \<Longrightarrow> about e \<in> {None, Some i}"
  by (cases ks) (auto split: option.splits dest: throws_about)

lemma drain_about: "drain s i a cs offer = (t, es) \<Longrightarrow> e \<in> set es \<Longrightarrow> about e \<in> {None, Some i}"
  by (cases cs) (auto split: if_splits dest: answer_tracks_about)

lemma resume_about: "resume s i p a k = (t, es) \<Longrightarrow> e \<in> set es \<Longrightarrow> about e \<in> {None, Some i}"
  by (cases k) (auto split: if_splits dest: throws_about answer_tracks_about drain_about)

lemma begin_op_about:
  assumes "begin_op s i op = (t, es)" and "e \<in> set es"
  shows "about e \<in> {None, Some i}"
proof -
  obtain s1 p made where e: "ensure_peer s i = (s1, p, made)" by (cases "ensure_peer s i")
  then have "\<forall>c \<in> set made. about c = Some i"
    by (cases "map_of (rt_peers s) i") (auto simp: ensure_peer_known ensure_peer_new Let_def)
  with assms e show ?thesis
    by (cases op) (auto split: option.splits if_splits prod.splits dest: throws_about)
qed

lemma step_about:
  "session_step s (ev, es) t \<Longrightarrow> session_inv s \<Longrightarrow> e \<in> set es \<Longrightarrow> about e = Some i \<Longrightarrow> active s i"
proof (induction s "(ev, es)" t rule: session_step.induct)
  case (begin_next s j op ops t)
  then show ?case by (auto dest: begin_op_about)
next
  case (no_connection s j op ops err t)
  then show ?case by (auto dest: throws_about)
next
  case (fulfilled s j k p a t)
  then have "active s j" using session_inv_view [of s j] by (simp add: view_def)
  with fulfilled show ?case by (auto dest: resume_about)
next
  case (failed s j k err t)
  then show ?case by (auto dest: throws_about)
next
  case (peer_left s j t)
  then show ?case using session_inv_view [of s j] by (auto simp: removePeer_def view_def split: if_splits)
next
  case (close_all s t)
  then have "i \<in> set (keys_of (rt_peers s))" by (force simp: close_session_def)
  then have "map_of (rt_peers s) i \<noteq> None" by (rule key_in_iff [THEN iffD1])
  then show ?case using session_inv_view [of s i] close_all by (auto simp: view_def)
next
  case (local_candidate s j p cand)
  then show ?case using session_inv_view [of s j] by (auto simp: onicecandidate_def view_def split: if_splits)
next
  case (track_arrived s j p n t)
  then show ?case using session_inv_view [of s j] by (auto simp: ontrack_def view_def)
next
  case (replace s has_sender old new t)
  then have "i \<in> set (keys_of (rt_peers s))"
    by (force simp: replaceTrack_def split: option.splits if_splits)
  then have "map_of (rt_peers s) i \<noteq> None" by (rule key_in_iff [THEN iffD1])
  then show ?case using session_inv_view [of s i] replace by (auto simp: view_def)
qed auto

text \<open>C26. Once a peer has left, or the session is closed, the session does nothing more for that peer:
  whatever was under way or waiting, no later step calls its connection, makes a new one, sends it a
  message, shows a track of it, or reports the failure of an operation of it.\<close>

theorem departed_peer_silent:
  assumes "session_reachable s" and "\<not> active s i" and "execution session_step s ls t"
  shows "list_all (\<lambda>(ev, es). (\<forall>e \<in> set es. about e \<noteq> Some i) \<and> (\<forall>err. ev = Failed i err \<longrightarrow> es = [])) ls"
  using assms(3) session_reachable_inv [OF assms(1)] assms(2)
proof (induction rule: execution.induct)
  case (execution_cons s l t ls u)
  obtain ev es where l: "l = (ev, es)" by force
  note stp = execution_cons(1) [unfolded l]
  have "\<not> active t i" using step_active [OF execution_cons(1)] execution_cons(5) by blast
  moreover have "\<forall>e \<in> set es. about e \<noteq> Some i" using step_about [OF stp execution_cons(4)] execution_cons(5) by blast
  moreover have "es = []" if "ev = Failed i err" for err
    using stp that execution_cons(5) by (auto elim: session_step.cases simp: throws_def)
  ultimately show ?case using execution_cons(3) session_step_inv [OF stp execution_cons(4)] by (auto simp: l)
qed simp

theorem departed_peer_silent_witness:
  "\<not> active (fst (removePeer demo_offered (Str (js ''pa'')))) (Str (js ''pa'')) \<and>
   snd (throws (fst (removePeer demo_offered (Str (js ''pa'')))) (Str (js ''pa'')) TypeError) = []"
proof -
  let ?i = "Str (js ''pa'')" let ?s = "fst (removePeer demo_offered ?i)"
  have stp: "session_step demo_offered (PeerLeft ?i, snd (removePeer demo_offered ?i)) ?s"
    by (rule peer_left) simp
  then have reach: "session_reachable ?s"
    using demo_offered_reachable unfolding session_reachable_def by (blast intro: reachable_step)
  have gone: "\<not> active ?s ?i" by (simp add: removePeer_def active_def)
  have "session_step ?s (Failed ?i TypeError, snd (throws ?s ?i TypeError)) (fst (throws ?s ?i TypeError))"
    by (rule failed [where k = "AwaitRemote True"]) (simp_all add: removePeer_def demo_offered_def)
  from departed_peer_silent [OF reach gone execution_cons [where stp = session_step, OF this execution_nil]] gone show ?thesis by simp
qed

section \<open>Offers and answers\<close>

text \<open>The promises an operation awaits resolve, one after the other, and these are the calls it makes.\<close>

definition settles :: "jsval \<Rightarrow> answer \<Rightarrow> session \<Rightarrow> call list \<Rightarrow> session \<Rightarrow> bool" where
  "settles i a s es t \<longleftrightarrow> (\<exists>ls. execution session_step s ls t \<and> concat (map snd ls) = es \<and>
     list_all (\<lambda>l. fst l = Fulfilled i a) ls)"

lemma settles_nil: "settles i a s [] s"
  unfolding settles_def by (intro exI [of _ "[]"]) (simp add: execution_nil)

lemma settles_step:
  assumes "rt_running s i = Some k" and "map_of (rt_peers s) i = Some p" and "resume s i p a k = (t, es)" and "settles i a t es' u"
  shows "settles i a s (es @ es') u"
proof -
  from assms(4) obtain ls where "execution session_step t ls u" "concat (map snd ls) = es'" "list_all (\<lambda>l. fst l = Fulfilled i a) ls"
    by (auto simp: settles_def)
  with execution_cons [where stp = session_step, OF fulfilled [OF assms(1-3)]] show ?thesis
    unfolding settles_def by (intro exI [of _ "(Fulfilled i a, es) # ls"]) simp
qed

text \<open>What the end of an operation leaves as it was.\<close>

definition at_rest :: "session \<Rightarrow> jsval \<Rightarrow> session \<Rightarrow> bool" where
  "at_rest s i t \<longleftrightarrow> rt_running t i = None \<and> queue_of t = queue_of s \<and> rt_localStream t = rt_localStream s \<and>
     active t = active s \<and> map_of (rt_peers t) i \<noteq> None"

lemma finished_stream [simp]: "rt_localStream (finished i s) = rt_localStream s"
  by (simp add: finished_def)

text \<open>The last two awaits: create the description, set it, send it.\<close>

definition described :: "jsval \<Rightarrow> string \<Rightarrow> jsval \<Rightarrow> call list" where
  "described i typ sdp = [Create i typ, SetLocal i, Signal typ (Obj [(js ''targetId'', i), (js ''sdp'', sdp)])]"

lemma created_settles:
  assumes "map_of (rt_peers s) i = Some p" and "an_open a"
  obtains t where "settles i a (await i (AwaitCreate typ) s) (tl (described i typ (an_sdp a))) t" and "at_rest s i t"
proof
  let ?s = "await i (AwaitCreate typ) s" let ?s1 = "await i (AwaitLocal typ) ?s"
  have "settles i a ?s1 ([Signal typ (Obj [(js ''targetId'', i), (js ''sdp'', an_sdp a)])] @ []) (finished i ?s1)"
    by (rule settles_step [where k = "AwaitLocal typ", OF _ _ _ settles_nil]) (use assms in simp_all)
  then have "settles i a ?s ([SetLocal i] @ [Signal typ (Obj [(js ''targetId'', i), (js ''sdp'', an_sdp a)])]) (finished i ?s1)"
    by (intro settles_step [where s = ?s and k = "AwaitCreate typ"]) (use assms in simp_all)
  then show "settles i a ?s (tl (described i typ (an_sdp a))) (finished i ?s1)" by (simp add: described_def)
  show "at_rest s i (finished i ?s1)" using assms by (simp add: at_rest_def)
qed

lemma answer_tracks_settles:
  assumes "map_of (rt_peers s) i = Some p" and "an_open a" and "rt_localStream s = Some st" and "answer_tracks s i ks = (t, es)"
  shows "\<exists>es' u. settles i a t es' u \<and> at_rest s i u \<and>
    es @ es' = map (\<lambda>k. ReplaceSender i k (find_track st k)) ks @ described i ''webrtc.answer'' (an_sdp a)"
  using assms
proof (induction ks arbitrary: s t es)
  case Nil
  obtain u where "settles i a t (tl (described i ''webrtc.answer'' (an_sdp a))) u" "at_rest s i u"
    using created_settles [of s i p a "''webrtc.answer''"] Nil by auto
  moreover have "es @ tl (described i ''webrtc.answer'' (an_sdp a)) = described i ''webrtc.answer'' (an_sdp a)"
    using Nil by (auto simp: described_def)
  ultimately show ?case by auto
next
  case (Cons k ks)
  let ?t = "await i (AwaitSender ks) s"
  from Cons.prems have t: "t = ?t" and es: "es = [ReplaceSender i k (find_track st k)]" by auto
  obtain v fs where v: "answer_tracks ?t i ks = (v, fs)" by (cases "answer_tracks ?t i ks")
  from Cons.IH [OF _ _ _ v] Cons.prems(1-3) obtain es' u where u: "settles i a v es' u" "at_rest ?t i u"
    and all: "fs @ es' = map (\<lambda>k. ReplaceSender i k (find_track st k)) ks @ described i ''webrtc.answer'' (an_sdp a)"
    by auto
  have "settles i a ?t (fs @ es') u"
    by (rule settles_step [where k = "AwaitSender ks", OF _ _ _ u(1)]) (use Cons.prems(1) v in simp_all)
  moreover have "at_rest s i u" using u(2) by (simp add: at_rest_def)
  ultimately show ?case using es all unfolding t by (intro exI [of _ "fs @ es'"] exI [of _ u]) simp
qed

lemma drain_settles:
  assumes "map_of (rt_peers s) i = Some p" and "an_open a" and "rt_localStream s = Some st" and "drain s i a cs True = (t, es)"
  shows "\<exists>es' u. settles i a t es' u \<and> at_rest s i u \<and> es @ es' = map (AddIce i) cs @
    map (\<lambda>k. ReplaceSender i k (find_track st k)) (an_kinds a) @ described i ''webrtc.answer'' (an_sdp a)"
  using assms
proof (induction cs arbitrary: s t es)
  case Nil
  then show ?case using answer_tracks_settles [of s i p a st] by simp
next
  case (Cons c cs)
  let ?t = "await i (AwaitDrain cs True) s"
  from Cons.prems have t: "t = ?t" and es: "es = [AddIce i c]" by auto
  obtain v fs where v: "drain ?t i a cs True = (v, fs)" by (cases "drain ?t i a cs True")
  from Cons.IH [OF _ _ _ v] Cons.prems(1-3) obtain es' u where u: "settles i a v es' u" "at_rest ?t i u"
    and all: "fs @ es' = map (AddIce i) cs @
      map (\<lambda>k. ReplaceSender i k (find_track st k)) (an_kinds a) @ described i ''webrtc.answer'' (an_sdp a)"
    by auto
  have "settles i a ?t (fs @ es') u"
    by (rule settles_step [where k = "AwaitDrain cs True", OF _ _ _ u(1)]) (use Cons.prems(1) v in simp_all)
  moreover have "at_rest s i u" using u(2) by (simp add: at_rest_def)
  ultimately show ?case using es all unfolding t by (intro exI [of _ "fs @ es'"] exI [of _ u]) simp
qed

text \<open>C19. An offer is answered: when the operation of an offer begins and the promises it awaits resolve,
  it sets the remote description, adds the candidates kept back in their order, gives each transceiver
  the local track of its kind, creates and sets the answer, sends it to the peer that offered, and ends,
  with nothing in between.\<close>

theorem offer_answered:
  assumes "active s i" and "rt_running s i = None" and "queue_of s i = Handle ''webrtc.offer'' payload # ops"
    and "rt_localStream s = Some st" and "an_open a"
  shows "\<exists>s1 es es' t. session_step s (Begin i (Handle ''webrtc.offer'' payload), es) s1 \<and> settles i a s1 es' t \<and>
    es @ es' = (if map_of (rt_peers s) i = None then [NewConnection i] else []) @
      [SetRemote i True (get_prop payload (js ''sdp''))] @
      map (AddIce i) (kept (map_of (rt_peers s) i)) @
      map (\<lambda>k. ReplaceSender i k (find_track st k)) (an_kinds a) @ described i ''webrtc.answer'' (an_sdp a) \<and>
    rt_running t i = None \<and> queue_of t i = ops"
proof -
  obtain s1 p made where e: "ensure_peer (dequeue s i) i = (s1, p, made)" by (cases "ensure_peer (dequeue s i) i")
  note view = ensure_peer_view [OF e]
  have made: "made = (if map_of (rt_peers s) i = None then [NewConnection i] else [])"
    and kept: "pe_candidates p = kept (map_of (rt_peers s) i)"
    using e by (cases "map_of (rt_peers s) i"; auto simp: ensure_peer_known ensure_peer_new Let_def)+
  let ?s1 = "await i (AwaitRemote True) s1" let ?p = "p\<lparr>pe_remote := True, pe_candidates := []\<rparr>"
  have begun: "session_step s (Begin i (Handle ''webrtc.offer'' payload),
      made @ [SetRemote i True (get_prop payload (js ''sdp''))]) ?s1"
    by (rule begin_next [OF assms(3,2,1)]) (simp add: e)
  obtain v fs where v: "drain (set_peer i ?p ?s1) i a (pe_candidates p) True = (v, fs)" by (cases "drain (set_peer i ?p ?s1) i a (pe_candidates p) True")
  from drain_settles [OF _ assms(5) _ v, of ?p st] view(4) assms(4) obtain es' t where u: "settles i a v es' t" "at_rest (set_peer i ?p ?s1) i t"
    and all: "fs @ es' = map (AddIce i) (pe_candidates p) @
      map (\<lambda>k. ReplaceSender i k (find_track st k)) (an_kinds a) @ described i ''webrtc.answer'' (an_sdp a)"
    by auto
  have "settles i a ?s1 (fs @ es') t"
    by (rule settles_step [where k = "AwaitRemote True", OF _ _ _ u(1)]) (use view(2) v in simp_all)
  moreover have "rt_running t i = None" and "queue_of t i = ops"
    using u(2) view(6) assms(3) by (simp_all add: at_rest_def)
  ultimately show ?thesis
    using begun made kept all by (intro exI [of _ ?s1] exI [of _ "made @ [SetRemote i True (get_prop payload (js ''sdp''))]"]
        exI [of _ "fs @ es'"] exI [of _ t]) simp
qed

theorem offer_answered_witness:
  "\<exists>es t. settles (Str (js ''pa'')) \<lparr>an_sdp = Str (js ''v=0''), an_kinds = [], an_open = True\<rparr> demo_offered es t \<and>
     last es = Signal ''webrtc.answer'' (Obj [(js ''targetId'', Str (js ''pa'')), (js ''sdp'', Str (js ''v=0''))])"
proof -
  let ?i = "Str (js ''pa'')" let ?a = "\<lparr>an_sdp = Str (js ''v=0''), an_kinds = [], an_open = True\<rparr>"
  let ?s = "demo_offered\<lparr>rt_running := Map.empty, rt_queues := [(?i, [Handle ''webrtc.offer'' demo_remote_offer])]\<rparr>"
  from offer_answered [of ?s ?i demo_remote_offer "[]" "[]" ?a]
  obtain s1 es es' t where stp: "session_step ?s (Begin ?i (Handle ''webrtc.offer'' demo_remote_offer), es) s1"
    and "settles ?i ?a s1 es' t" and all: "es @ es' = SetRemote ?i True (Str (js ''v=0'')) # AddIce ?i (ice_of demo_candidate) #
      described ?i ''webrtc.answer'' (Str (js ''v=0''))"
    by (auto simp: demo_offered_def active_def queue_of_def)
  moreover have "s1 = demo_offered" and "es = [SetRemote ?i True (Str (js ''v=0''))]"
    using stp by (auto elim!: begin_stepE simp: demo_offered_def ensure_peer_def dequeue_def queue_of_def await_def)
  ultimately have "settles ?i ?a demo_offered es' t" and "es' = AddIce ?i (ice_of demo_candidate) #
      described ?i ''webrtc.answer'' (Str (js ''v=0''))" by auto
  then show ?thesis by (intro exI [of _ es'] exI [of _ t]) (simp add: described_def)
qed

text \<open>An offer waiting at the head of a queue is made: when the operation begins and its promises resolve, the
  connection gets an audio and a video transceiver with the local tracks of those kinds, and the offer
  created and set is sent to the peer. The other queues stay as they are.\<close>

lemma offer_made:
  assumes "active s i" and "rt_running s i = None" and "queue_of s i = Offer # ops"
    and "rt_localStream s = Some st" and "an_open a"
  shows "\<exists>s1 es es' t. session_step s (Begin i Offer, es) s1 \<and> settles i a s1 es' t \<and>
    es @ es' = (if map_of (rt_peers s) i = None then [NewConnection i] else []) @
      [AddTransceiver i ''audio'' (find_track st ''audio''), AddTransceiver i ''video'' (find_track st ''video'')] @
      described i ''webrtc.offer'' (an_sdp a) \<and>
    rt_running t i = None \<and> queue_of t i = ops \<and> (\<forall>j. j \<noteq> i \<longrightarrow> queue_of t j = queue_of s j)"
proof -
  obtain s1 p made where e: "ensure_peer (dequeue s i) i = (s1, p, made)" by (cases "ensure_peer (dequeue s i) i")
  note view = ensure_peer_view [OF e]
  have made: "made = (if map_of (rt_peers s) i = None then [NewConnection i] else [])"
    using e by (cases "map_of (rt_peers s) i") (auto simp: ensure_peer_known ensure_peer_new Let_def)
  let ?s1 = "await i (AwaitCreate ''webrtc.offer'') s1"
  let ?es = "made @ [AddTransceiver i ''audio'' (find_track st ''audio''), AddTransceiver i ''video'' (find_track st ''video''),
    Create i ''webrtc.offer'']"
  have begun: "session_step s (Begin i Offer, ?es) ?s1"
    by (rule begin_next [OF assms(3,2,1)]) (use e view(4) assms(4) in simp)
  obtain t where t: "settles i a ?s1 (tl (described i ''webrtc.offer'' (an_sdp a))) t" "at_rest s1 i t"
    using created_settles [of s1 i p a "''webrtc.offer''"] view(2) assms(5) by blast
  then have "rt_running t i = None" and "queue_of t i = ops" and "\<forall>j. j \<noteq> i \<longrightarrow> queue_of t j = queue_of s j"
    using view(6) assms(3) by (simp_all add: at_rest_def)
  with begun t(1) made show ?thesis
    by (intro exI [of _ ?s1] exI [of _ ?es] exI [of _ "tl (described i ''webrtc.offer'' (an_sdp a))"] exI [of _ t])
      (simp add: described_def)
qed

lemma queue_enqueue_all:
  "queue_of (fold (\<lambda>p s. enqueue s (g p) Offer) ps s) i = queue_of s i @ map (\<lambda>_. Offer) (filter (\<lambda>p. g p = i) ps)"
  by (induction ps arbitrary: s) auto

lemma filter_named:
  "distinct (map g ps) \<Longrightarrow> length (filter (\<lambda>p. g p = i) ps) = (if i \<in> g ` set ps then 1 else 0)"
  by (induction ps) (auto simp: filter_empty_conv)

text \<open>What a session is given to do when it starts: one offer for each participant, and nothing else.\<close>

lemma start_queues:
  assumes "distinct (map (\<lambda>p. get_prop p (js ''id'')) ps)"
  shows "queue_of (start_session new_session st ps) i = (if i \<in> (\<lambda>p. get_prop p (js ''id'')) ` set ps then [Offer] else [])"
proof -
  have "queue_of (start_session new_session st ps) i = map (\<lambda>_. Offer) (filter (\<lambda>p. get_prop p (js ''id'') = i) ps)"
    unfolding start_session_def queue_enqueue_all by (simp add: queue_of_def new_session_def)
  also have "\<dots> = replicate (length (filter (\<lambda>p. get_prop p (js ''id'') = i) ps)) Offer"
    by (rule map_replicate_const)
  finally show ?thesis using filter_named [OF assms, of i] by (simp only: split: if_splits) simp_all
qed

lemma start_stream [simp]: "rt_localStream (start_session s st ps) = Some st"
proof -
  have "rt_localStream (fold (\<lambda>p s. enqueue s (g p) Offer) ps s) = rt_localStream s" for g and s :: session
    by (induction ps arbitrary: s) auto
  then show ?thesis by (simp add: start_session_def)
qed

end
