(* ===== verification/Negotiation.thy ===== *)
theory Negotiation
  imports Meeting WebRtcProperties
begin

text \<open>
  The way of a signaling message from one page to another: the session of one page hands it to its
  client (\<open>webrtc.js\<close>, \<open>signaling.js\<close>), the server relays it (\<open>server.js\<close>) and the other page's
  client hands it to its session, which queues the operation that handles it.
\<close>

text \<open>What the session reads of a message of each type.\<close>

definition carries :: "string \<Rightarrow> jsval \<Rightarrow> jsval \<Rightarrow> bool" where
  "carries mt x y \<longleftrightarrow> (if mt = ''webrtc.iceCandidate'' then ice_of x = ice_of y
     else get_prop x (js ''sdp'') = get_prop y (js ''sdp''))"

text \<open>A page whose session listens and that waits for nothing.\<close>

definition in_session :: "app \<Rightarrow> session \<Rightarrow> bool" where
  "in_session b se \<longleftrightarrow> ap_webrtc b = Some se \<and> ap_await b = AwaitNothing \<and>
     (\<exists>c. ap_signaling b = Some c \<and> (\<forall>mt \<in> set signal_types. client_calls c (js mt) = [OnWebrtc mt]))"

lemma signal_relay_types: "signal_types = relay_types"
  by (simp add: signal_types_def relay_types_def)

lemma find_relay_type: "mt \<in> set relay_types \<Longrightarrow> find (\<lambda>t. js mt = js t) relay_types = Some mt"
  by (auto simp: relay_types_def)

lemma relay_type_other: "mt \<in> set relay_types \<Longrightarrow> js mt \<noteq> js ''ping'' \<and> js mt \<noteq> js ''room.create'' \<and> js mt \<noteq> js ''room.join''"
  by (auto simp: relay_types_def)

text \<open>The page takes the frame: the operation is queued and nothing else changes.\<close>

lemma frame_enqueued:
  assumes "in_session b se" and "mt \<in> set signal_types" and m: "m = wire (envelope (js mt) (Obj ps) Undefined)"
  shows "app_frame j m b =
    (b\<lparr>ap_webrtc := Some (enqueue se (get_prop (wire (Obj ps)) (js ''participantId'')) (Handle mt (wire (Obj ps))))\<rparr>, [])"
proof -
  from assms(1,2) obtain c where c: "ap_signaling b = Some c" "client_calls c (js mt) = [OnWebrtc mt]"
    and se: "ap_webrtc b = Some se" "ap_await b = AwaitNothing" by (auto simp: in_session_def)
  have some: "\<not> nullish m" "\<not> nullish (wire (Obj ps))" unfolding m by (simp_all add: nullish_def envelope_def)
  have "get_prop m (js ''type'') = Str (js mt)" "get_prop m (js ''payload'') = wire (Obj ps)" "get_prop m (js ''requestId'') = Undefined"
    unfolding m by (simp_all add: get_prop_wire_envelope Let_def del: wire.simps) simp
  then have "onmessage c (Some m) = (c, [CallListener (OnWebrtc mt) (wire (Obj ps))])"
    using some c(2) by (simp add: onmessage_def handleMessage_def Let_def)
  moreover have "b\<lparr>ap_signaling := Some c\<rparr> = b" using c(1) by simp
  ultimately show ?thesis using some c se by (simp add: app_frame_def settle_join_def del: wire.simps)
qed


section \<open>The server relays it\<close>

text \<open>A value that JSON carries as it is: a string, an integer, \<open>null\<close> or a missing property.\<close>

definition plain_value :: "jsval \<Rightarrow> bool" where
  "plain_value v \<longleftrightarrow> nullish v \<or> is_str v \<or> is_integer v"

definition over_wire :: "jsval \<Rightarrow> jsval" where
  "over_wire v = (if v = Undefined then Undefined else wire v)"

lemma plain_over_wire: "plain_value v \<Longrightarrow> over_wire v = v"
  by (cases v rule: wire.cases) (auto simp: plain_value_def over_wire_def nullish_def split: number.split)

lemma get_prop_over_wire: "distinct (map fst ps) \<Longrightarrow> get_prop (wire (Obj ps)) k = over_wire (get_prop (Obj ps) k)"
  by (simp add: get_prop_wire over_wire_def Let_def del: wire.simps)

lemma ice_plain:
  "ice_candidate_ok x \<Longrightarrow> k \<in> {''candidate'', ''sdpMid'', ''sdpMLineIndex''} \<Longrightarrow> plain_value (get_prop x (js k))"
  unfolding ice_candidate_ok_def plain_value_def Let_def by (cases "get_prop x (js ''candidate'')") auto

lemma forwarded_ice:
  "forwarded (js ''webrtc.iceCandidate'') x = Inr copied \<Longrightarrow> ice_candidate_ok x \<and>
     copied = [(js ''candidate'', get_prop x (js ''candidate'')), (js ''sdpMid'', get_prop x (js ''sdpMid'')),
       (js ''sdpMLineIndex'', get_prop x (js ''sdpMLineIndex''))]"
  by (simp add: forwarded_def split: if_splits)

lemma forwarded_sdp:
  "mt \<noteq> ''webrtc.iceCandidate'' \<Longrightarrow> forwarded (js mt) x = Inr copied \<Longrightarrow>
   (\<exists>sdp. get_prop x (js ''sdp'') = Str sdp \<and> copied = [(js ''sdp'', Str sdp)])"
  by (cases "get_prop x (js ''sdp'')") (simp_all add: forwarded_def split: if_splits)

lemma relayed_fields:
  assumes fwd: "forwarded (js mt) (Obj fs) = Inr copied" and dist: "distinct (map fst ((js ''targetId'', i) # fs))"
  shows "\<exists>copied'. forwarded (js mt) (wire (Obj ((js ''targetId'', i) # fs))) = Inr copied' \<and>
    carries mt (wire (Obj (copied' @ [(js ''participantId'', Str k)]))) (Obj fs) \<and>
    get_prop (wire (Obj (copied' @ [(js ''participantId'', Str k)]))) (js ''participantId'') = Str k"
proof -
  let ?P = "wire (Obj ((js ''targetId'', i) # fs))"
  have same: "get_prop ?P (js x) = get_prop (Obj fs) (js x)"
    if "plain_value (get_prop (Obj fs) (js x))" "x \<noteq> ''targetId''" for x
    using that get_prop_over_wire [OF dist] by (simp add: plain_over_wire del: wire.simps)
  show ?thesis
  proof (cases "mt = ''webrtc.iceCandidate''")
    case True
    from forwarded_ice [OF fwd [unfolded True]] have ok: "ice_candidate_ok (Obj fs)" by blast
    note plain = ice_plain [OF ok]
    have "forwarded (js mt) ?P = forwarded (js mt) (Obj fs)"
      unfolding True forwarded_def ice_candidate_ok_def by (simp add: same plain del: wire.simps)
    moreover have "carries mt (wire (Obj (copied @ [(js ''participantId'', Str k)]))) (Obj fs)"
      using forwarded_ice [OF fwd [unfolded True]] plain
      unfolding True carries_def ice_of_def by (simp add: get_prop_over_wire plain_over_wire del: wire.simps)
    moreover have "get_prop (wire (Obj (copied @ [(js ''participantId'', Str k)]))) (js ''participantId'') = Str k"
      using forwarded_ice [OF fwd [unfolded True]] by (simp add: get_prop_over_wire del: wire.simps) (simp add: over_wire_def)
    ultimately show ?thesis using fwd by auto
  next
    case False
    from forwarded_sdp [OF False fwd] obtain sdp where sdp: "get_prop (Obj fs) (js ''sdp'') = Str sdp" "copied = [(js ''sdp'', Str sdp)]"
      by blast
    then have "get_prop ?P (js ''sdp'') = Str sdp" using same [of "''sdp''"] by (simp add: plain_value_def del: wire.simps)
    then have "forwarded (js mt) ?P = forwarded (js mt) (Obj fs)"
      using False sdp(1) by (simp add: forwarded_def del: wire.simps)
    moreover have "carries mt (wire (Obj (copied @ [(js ''participantId'', Str k)]))) (Obj fs)"
      using False sdp by (simp add: carries_def get_prop_over_wire del: wire.simps) (simp add: over_wire_def)
    moreover have "get_prop (wire (Obj (copied @ [(js ''participantId'', Str k)]))) (js ''participantId'') = Str k"
      using sdp(2) by (simp add: get_prop_over_wire del: wire.simps) (simp add: over_wire_def)
    ultimately show ?thesis using fwd by auto
  qed
qed

lemma relayed_frame:
  assumes inv: "server_inv cfg s" and c: "map_of (sv_clients s) v = Some c"
    and p: "part_of s v = Some p" and q: "part_of s w = Some q" and room: "p_roomId q = p_roomId p" and other: "v \<noteq> w"
    and rdy: "ready_of s w = OPEN" and tok: "snd (take_token cfg (now1 d) (now2 d) c)" and ok: "envelope_ok m"
    and ty: "get_prop m (js ''type'') = Str (js mt)" "mt \<in> set relay_types"
    and target: "get_prop (get_prop m (js ''payload'')) (js ''targetId'') = Str (p_id q)"
    and fwd: "forwarded (js mt) (get_prop m (js ''payload'')) = Inr copied"
  shows "snd (on_message cfg d s v c (Text (Some m))) =
    [Send w (wire (envelope (js mt) (Obj (copied @ [(js ''participantId'', Str (p_id p))])) Undefined))]"
proof -
  let ?s = "set_conn v (fst (take_token cfg (now1 d) (now2 d) c)) s"
  have seat: "ws_participant c = Some p" using p c by (simp add: part_of_conn)
  obtain rm where rm: "map_of (sv_rooms s) (p_roomId p) = Some rm" "map_of rm (p_id q) = Some q"
    using inv_seat [OF inv q] room by metis
  have "p_id q \<noteq> p_id p" using inv_unique [OF inv q p] other by auto
  moreover have "p_ws q = w" using inv_part [OF inv q] by simp
  moreover have "ready_of ?s w = OPEN" using rdy other c by (simp add: ready_of_conn)
  ultimately have "handle_relay ?s v p rm mt (get_prop m (js ''payload'')) (request_id m) =
      [Send w (wire (envelope (js mt) (Obj (copied @ [(js ''participantId'', Str (p_id p))])) Undefined))]"
    using target fwd rm(2) by (simp add: handle_relay_def send_def del: wire.simps)
  then show ?thesis
    using seat rm(1) ty relay_type_other [OF ty(2)] find_relay_type [OF ty(2)]
    by (simp add: on_message_request [OF tok ok] handle_request_def Let_def del: wire.simps)
qed

section \<open>From page to page\<close>

text \<open>C7. What one session says to another is what the other hears. When the session of a participant
  hands its client an offer, an answer or a candidate for another participant of its room, with fields
  that are valid, the server turns the frame into one frame for the other's connection, and the other
  page queues the operation of that message for exactly the participant that sent it, with the same
  description or candidate; nothing else of the page changes.\<close>

theorem signal_delivered:
  assumes "server_reachable cfg s" and c: "map_of (sv_clients s) v = Some c"
    and p: "part_of s v = Some p" and q: "part_of s w = Some q" and room: "p_roomId q = p_roomId p" and other: "v \<noteq> w"
    and rdy: "ready_of s w = OPEN" and tok: "snd (take_token cfg (now1 d) (now2 d) c)" and ty: "mt \<in> set signal_types"
    and sent: "client_send cl (js mt) (Obj ((js ''targetId'', Str (p_id q)) # fs)) Undefined = Inr [SendFrame n m]"
    and keys: "distinct (map fst ((js ''targetId'', Str (p_id q)) # fs))"
    and valid: "forwarded (js mt) (Obj fs) = Inr copied" and page: "in_session b se"
  shows "\<exists>m' payload. snd (on_message cfg d s v c (Text (Some m))) = [Send w m'] \<and>
    app_frame j m' b = (b\<lparr>ap_webrtc := Some (enqueue se (Str (p_id p)) (Handle mt payload))\<rparr>, []) \<and>
    carries mt payload (Obj fs)"
proof -
  let ?pl = "Obj ((js ''targetId'', Str (p_id q)) # fs)"
  note inv = server_reachable_inv [OF assms(1)]
  have m: "m = wire (envelope (js mt) ?pl Undefined)" using sent by (simp add: client_send_def split: if_splits)
  have payload: "get_prop m (js ''payload'') = wire ?pl" unfolding m by (simp add: get_prop_wire_envelope Let_def del: wire.simps)
  have tgt: "get_prop (wire ?pl) (js ''targetId'') = Str (p_id q)"
    using get_prop_over_wire [OF keys, of "js ''targetId''"] by (simp add: over_wire_def del: wire.simps) simp
  have mty: "get_prop m (js ''type'') = Str (js mt)" unfolding m by (simp add: get_prop_wire_envelope Let_def)
  have ok: "envelope_ok m" unfolding m by (rule envelope_ok_wire)
  from relayed_fields [OF valid keys, of "p_id p"] obtain copied' where
    fwd: "forwarded (js mt) (wire ?pl) = Inr copied'"
    and same: "carries mt (wire (Obj (copied' @ [(js ''participantId'', Str (p_id p))]))) (Obj fs)"
    and from_p: "get_prop (wire (Obj (copied' @ [(js ''participantId'', Str (p_id p))]))) (js ''participantId'') = Str (p_id p)"
    by blast
  note relayed_frame [OF inv c p q room other rdy tok ok mty ty [unfolded signal_relay_types], unfolded payload, OF tgt fwd]
  moreover note frame_enqueued [OF page ty refl, where ps = "copied' @ [(js ''participantId'', Str (p_id p))]" and j = j, unfolded from_p]
  ultimately show ?thesis using same by blast
qed

text \<open>The newcomer of the scenario offers to the first client.\<close>

definition demo_listener :: app where
  "demo_listener = init_app\<lparr>ap_signaling := Some (webrtc_on (setup_handlers new_SignalingClient)), ap_webrtc := Some new_session\<rparr>"

lemma demo_listener_session: "in_session demo_listener new_session"
  by (simp add: in_session_def demo_listener_def init_app_def webrtc_on_def setup_handlers_def signal_types_def client_calls_on client_events.calls_none)

definition demo_sdp :: "(jstring \<times> jsval) list" where
  "demo_sdp = [(js ''sdp'', Str (js ''v=0''))]"

definition demo_sent :: jsval where
  "demo_sent = wire (envelope (js ''webrtc.offer'') (Obj ((js ''targetId'', Str (p_id (demo_person 10 ''A'' ''ua''))) # demo_sdp)) Undefined)"

theorem signal_delivered_witness:
  "\<exists>m' payload. snd (on_message demo_config (demo_draws ''uc'') demo_pair 20 (demo_conn (Some (demo_person 20 ''B'' ''ub'')) 119 1)
       (Text (Some demo_sent))) = [Send 10 m'] \<and>
     ap_webrtc (fst (app_frame (js ''q'') m' demo_listener)) =
       Some (enqueue new_session (Str (js ''ub'')) (Handle ''webrtc.offer'' payload)) \<and>
     get_prop payload (js ''sdp'') = Str (js ''v=0'')"
proof -
  let ?c = "demo_conn (Some (demo_person 20 ''B'' ''ub'')) 119 1" and ?d = "demo_draws ''uc''"
  have seats: "part_of demo_pair 20 = Some (demo_person 20 ''B'' ''ub'')" "part_of demo_pair 10 = Some (demo_person 10 ''A'' ''ua'')"
    and rdy: "ready_of demo_pair 10 = OPEN"
    by (simp_all add: part_of_def ready_of_def demo_defs)
  have room: "p_roomId (demo_person 10 ''A'' ''ua'') = p_roomId (demo_person 20 ''B'' ''ub'')" by (simp add: demo_person_def)
  have tok: "snd (take_token demo_config (now1 ?d) (now2 ?d) ?c)"
    by (simp add: take_token_def Let_def demo_conn_def demo_draws_def demo_config_def)
  have sent: "client_send demo_client (js ''webrtc.offer'') (Obj ((js ''targetId'', Str (p_id (demo_person 10 ''A'' ''ua''))) # demo_sdp)) Undefined
      = Inr [SendFrame 7 demo_sent]"
    by (simp add: client_send_def client_ready_def demo_client_def demo_sent_def del: wire.simps)
  have keys: "distinct (map fst ((js ''targetId'', Str (p_id (demo_person 10 ''A'' ''ua''))) # demo_sdp))" by (simp add: demo_sdp_def)
  have valid: "forwarded (js ''webrtc.offer'') (Obj demo_sdp) = Inr demo_sdp" by (simp add: forwarded_def demo_sdp_def)
  have "(20::nat) \<noteq> 10" and "''webrtc.offer'' \<in> set signal_types" by (simp_all add: signal_types_def)
  from signal_delivered [OF demo_pair_reachable demo_pair_clients(2) seats room this(1) rdy tok this(2) sent keys valid demo_listener_session,
      of "js ''q''"]
  show ?thesis by (auto simp: carries_def demo_person_def demo_sdp_def)
qed

section \<open>The newcomer offers\<close>

text \<open>The other members of a participant's room.\<close>

definition others :: "server \<Rightarrow> participant \<Rightarrow> participant list" where
  "others s p = filter (\<lambda>q. p_id q \<noteq> p_id p) (map snd (room_of s (p_roomId p)))"

lemma roster_others: "filter (\<lambda>x. id_of x \<noteq> Str (p_id p)) (roster s (p_roomId p)) = map publicParticipant (others s p)"
  by (simp add: roster_def others_def filter_map comp_def)

text \<open>C25. Each of the others in the room gets exactly one offer from the newcomer, and nobody else does: when
  the page that waits for the answer to its join takes the frame the server sends to the connection it
  has seated, its session has one offer to make for every other member of the room, and nothing to do for
  itself or anybody else. Each of these offers goes out when its turn comes: the operation makes a
  connection with an audio and a video transceiver for the local tracks of those kinds, creates the offer,
  sets it and sends it to that member, and then the queue is empty, with the other queues as they were.\<close>

theorem newcomer_offers:
  assumes "server_reachable cfg s" and "joining a i" and "b = fst (app_frame j (joined_frame_of cfg s p (Str i)) a)" and "an_open ans"
  shows "\<exists>se st. ap_webrtc b = Some se \<and> rt_localStream se = Some st \<and> st = map to_track (dv_localStream (ap_devices a)) \<and>
    (\<forall>k. queue_of se k = (if k \<in> (\<lambda>q. Str (p_id q)) ` set (others s p) then [Offer] else [])) \<and>
    (\<forall>q \<in> set (others s p). \<exists>s1 es es' t. let k = Str (p_id q) in
       session_step se (Begin k Offer, es) s1 \<and> settles k ans s1 es' t \<and>
       es @ es' = [NewConnection k, AddTransceiver k ''audio'' (find_track st ''audio''),
         AddTransceiver k ''video'' (find_track st ''video'')] @ described k ''webrtc.offer'' (an_sdp ans) \<and>
       rt_running t k = None \<and> queue_of t k = [] \<and> (\<forall>k'. k' \<noteq> k \<longrightarrow> queue_of t k' = queue_of se k'))"
proof -
  let ?st = "map to_track (dv_localStream (ap_devices a))"
  let ?se = "start_session new_session ?st (map publicParticipant (others s p))"
  have dist: "distinct (map id_of (roster s (p_roomId p)))" by (rule distinct_roster [OF server_reachable_inv [OF assms(1)]])
  have "msg_request (joined_frame_of cfg s p (Str i)) = Str i" by (simp add: joined_frame_of_def)
  from joined_shows [OF assms(2) joined_payload_props(1) this joined_payload_props(2) dist roster_some]
  have se: "ap_webrtc b = Some ?se" unfolding assms(3) joined_payload_props(3) roster_others by blast
  from start_queues [OF distinct_map_filter [OF dist, of "\<lambda>x. id_of x \<noteq> Str (p_id p)", unfolded roster_others], of ?st]
  have queues: "queue_of ?se k = (if k \<in> (\<lambda>q. Str (p_id q)) ` set (others s p) then [Offer] else [])" for k
    by (simp add: image_image)
  have fresh: "active ?se k" "rt_running ?se k = None" "map_of (rt_peers ?se) k = None" for k
    by (simp_all add: active_def) (simp_all add: new_session_def)
  have "queue_of ?se (Str (p_id q)) = Offer # []" if "q \<in> set (others s p)" for q
    using that by (simp add: queues)
  from offer_made [OF fresh(1,2) this start_stream assms(4)] fresh(3) se queues show ?thesis
    by (intro exI [of _ ?se] exI [of _ ?st]) (simp add: Let_def)
qed

theorem newcomer_offers_witness:
  "\<exists>se. ap_webrtc (fst (app_frame (js ''q2'') (joined_frame_of demo_config demo_pair (demo_person 20 ''B'' ''ub'') (Str (js ''q1''))) demo_page)) = Some se \<and>
     queue_of se (Str (js ''ua'')) = [Offer] \<and> queue_of se (Str (js ''ub'')) = []"
proof -
  let ?p = "demo_person 20 ''B'' ''ub''"
  have "(\<lambda>q. Str (p_id q)) ` set (others demo_pair ?p) = {Str (js ''ua'')}"
    by (simp add: others_def room_of_def demo_defs)
  moreover have "js ''ua'' \<noteq> js ''ub''" by simp
  ultimately show ?thesis
    using newcomer_offers [OF demo_pair_reachable demo_page_joining refl, of "\<lparr>an_sdp = Str (js ''v=0''), an_kinds = [], an_open = True\<rparr>" "js ''q2''" ?p]
    by auto
qed

end
