(* ===== verification/MediaControls.thy ===== *)
theory MediaControls
  imports App
begin

text \<open>
  \<open>client/js/app.js\<close>: the preview before a meeting, the microphone, camera and screen buttons, the
  recording button and the device selectors. A function that awaits is cut at its \<open>await\<close>s; what
  the browser gave is an argument of the part after it. Not modelled are the texts of the preview page,
  the invitation link and the source of the preview video, which \<open>Wiring\<close> adds.
\<close>

section \<open>Microphone and camera\<close>

definition audio_tracks :: "app \<Rightarrow> media_track list" where
  "audio_tracks a = of_kind ''audio'' (dv_localStream (ap_devices a))"

definition video_tracks :: "app \<Rightarrow> media_track list" where
  "video_tracks a = of_kind ''video'' (dv_localStream (ap_devices a))"

text \<open>The last lines of \<open>toggleMute\<close> and of \<open>toggleVideo\<close>, and their \<open>catch\<close>.\<close>

definition finish_mute :: "bool \<Rightarrow> app \<Rightarrow> app" where
  "finish_mute muted a = with_ui (setMuted muted) (a\<lparr>ap_muted := muted, ap_devices := setAudioMuted muted (ap_devices a)\<rparr>)"

definition finish_video :: "bool \<Rightarrow> app \<Rightarrow> app" where
  "finish_video enabled a =
     with_ui (setCameraEnabled enabled) (a\<lparr>ap_videoEnabled := enabled, ap_devices := setVideoEnabled enabled (ap_devices a)\<rparr>)"

definition mic_failed :: "app \<Rightarrow> app" where
  "mic_failed = with_ui (showNotification (Str (js ''Microphone unavailable. You can continue listening.'')) UI.Error)"

definition cam_failed :: "app \<Rightarrow> app" where
  "cam_failed = with_ui (showNotification (Str (js ''Camera unavailable. You can continue watching.'')) UI.Error)"

text \<open>Up to the first \<open>await\<close>: it is over, or the browser is asked, under the capture version.\<close>

definition toggleMute :: "app \<Rightarrow> app \<times> int option" where
  "toggleMute a =
     (if audio_tracks a = [] then (a, Some (dv_captureVersion (ap_devices a)))
      else (finish_mute (\<not> ap_muted a) a, None))"

definition toggleVideo :: "app \<Rightarrow> app \<times> int option" where
  "toggleVideo a =
     (if video_tracks a = [] then (a, Some (dv_captureVersion (ap_devices a)))
      else (finish_video (\<not> ap_videoEnabled a) a, None))"

text \<open>\<open>webrtc.replaceTrack(null, track)\<close> is called and awaited.\<close>

definition publish :: "(jsval \<Rightarrow> string \<Rightarrow> bool) \<Rightarrow> session \<Rightarrow> track option \<Rightarrow> track option \<Rightarrow> app \<Rightarrow> app \<times> app_call list" where
  "publish has_sender s old new a =
     (let (s1, es) = replaceTrack s has_sender old new in (a\<lparr>ap_webrtc := Some s1\<rparr>, map BySession es))"

text \<open>The browser gave the tracks, or refused. The last component is the track that is being published.\<close>

definition microphone_given :: "(jsval \<Rightarrow> string \<Rightarrow> bool) \<Rightarrow> int \<Rightarrow> media_track list option \<Rightarrow> app \<Rightarrow>
    app \<times> app_call list \<times> media_track option" where
  "microphone_given has_sender version got a =
     (case got of
        None \<Rightarrow> (mic_failed a, [], None)
      | Some tracks \<Rightarrow>
          let (d, es, res) = acquireTrack_end version tracks (ap_devices a); a1 = a\<lparr>ap_devices := d\<rparr> in
          case res of
            Inl err \<Rightarrow> (mic_failed a1, map ByDevices es, None)
          | Inr t \<Rightarrow>
              (case ap_webrtc a1 of
                 None \<Rightarrow> (finish_mute False a1, map ByDevices es, None)
               | Some s \<Rightarrow>
                   let (a2, fs) = publish has_sender s None (Some (to_track t)) a1
                   in (a2, map ByDevices es @ fs, Some t)))"

definition camera_given :: "(jsval \<Rightarrow> string \<Rightarrow> bool) \<Rightarrow> int \<Rightarrow> media_track list option \<Rightarrow> app \<Rightarrow>
    app \<times> app_call list \<times> media_track option" where
  "camera_given has_sender version got a =
     (case got of
        None \<Rightarrow> (cam_failed a, [], None)
      | Some tracks \<Rightarrow>
          let (d, es, res) = acquireTrack_end version tracks (ap_devices a); a1 = a\<lparr>ap_devices := d\<rparr> in
          case res of
            Inl err \<Rightarrow> (cam_failed a1, map ByDevices es, None)
          | Inr t \<Rightarrow>
              (case (ap_webrtc a1, dv_screenStream d) of
                 (Some s, None) \<Rightarrow>
                   let (a2, fs) = publish has_sender s None (Some (to_track t)) a1
                   in (a2, map ByDevices es @ fs, Some t)
               | _ \<Rightarrow> (finish_video True a1, map ByDevices es, None)))"

text \<open>\<open>replaceTrack\<close> resolves, on the session it was called on, or rejects.\<close>

definition replace_done :: "track option \<Rightarrow> track option \<Rightarrow> session \<Rightarrow> session" where
  "replace_done old new s = (if (old, new) \<in> set (rt_replacing s) then track_replaced s old new else s)"

definition replace_failed :: "track option \<Rightarrow> track option \<Rightarrow> session \<Rightarrow> session" where
  "replace_failed old new s = (if (old, new) \<in> set (rt_replacing s) then replace_rejected s old new else s)"

definition microphone_published :: "bool \<Rightarrow> media_track \<Rightarrow> app \<Rightarrow> app" where
  "microphone_published ok t a =
     (if ok then finish_mute False (a\<lparr>ap_webrtc := map_option (replace_done None (Some (to_track t))) (ap_webrtc a)\<rparr>)
      else mic_failed (a\<lparr>ap_webrtc := map_option (replace_failed None (Some (to_track t))) (ap_webrtc a)\<rparr>))"

definition camera_published :: "bool \<Rightarrow> media_track \<Rightarrow> app \<Rightarrow> app" where
  "camera_published ok t a =
     (if ok then finish_video True (a\<lparr>ap_webrtc := map_option (replace_done None (Some (to_track t))) (ap_webrtc a)\<rparr>)
      else cam_failed (a\<lparr>ap_webrtc := map_option (replace_failed None (Some (to_track t))) (ap_webrtc a)\<rparr>))"

text \<open>The listeners of the selectors, after the browser gave the track.\<close>

definition camera_selected :: "media_track \<Rightarrow> app \<Rightarrow> app \<times> app_call list" where
  "camera_selected t a =
     (let (d, es) = setCamera_end t (ap_devices a)
      in (a\<lparr>ap_devices := setVideoEnabled (ap_videoEnabled a) d\<rparr>, map ByDevices es))"

text \<open>The listener of the microphone selector ends early when the meter cannot be started: then the new
  microphone stays as the browser gave it, and \<open>setAudioMuted\<close> is not called.\<close>

definition microphone_selected :: "nat option \<Rightarrow> media_track \<Rightarrow> app \<Rightarrow> app \<times> app_call list \<times> bool" where
  "microphone_selected ctx t a =
     (let (d, es, returned) = setMicrophone_end ctx t (ap_devices a)
      in (a\<lparr>ap_devices := (if returned then setAudioMuted (ap_muted a) d else d)\<rparr>, map ByDevices es, returned))"

section \<open>The preview\<close>

text \<open>The branch of \<open>setupPreview\<close> for who joins as a viewer.\<close>

definition join_as_viewer :: "app \<Rightarrow> app \<times> app_call list" where
  "join_as_viewer a =
     (let (d, es) = stopLocalPreview (ap_devices a)
      in (with_ui (\<lambda>u. setCameraEnabled False (setMuted True u)) (a\<lparr>ap_devices := d, ap_muted := True, ap_videoEnabled := False\<rparr>),
          map ByDevices es))"

text \<open>\<open>setupPreview\<close> up to its first \<open>await\<close>: \<open>secure\<close> is whether the page may use media devices, and
  \<open>viewer\<close> whether to join without them. The version is that of the capture it waits for.\<close>

definition setupPreview :: "bool \<Rightarrow> bool \<Rightarrow> jstring \<Rightarrow> jstring \<Rightarrow> app \<Rightarrow> app \<times> app_call list \<times> int option" where
  "setupPreview secure viewer name roomId a =
     (if \<not> preview_room_ok roomId then (with_ui (showNotification (Str room_id_message) UI.Error) a, [], None)
      else if \<not> secure then
        (with_ui (showNotification (Str (js ''Use HTTPS (or localhost) to access the camera and microphone'')) UI.Error) a, [], None)
      else
        let a1 = with_ui (showView ''preview'') (a\<lparr>ap_displayName := name, ap_roomId := roomId\<rparr>) in
        if viewer then let (a2, es) = join_as_viewer a1 in (a2, es, None)
        else let (d, v) = getLocalStream_begin (ap_devices a1) in (a1\<lparr>ap_devices := d\<rparr>, [], Some v))"

text \<open>The capture settled; whether \<open>setupPreview\<close> goes on, which it does while the preview is shown.\<close>

definition preview_captured :: "int \<Rightarrow> media_track list option list \<Rightarrow> app \<Rightarrow> app \<times> app_call list \<times> bool" where
  "preview_captured version results a =
     (let (d, es) = getLocalStream_end version results (ap_devices a); a1 = a\<lparr>ap_devices := d\<rparr> in
      if ui_view (ap_ui a1) \<noteq> [''preview''] then (a1, map ByDevices es, False)
      else (finish_video (video_tracks a1 \<noteq> []) (finish_mute (audio_tracks a1 = []) a1), map ByDevices es, True))"

text \<open>The devices are known: the selectors are filled and the level meter starts, unless the browser has no
  audio context to give, which the last component tells.\<close>

definition update_audio :: "nat \<Rightarrow> app \<Rightarrow> app" where
  "update_audio frame a = a\<lparr>ap_devices := (ap_devices a)\<lparr>dv_animationFrameId := Some frame\<rparr>\<rparr>"

definition preview_ready :: "(nat \<Rightarrow> jstring) \<Rightarrow> nat option \<Rightarrow> nat \<Rightarrow> jsval list option \<Rightarrow> app \<Rightarrow> app \<times> app_call list \<times> bool" where
  "preview_ready ordinal ctx frame found a =
     (let (cameras, microphones) = enumerateDevices found;
          a1 = with_ui (populateDeviceSelectors ordinal cameras microphones) a;
          (d, es, returned) = startLocalPreview ctx (ap_devices a1); a2 = a1\<lparr>ap_devices := d\<rparr>
      in (if returned then update_audio frame a2 else a2, map ByDevices es, returned))"

text \<open>The button back to the lobby, and the one that joins without devices.\<close>

definition back_to_lobby :: "app \<Rightarrow> app \<times> app_call list" where
  "back_to_lobby a =
     (let (d, es) = stopLocalPreview (ap_devices a) in (with_ui (showView ''lobby'') (a\<lparr>ap_devices := d\<rparr>), map ByDevices es))"

definition join_without_devices :: "nat \<Rightarrow> app \<Rightarrow> app \<times> app_call list" where
  "join_without_devices n a =
     (let (d, es) = stopLocalPreview (ap_devices a); (b, fs) = onJoinRoom n (a\<lparr>ap_devices := d\<rparr>)
      in (b, map ByDevices es @ fs))"

section \<open>The screen\<close>

text \<open>Where the function stands: it is over, it threw, or it awaits a \<open>replaceTrack\<close>. The local camera
  stream is number 0, that of the screen number 1.\<close>

datatype sharing = Done | Threw | Replacing "track option" "track option"

definition stopScreenShare_begin :: "(jsval \<Rightarrow> string \<Rightarrow> bool) \<Rightarrow> app \<Rightarrow> app \<times> app_call list \<times> sharing" where
  "stopScreenShare_begin has_sender a =
     (case map_option (of_kind ''video'') (dv_screenStream (ap_devices a)) of
        Some (screenTrack # ts) \<Rightarrow>
          (case ap_webrtc a of
             None \<Rightarrow> (a, [], Threw)
           | Some s \<Rightarrow>
               let old = Some (to_track screenTrack);
                   new = (case video_tracks a of t # us \<Rightarrow> Some (to_track t) | [] \<Rightarrow> None);
                   (b, es) = publish has_sender s old new a
               in (b, es, Replacing old new))
      | _ \<Rightarrow> (a, [], Done))"

definition stopScreenShare_end :: "track option \<Rightarrow> track option \<Rightarrow> app \<Rightarrow> app \<times> app_call list" where
  "stopScreenShare_end old new a =
     (let (d, es) = stopScreenShare (ap_devices a)
      in (with_ui (updateVideoTile (Str (js ''local'')) (Some 0))
            (a\<lparr>ap_devices := d, ap_webrtc := map_option (replace_done old new) (ap_webrtc a)\<rparr>), map ByDevices es))"

text \<open>\<open>toggleScreenShare\<close>: \<open>None\<close> where it asks the browser for the screen.\<close>

definition share_failed :: "jsval \<Rightarrow> app \<Rightarrow> app" where
  "share_failed message = with_ui (showNotification message UI.Error)"

definition toggleScreenShare :: "jsval \<Rightarrow> (jsval \<Rightarrow> string \<Rightarrow> bool) \<Rightarrow> app \<Rightarrow> (app \<times> app_call list \<times> sharing) option" where
  "toggleScreenShare message has_sender a =
     (if dv_screenStream (ap_devices a) = None then None
      else Some (case stopScreenShare_begin has_sender a of
          (b, es, Threw) \<Rightarrow> (share_failed message b, es, Threw)
        | r \<Rightarrow> r))"

definition screen_given :: "jsval \<Rightarrow> (jsval \<Rightarrow> string \<Rightarrow> bool) \<Rightarrow> media_track list option \<Rightarrow> app \<Rightarrow>
    app \<times> app_call list \<times> sharing" where
  "screen_given message has_sender got a =
     (let a1 = a\<lparr>ap_devices := startScreenShare_end got (ap_devices a)\<rparr> in
      case got of
        None \<Rightarrow> (a1, [], Done)
      | Some st \<Rightarrow>
          (case ap_webrtc a1 of
             None \<Rightarrow> (share_failed message a1, [], Threw)
           | Some s \<Rightarrow>
               let first = (\<lambda>ts. case ts of t # us \<Rightarrow> Some (to_track t) | [] \<Rightarrow> None);
                   old = first (video_tracks a1); new = first (of_kind ''video'' st);
                   (b, es) = publish has_sender s old new a1
               in (b, es, Replacing old new)))"

text \<open>The handler of the track's \<open>ended\<close> event: the user ended the sharing in the browser.\<close>

definition screen_ended :: "jsval \<Rightarrow> (jsval \<Rightarrow> string \<Rightarrow> bool) \<Rightarrow> app \<Rightarrow> app \<times> app_call list \<times> sharing" where
  "screen_ended message has_sender a =
     (case stopScreenShare_begin has_sender a of
        (b, es, Threw) \<Rightarrow> (share_failed message b, es, Threw)
      | r \<Rightarrow> r)"

definition share_rejected :: "jsval \<Rightarrow> track option \<Rightarrow> track option \<Rightarrow> app \<Rightarrow> app" where
  "share_rejected message old new a = share_failed message (a\<lparr>ap_webrtc := map_option (replace_failed old new) (ap_webrtc a)\<rparr>)"

definition screen_published :: "track option \<Rightarrow> track option \<Rightarrow> app \<Rightarrow> app" where
  "screen_published old new a = with_ui (updateVideoTile (Str (js ''local'')) (Some 1))
     (a\<lparr>ap_webrtc := map_option (replace_done old new) (ap_webrtc a)\<rparr>)"

section \<open>Recording\<close>

text \<open>When no recorder can be made, the exception leaves the function and the button stays as it is.\<close>

definition toggleRecording :: "recorder_support \<Rightarrow> app \<Rightarrow> app \<times> app_call list" where
  "toggleRecording support a =
     (if ap_recording a then
        let (d, es) = stopRecording (ap_devices a)
        in (with_ui (setRecording False) (a\<lparr>ap_devices := d, ap_recording := False\<rparr>), map ByDevices es)
      else if dv_localStream (ap_devices a) = [] then
        (with_ui (showNotification (Str (js ''No local media to record. Enable a camera or microphone first.'')) Info) a, [])
      else
        let (d, es, started) = startRecording support (ap_devices a)
        in if started then
             (with_ui (\<lambda>u. showNotification (Str (js ''Recording started'')) Info (setRecording True u))
                (a\<lparr>ap_devices := d, ap_recording := True\<rparr>), map ByDevices es)
           else (a\<lparr>ap_devices := d\<rparr>, map ByDevices es))"

section \<open>Remote media\<close>

text \<open>\<open>onRemoteTrack\<close>, where \<open>stream\<close> is the number of the peer's stream, and \<open>onError\<close>.\<close>

definition onRemoteTrack :: "nat \<Rightarrow> jsval \<Rightarrow> app \<Rightarrow> app" where
  "onRemoteTrack stream i a = with_ui
     (\<lambda>u. if tile_of u i = None then
        createVideoTile i (js_or (case getParticipant (ap_room a) i of Some p \<Rightarrow> get_prop p (js ''displayName'') | None \<Rightarrow> Undefined)
          (Str (js ''Participant''))) (Some stream) False u
      else updateVideoTile i (Some stream) u) a"

definition session_error :: "jsval \<Rightarrow> app \<Rightarrow> app" where
  "session_error message = with_ui (showNotification message UI.Error)"

section \<open>Events of the socket and its timers\<close>

text \<open>The client's state changes, a promise may settle with it, and then the continuation of
  \<open>onJoinRoom\<close> runs.\<close>

definition app_settles :: "jstring \<Rightarrow> (signal_listener client \<Rightarrow> signal_listener client) \<Rightarrow> app \<Rightarrow> app \<times> app_call list" where
  "app_settles j f a =
     (case ap_signaling a of None \<Rightarrow> (a, []) | Some c \<Rightarrow> settle_join j (a\<lparr>ap_signaling := Some (f c)\<rparr>))"

definition app_opened :: "jstring \<Rightarrow> nat \<Rightarrow> app \<Rightarrow> app \<times> app_call list" where
  "app_opened j n = app_settles j (onopen n)"

definition app_errored :: "jstring \<Rightarrow> nat \<Rightarrow> app \<Rightarrow> app \<times> app_call list" where
  "app_errored j n = app_settles j (onerror n)"

definition app_connect_timeout :: "jstring \<Rightarrow> nat \<Rightarrow> app \<Rightarrow> app \<times> app_call list" where
  "app_connect_timeout j n = app_settles j (connect_timeout n)"

definition app_request_timeout :: "jstring \<Rightarrow> jstring \<Rightarrow> app \<Rightarrow> app \<times> app_call list" where
  "app_request_timeout j i = app_settles j (request_timeout i)"

section \<open>What the session calls\<close>

text \<open>\<open>signaling.send\<close> on a socket that is not open throws and sends nothing; a track and an error go to
  the callbacks \<open>onJoinRoom\<close> put on the session, where \<open>stream_no\<close> numbers the streams of the peers and
  \<open>message\<close> reads an error; all other calls go to the browser.\<close>

fun run_call :: "(jsval \<Rightarrow> nat) \<Rightarrow> (failure \<Rightarrow> jsval) \<Rightarrow> call \<Rightarrow> app \<Rightarrow> app \<times> app_call list" where
  "run_call stream_no message (Signal typ payload) a =
     (case ap_signaling a of
        None \<Rightarrow> (a, [])
      | Some c \<Rightarrow> (case client_send c (js typ) payload Undefined of Inl err \<Rightarrow> (a, []) | Inr outs \<Rightarrow> (a, map ByClient outs)))"
| "run_call stream_no message (RemoteTrack i t) a = (onRemoteTrack (stream_no i) i a, [])"
| "run_call stream_no message (ReportError err) a = (session_error (message err) a, [])"
| "run_call stream_no message e a = (a, [BySession e])"

fun run_calls :: "(jsval \<Rightarrow> nat) \<Rightarrow> (failure \<Rightarrow> jsval) \<Rightarrow> call list \<Rightarrow> app \<Rightarrow> app \<times> app_call list" where
  "run_calls stream_no message [] a = (a, [])"
| "run_calls stream_no message (e # es) a =
     (let (b, out) = run_call stream_no message e a; (c, outs) = run_calls stream_no message es b in (c, out @ outs))"

end
