(* ===== verification/MediaProperties.thy ===== *)
theory MediaProperties
  imports MediaControls
begin

text \<open>
  The page's controls as a state machine, and its invariant: the buttons show what the local tracks
  do. Then what leaving releases, and the ways in which the buttons and the joining go wrong.
\<close>

section \<open>The controls as a machine\<close>

text \<open>The page, the captures of the preview under way, the tracks whose publication is awaited, the
  replacements awaited by who shares the screen and by who stops, the screen tracks with an
  \<open>ended\<close> handler, whether the publication of a microphone or the meter of a chosen microphone has ever
  failed, and whether the publication of a camera has.\<close>

record controls =
  ct_app :: app
  ct_captures :: "int list"
  ct_mic :: "media_track list"
  ct_cam :: "media_track list"
  ct_sharing :: "(track option \<times> track option) list"
  ct_unsharing :: "(track option \<times> track option) list"
  ct_onended :: "track list"
  ct_lostMic :: bool
  ct_lostCam :: bool

datatype control_event =
    MuteClick
  | MicGiven int "media_track list option"
  | MicPublished media_track
  | MicRejected media_track
  | VideoClick
  | CamGiven int "media_track list option"
  | CamPublished media_track
  | CamRejected media_track
  | CameraPicked media_track
  | MicPicked "nat option" media_track
  | PreviewOpened bool bool jstring jstring
  | Captured int "media_track list option list"
  | BackClick
  | JoinClick nat
  | JoinBare nat
  | RecordClick
  | ScreenClick
  | ScreenGiven "media_track list option"
  | ScreenPublished "track option" "track option"
  | ScreenTaken "track option" "track option"
  | SharingRejected "track option" "track option"
  | UnsharingRejected "track option" "track option"
  | ScreenEnded track
  | FrameIn jstring jsval
  | SocketClosed jstring nat
  | SocketOpened jstring nat
  | SocketErred jstring nat
  | DialTimedOut jstring nat
  | AskTimedOut jstring jstring
  | EarlierJoin nat
  | SessionMoved session_event "call list"
  | PreviewShown "jsval list option"
  | MeterFrame nat
  | LeaveClick

text \<open>What the browser gives for a request of one kind are tracks of that kind.\<close>

definition tracks_of :: "string \<Rightarrow> media_track list option \<Rightarrow> bool" where
  "tracks_of kind got \<longleftrightarrow> (case got of None \<Rightarrow> True | Some ts \<Rightarrow> list_all (\<lambda>t. mt_kind t = kind) ts)"

definition on_app :: "(app \<Rightarrow> app) \<Rightarrow> controls \<Rightarrow> controls" where
  "on_app f c = c\<lparr>ct_app := f (ct_app c)\<rparr>"

text \<open>The screen's track loses its handler when the sharing is being stopped, whether or not it gets far.\<close>

definition screen_track :: "app \<Rightarrow> track option" where
  "screen_track a = (case map_option (of_kind ''video'') (dv_screenStream (ap_devices a)) of
     Some (t # ts) \<Rightarrow> Some (to_track t) | _ \<Rightarrow> None)"

fun awaiting :: "sharing \<Rightarrow> (track option \<times> track option) list \<Rightarrow> (track option \<times> track option) list" where
  "awaiting (Replacing old new) xs = (old, new) # xs"
| "awaiting r xs = xs"

definition unhandled :: "app \<Rightarrow> track list \<Rightarrow> track list" where
  "unhandled a ts = filter (\<lambda>t. screen_track a \<noteq> Some t) ts"

inductive control_step :: "controls \<Rightarrow> control_event \<Rightarrow> controls \<Rightarrow> bool" where
  mute_click: "control_step c MuteClick (on_app (fst \<circ> toggleMute) c)"
| mic_given: "tracks_of ''audio'' got \<Longrightarrow> microphone_given has_sender v got (ct_app c) = (a, es, p) \<Longrightarrow>
    control_step c (MicGiven v got) (c\<lparr>ct_app := a, ct_mic := (case p of None \<Rightarrow> ct_mic c | Some t \<Rightarrow> t # ct_mic c)\<rparr>)"
| mic_published: "t \<in> set (ct_mic c) \<Longrightarrow>
    control_step c (MicPublished t) (c\<lparr>ct_app := microphone_published True t (ct_app c), ct_mic := remove1 t (ct_mic c)\<rparr>)"
| mic_rejected: "t \<in> set (ct_mic c) \<Longrightarrow>
    control_step c (MicRejected t) (c\<lparr>ct_app := microphone_published False t (ct_app c), ct_mic := remove1 t (ct_mic c), ct_lostMic := True\<rparr>)"
| video_click: "control_step c VideoClick (on_app (fst \<circ> toggleVideo) c)"
| cam_given: "tracks_of ''video'' got \<Longrightarrow> camera_given has_sender v got (ct_app c) = (a, es, p) \<Longrightarrow>
    control_step c (CamGiven v got) (c\<lparr>ct_app := a, ct_cam := (case p of None \<Rightarrow> ct_cam c | Some t \<Rightarrow> t # ct_cam c)\<rparr>)"
| cam_published: "t \<in> set (ct_cam c) \<Longrightarrow>
    control_step c (CamPublished t) (c\<lparr>ct_app := camera_published True t (ct_app c), ct_cam := remove1 t (ct_cam c)\<rparr>)"
| cam_rejected: "t \<in> set (ct_cam c) \<Longrightarrow>
    control_step c (CamRejected t) (c\<lparr>ct_app := camera_published False t (ct_app c), ct_cam := remove1 t (ct_cam c), ct_lostCam := True\<rparr>)"
| camera_picked: "mt_kind t = ''video'' \<Longrightarrow> control_step c (CameraPicked t) (on_app (fst \<circ> camera_selected t) c)"
| mic_picked: "mt_kind t = ''audio'' \<Longrightarrow> microphone_selected ctx t (ct_app c) = (a, es, returned) \<Longrightarrow>
    control_step c (MicPicked ctx t) (c\<lparr>ct_app := a, ct_lostMic := (ct_lostMic c \<or> \<not> returned)\<rparr>)"
| preview_opened: "setupPreview secure viewer name roomId (ct_app c) = (a, es, v) \<Longrightarrow>
    control_step c (PreviewOpened secure viewer name roomId)
      (c\<lparr>ct_app := a, ct_captures := (case v of None \<Rightarrow> ct_captures c | Some v \<Rightarrow> v # ct_captures c)\<rparr>)"
| captured: "v \<in> set (ct_captures c) \<Longrightarrow>
    control_step c (Captured v results) (c\<lparr>ct_app := fst (preview_captured v results (ct_app c)), ct_captures := remove1 v (ct_captures c)\<rparr>)"
| back_click: "control_step c BackClick (on_app (fst \<circ> back_to_lobby) c)"
| join_click: "control_step c (JoinClick n) (on_app (fst \<circ> onJoinRoom n) c)"
| join_bare: "control_step c (JoinBare n) (on_app (fst \<circ> join_without_devices n) c)"
| record_click: "control_step c RecordClick (on_app (fst \<circ> toggleRecording support) c)"
| screen_click: "toggleScreenShare message has_sender (ct_app c) = Some (a, es, r) \<Longrightarrow>
    control_step c ScreenClick (c\<lparr>ct_app := a, ct_unsharing := awaiting r (ct_unsharing c), ct_onended := unhandled (ct_app c) (ct_onended c)\<rparr>)"
| screen_given: "screen_given message has_sender got (ct_app c) = (a, es, r) \<Longrightarrow>
    control_step c (ScreenGiven got) (c\<lparr>ct_app := a, ct_sharing := awaiting r (ct_sharing c)\<rparr>)"
| screen_published: "(old, new) \<in> set (ct_sharing c) \<Longrightarrow>
    control_step c (ScreenPublished old new) (c\<lparr>ct_app := screen_published old new (ct_app c), ct_sharing := remove1 (old, new) (ct_sharing c),
      ct_onended := (case new of None \<Rightarrow> ct_onended c | Some t \<Rightarrow> t # ct_onended c)\<rparr>)"
| screen_taken: "(old, new) \<in> set (ct_unsharing c) \<Longrightarrow>
    control_step c (ScreenTaken old new) (c\<lparr>ct_app := fst (stopScreenShare_end old new (ct_app c)),
      ct_unsharing := remove1 (old, new) (ct_unsharing c)\<rparr>)"
| sharing_rejected: "(old, new) \<in> set (ct_sharing c) \<Longrightarrow>
    control_step c (SharingRejected old new) (c\<lparr>ct_app := share_rejected message old new (ct_app c), ct_sharing := remove1 (old, new) (ct_sharing c)\<rparr>)"
| unsharing_rejected: "(old, new) \<in> set (ct_unsharing c) \<Longrightarrow>
    control_step c (UnsharingRejected old new) (c\<lparr>ct_app := share_rejected message old new (ct_app c), ct_unsharing := remove1 (old, new) (ct_unsharing c)\<rparr>)"
| screen_ended: "t \<in> set (ct_onended c) \<Longrightarrow> screen_ended message has_sender (ct_app c) = (a, es, r) \<Longrightarrow>
    control_step c (ScreenEnded t) (c\<lparr>ct_app := a, ct_unsharing := awaiting r (ct_unsharing c), ct_onended := unhandled (ct_app c) (ct_onended c)\<rparr>)"
| frame_in: "control_step c (FrameIn j m) (on_app (fst \<circ> app_frame j m) c)"
| socket_closed: "control_step c (SocketClosed j n) (on_app (fst \<circ> app_closed j n) c)"
| socket_opened: "control_step c (SocketOpened j n) (on_app (fst \<circ> app_opened j n) c)"
| socket_erred: "control_step c (SocketErred j n) (on_app (fst \<circ> app_errored j n) c)"
| dial_timed_out: "control_step c (DialTimedOut j n) (on_app (fst \<circ> app_connect_timeout j n) c)"
| ask_timed_out: "control_step c (AskTimedOut j i) (on_app (fst \<circ> app_request_timeout j i) c)"
| earlier_join: "f \<in> {fst \<circ> onclose n, onerror n, connect_timeout n, request_timeout i} \<Longrightarrow>
    control_step c (EarlierJoin k) (on_app (fst \<circ> app_earlier k f) c)"
| session_moved: "ap_webrtc (ct_app c) = Some s \<Longrightarrow> session_step s (ev, cs) t \<Longrightarrow>
    control_step c (SessionMoved ev cs) (on_app (\<lambda>a. fst (run_calls stream_no message cs (a\<lparr>ap_webrtc := Some t\<rparr>))) c)"
| preview_shown: "control_step c (PreviewShown found) (on_app (fst \<circ> preview_ready ordinal ctx frame found) c)"
| meter_frame: "control_step c (MeterFrame f) (on_app (update_audio f) c)"
| leave_click: "control_step c LeaveClick (on_app (fst \<circ> leaveRoom) c)"

definition initial_controls :: controls where
  "initial_controls = \<lparr>ct_app = init_app, ct_captures = [], ct_mic = [], ct_cam = [],
     ct_sharing = [], ct_unsharing = [], ct_onended = [],
     ct_lostMic = False, ct_lostCam = False\<rparr>"

definition controls_reachable :: "controls \<Rightarrow> bool" where
  "controls_reachable = reachable (\<lambda>c. c = initial_controls) control_step"

section \<open>The invariant\<close>

definition uniform :: "string \<Rightarrow> bool \<Rightarrow> devices \<Rightarrow> bool" where
  "uniform kind on d \<longleftrightarrow> list_all (\<lambda>t. mt_kind t = kind \<longrightarrow> mt_enabled t = on) (dv_localStream d)"

text \<open>The buttons show the flags of the module.\<close>

definition buttons_ok :: "app \<Rightarrow> bool" where
  "buttons_ok a \<longleftrightarrow> bt_pressed (ui_mic (ap_ui a)) = ap_muted a \<and>
     bt_pressed (ui_cam (ap_ui a)) = (\<not> ap_videoEnabled a) \<and> bt_pressed (ui_record (ap_ui a)) = ap_recording a"

text \<open>A capture that is not stale belongs to the preview that is shown.\<close>

definition captures_ok :: "int list \<Rightarrow> app \<Rightarrow> bool" where
  "captures_ok vs a \<longleftrightarrow> (\<forall>v \<in> set vs. v \<le> dv_captureVersion (ap_devices a) \<and>
     (v = dv_captureVersion (ap_devices a) \<longrightarrow> ui_view (ap_ui a) = [''preview'']))"

definition app_ok :: "bool \<Rightarrow> bool \<Rightarrow> int list \<Rightarrow> app \<Rightarrow> bool" where
  "app_ok mic cam vs a \<longleftrightarrow> buttons_ok a \<and> captures_ok vs a \<and>
     (mic \<longrightarrow> uniform ''audio'' (\<not> ap_muted a) (ap_devices a)) \<and> (cam \<longrightarrow> uniform ''video'' (ap_videoEnabled a) (ap_devices a))"

definition controls_ok :: "controls \<Rightarrow> bool" where
  "controls_ok c \<longleftrightarrow> app_ok (ct_mic c = [] \<and> \<not> ct_lostMic c) (ct_cam c = [] \<and> \<not> ct_lostCam c) (ct_captures c) (ct_app c)"

lemmas app_ok_parts = app_ok_def buttons_ok_def captures_ok_def

text \<open>The part of the page the invariant speaks of; what leaves it alone keeps the invariant.\<close>

definition same_controls :: "app \<Rightarrow> app \<Rightarrow> bool" where
  "same_controls a b \<longleftrightarrow> ui_mic (ap_ui b) = ui_mic (ap_ui a) \<and> ui_cam (ap_ui b) = ui_cam (ap_ui a) \<and>
     ui_record (ap_ui b) = ui_record (ap_ui a) \<and> ui_view (ap_ui b) = ui_view (ap_ui a) \<and> ap_muted b = ap_muted a \<and>
     ap_videoEnabled b = ap_videoEnabled a \<and> ap_recording b = ap_recording a \<and> ap_devices b = ap_devices a"

lemma same_controls_ok: "same_controls a b \<Longrightarrow> app_ok m k vs b = app_ok m k vs a"
  unfolding same_controls_def app_ok_def buttons_ok_def captures_ok_def by (elim conjE) (simp only:)

lemma same_controls_refl [simp]: "same_controls a a"
  by (simp add: same_controls_def)

lemma same_controls_trans: "same_controls a b \<Longrightarrow> same_controls b c \<Longrightarrow> same_controls a c"
  by (simp add: same_controls_def)

lemma same_controls_fields [simp]:
  "same_controls a (a\<lparr>ap_signaling := c\<rparr>)" "same_controls a (a\<lparr>ap_webrtc := w\<rparr>)" "same_controls a (a\<lparr>ap_room := r\<rparr>)"
  "same_controls a (a\<lparr>ap_await := j\<rparr>)" "same_controls a (with_ui (showNotification x k) a)"
  "same_controls a (with_ui (appendMessage x) a)" "same_controls a (a\<lparr>ap_earlier := es\<rparr>)"
  by (simp_all add: same_controls_def with_ui_def showNotification_def appendMessage_def)

lemma uniform_enable: "uniform kind on (enable_kind kind on d)"
  by (simp add: uniform_def enable_kind_def list.pred_map comp_def) (simp add: list_all_iff)

lemma uniform_enable_other: "kind' \<noteq> kind \<Longrightarrow> uniform kind' x (enable_kind kind on d) = uniform kind' x d"
  by (simp add: uniform_def enable_kind_def list.pred_map comp_def) (rule list.pred_cong, auto)

lemma enable_kind_fields [simp]: "dv_captureVersion (enable_kind kind on d) = dv_captureVersion d"
  by (simp add: enable_kind_def)

lemma uniform_cong: "dv_localStream d = dv_localStream e \<Longrightarrow> uniform kind on d = uniform kind on e"
  by (simp add: uniform_def)

lemma uniform_empty: "dv_localStream d = [] \<Longrightarrow> uniform kind on d"
  by (simp add: uniform_def)

text \<open>The last lines of the toggles establish it for their kind and keep the rest.\<close>

lemma finish_mute_fields [simp]:
  "ap_devices (finish_mute x a) = setAudioMuted x (ap_devices a)" "ap_muted (finish_mute x a) = x"
  "ap_videoEnabled (finish_mute x a) = ap_videoEnabled a" "ap_recording (finish_mute x a) = ap_recording a"
  "bt_pressed (ui_mic (ap_ui (finish_mute x a))) = x" "ui_cam (ap_ui (finish_mute x a)) = ui_cam (ap_ui a)"
  "ui_record (ap_ui (finish_mute x a)) = ui_record (ap_ui a)" "ui_view (ap_ui (finish_mute x a)) = ui_view (ap_ui a)"
  by (simp_all add: finish_mute_def with_ui_def setMuted_def)

lemma finish_video_fields [simp]:
  "ap_devices (finish_video x a) = setVideoEnabled x (ap_devices a)" "ap_videoEnabled (finish_video x a) = x"
  "ap_muted (finish_video x a) = ap_muted a" "ap_recording (finish_video x a) = ap_recording a"
  "bt_pressed (ui_cam (ap_ui (finish_video x a))) = (\<not> x)" "ui_mic (ap_ui (finish_video x a)) = ui_mic (ap_ui a)"
  "ui_record (ap_ui (finish_video x a)) = ui_record (ap_ui a)" "ui_view (ap_ui (finish_video x a)) = ui_view (ap_ui a)"
  by (simp_all add: finish_video_def with_ui_def setCameraEnabled_def)

lemma finish_mute_ok: "app_ok m k vs a \<Longrightarrow> app_ok m' k vs (finish_mute x a)"
  unfolding app_ok_def buttons_ok_def captures_ok_def
  by (simp add: setAudioMuted_def uniform_enable uniform_enable_other)

lemma finish_video_ok: "app_ok m k vs a \<Longrightarrow> app_ok m k' vs (finish_video x a)"
  unfolding app_ok_def buttons_ok_def captures_ok_def
  by (simp add: setVideoEnabled_def uniform_enable uniform_enable_other)

lemma failed_ok: "same_controls a (mic_failed a)" "same_controls a (cam_failed a)"
  by (simp_all add: mic_failed_def cam_failed_def)

section \<open>Preservation\<close>

text \<open>A stop of the preview empties the stream and makes every capture stale; so does joining, which
  keeps the tracks.\<close>

lemma stopLocalPreview_fields [simp]:
  "dv_localStream (fst (stopLocalPreview d)) = []" "dv_captureVersion (fst (stopLocalPreview d)) = dv_captureVersion d + 1"
  "dv_screenStream (fst (stopLocalPreview d)) = dv_screenStream d" "dv_recorder (fst (stopLocalPreview d)) = dv_recorder d"
  by (simp_all add: stopLocalPreview_def cancelPendingCapture_def Let_def)

lemma stop_fields [simp]:
  "dv_localStream (fst (stopScreenShare d)) = dv_localStream d" "dv_captureVersion (fst (stopScreenShare d)) = dv_captureVersion d"
  "dv_localStream (fst (stopRecording d)) = dv_localStream d" "dv_captureVersion (fst (stopRecording d)) = dv_captureVersion d"
  by (simp_all add: stopScreenShare_def stopRecording_def split: option.split)

lemma captures_later: "captures_ok vs a \<Longrightarrow> dv_captureVersion (ap_devices b) = dv_captureVersion (ap_devices a) + 1 \<Longrightarrow> captures_ok vs b"
  by (fastforce simp: captures_ok_def)

lemma leaveRoom_ui:
  "bt_pressed (ui_mic (ap_ui (fst (leaveRoom a)))) = False" "bt_pressed (ui_cam (ap_ui (fst (leaveRoom a)))) = False"
  "bt_pressed (ui_record (ap_ui (fst (leaveRoom a)))) = False" "ui_view (ap_ui (fst (leaveRoom a))) = [''lobby'']"
  "ap_muted (fst (leaveRoom a)) = False" "ap_videoEnabled (fst (leaveRoom a)) = True" "ap_recording (fst (leaveRoom a)) = False"
  by (simp_all add: leaveRoom_def Let_def split_beta setRecording_def setCameraEnabled_def setMuted_def showView_def)

lemma leaveRoom_devices:
  "ap_devices (fst (leaveRoom a)) = fst (stopRecording (fst (stopScreenShare (fst (stopLocalPreview (ap_devices a))))))"
  by (simp add: leaveRoom_def Let_def split_beta)

lemma leaveRoom_ok:
  assumes "captures_ok vs a"
  shows "app_ok m k vs (fst (leaveRoom a))"
proof -
  have "captures_ok vs (fst (leaveRoom a))" by (rule captures_later [OF assms]) (simp add: leaveRoom_devices)
  then show ?thesis
    unfolding app_ok_def buttons_ok_def by (simp add: leaveRoom_ui leaveRoom_devices uniform_def)
qed

lemma onJoinRoom_ok:
  assumes "app_ok m k vs a"
  shows "app_ok m k vs (fst (onJoinRoom n a))"
proof -
  let ?b = "fst (onJoinRoom n a)" let ?xs = "dv_localStream (ap_devices a)"
  have dev: "ap_devices ?b = cancelPendingCapture (ap_devices a)" "dv_localStream (cancelPendingCapture (ap_devices a)) = ?xs"
    and flags: "ap_muted ?b = (\<not> list_ex mt_enabled (of_kind ''audio'' ?xs))" "ap_videoEnabled ?b = list_ex mt_enabled (of_kind ''video'' ?xs)"
      "ap_recording ?b = ap_recording a"
    and ui: "bt_pressed (ui_mic (ap_ui ?b)) = ap_muted ?b" "bt_pressed (ui_cam (ap_ui ?b)) = (\<not> ap_videoEnabled ?b)"
      "ui_record (ap_ui ?b) = ui_record (ap_ui a)"
    by (simp_all add: onJoinRoom_def Let_def createVideoTile_def showView_def setCameraEnabled_def setMuted_def cancelPendingCapture_def)
  have all: "uniform kind (list_ex mt_enabled (of_kind kind ?xs)) (ap_devices a)" if "uniform kind on (ap_devices a)" for kind on
    using that unfolding uniform_def of_kind_def by (cases on) (auto simp: list_all_iff list_ex_iff)
  have "captures_ok vs ?b"
    by (rule captures_later [of vs a]) (use assms in \<open>simp_all add: app_ok_def dev cancelPendingCapture_def\<close>)
  moreover have "uniform kind on (cancelPendingCapture (ap_devices a)) = uniform kind on (ap_devices a)" for kind on
    by (rule uniform_cong) (rule dev(2))
  ultimately show ?thesis
    using assms all unfolding app_ok_def buttons_ok_def by (auto simp: dev(1) flags(1,2,3) ui)
qed

lemma add_media_uniform: "mt_kind t \<noteq> kind \<Longrightarrow> uniform kind on (d\<lparr>dv_localStream := add_media t (dv_localStream d)\<rparr>) = uniform kind on d"
  by (auto simp: uniform_def add_media_def)

lemma acquire_uniform:
  assumes "acquireTrack_end v ts d = (d', es, r)" and "list_all (\<lambda>t. mt_kind t = kind) ts"
  shows "kind' \<noteq> kind \<Longrightarrow> uniform kind' on d' = uniform kind' on d" and "dv_captureVersion d' = dv_captureVersion d"
    and "r = Inl err \<Longrightarrow> d' = d"
  using assms by (auto simp: acquireTrack_end_def add_media_uniform split: if_splits list.splits)

lemma app_ok_weaken: "app_ok m k vs a \<Longrightarrow> (m' \<Longrightarrow> m) \<Longrightarrow> (k' \<Longrightarrow> k) \<Longrightarrow> set vs' \<subseteq> set vs \<Longrightarrow> app_ok m' k' vs' a"
  by (auto simp: app_ok_def captures_ok_def)

text \<open>Replacing the devices and the session of a page.\<close>

lemma app_ok_devices:
  assumes "app_ok m k vs a" and "dv_captureVersion d = dv_captureVersion (ap_devices a)"
    and "m' \<Longrightarrow> uniform ''audio'' (\<not> ap_muted a) d" and "k' \<Longrightarrow> uniform ''video'' (ap_videoEnabled a) d"
  shows "app_ok m' k' vs (a\<lparr>ap_devices := d\<rparr>)"
  using assms unfolding app_ok_def buttons_ok_def captures_ok_def by simp

lemma publish_same: "publish has_sender s old new a = (b, es) \<Longrightarrow> same_controls a b"
  by (auto simp: publish_def split: prod.splits)

lemma microphone_given_ok:
  assumes "app_ok m k vs a" and "tracks_of ''audio'' got" and "microphone_given has_sender v got a = (b, es, p)"
  shows "app_ok (p = None \<and> m) k vs b"
proof (cases got)
  case None
  with assms same_controls_ok [OF failed_ok(1)] show ?thesis by (auto simp: microphone_given_def)
next
  case (Some ts)
  obtain d fs r where acq: "acquireTrack_end v ts (ap_devices a) = (d, fs, r)" by (cases "acquireTrack_end v ts (ap_devices a)")
  have "list_all (\<lambda>t. mt_kind t = ''audio'') ts" using assms(2) Some by (simp add: tracks_of_def)
  note props = acquire_uniform [OF acq this]
  let ?a = "a\<lparr>ap_devices := d\<rparr>"
  have base: "app_ok False k vs ?a"
    by (rule app_ok_devices [OF assms(1) props(2)]) (use assms(1) props(1) in \<open>simp_all add: app_ok_def\<close>)
  show ?thesis
  proof (cases r)
    case (Inl err)
    with props(3) have "?a = a" by simp
    with assms(1,3) Some acq Inl same_controls_ok [OF failed_ok(1), of m k vs a] show ?thesis
      by (auto simp: microphone_given_def intro: app_ok_weaken)
  next
    case (Inr t)
    have "app_ok False k vs c" if "publish has_sender se None (Some (to_track t)) ?a = (c, fs')" for se c fs'
      using base same_controls_ok [OF publish_same [OF that]] by simp
    with assms(3) Some acq Inr base show ?thesis
      by (auto simp: microphone_given_def Let_def split: option.splits prod.splits intro: finish_mute_ok)
  qed
qed

lemma camera_given_ok:
  assumes "app_ok m k vs a" and "tracks_of ''video'' got" and "camera_given has_sender v got a = (b, es, p)"
  shows "app_ok m (p = None \<and> k) vs b"
proof (cases got)
  case None
  with assms same_controls_ok [OF failed_ok(2)] show ?thesis by (auto simp: camera_given_def)
next
  case (Some ts)
  obtain d fs r where acq: "acquireTrack_end v ts (ap_devices a) = (d, fs, r)" by (cases "acquireTrack_end v ts (ap_devices a)")
  have "list_all (\<lambda>t. mt_kind t = ''video'') ts" using assms(2) Some by (simp add: tracks_of_def)
  note props = acquire_uniform [OF acq this]
  let ?a = "a\<lparr>ap_devices := d\<rparr>"
  have base: "app_ok m False vs ?a"
    by (rule app_ok_devices [OF assms(1) props(2)]) (use assms(1) props(1) in \<open>simp_all add: app_ok_def\<close>)
  show ?thesis
  proof (cases r)
    case (Inl err)
    with props(3) have "?a = a" by simp
    with assms(1,3) Some acq Inl same_controls_ok [OF failed_ok(2), of m k vs a] show ?thesis
      by (auto simp: camera_given_def intro: app_ok_weaken)
  next
    case (Inr t)
    have "app_ok m False vs c" if "publish has_sender se None (Some (to_track t)) ?a = (c, fs')" for se c fs'
      using base same_controls_ok [OF publish_same [OF that]] by simp
    with assms(3) Some acq Inr base show ?thesis
      by (auto simp: camera_given_def Let_def split: option.splits prod.splits intro: finish_video_ok)
  qed
qed

lemma published_ok:
  "app_ok m k vs a \<Longrightarrow> app_ok m' k vs (microphone_published True t a)"
  "app_ok m k vs a \<Longrightarrow> app_ok m k' vs (camera_published True t a)"
  unfolding microphone_published_def camera_published_def if_True
  by (rule finish_mute_ok [where m = m] finish_video_ok [where k = k]; simp add: same_controls_ok [OF same_controls_fields(2)])+

text \<open>A rejection only shows a notice.\<close>

lemma rejected_same:
  "same_controls a (microphone_published False t a)" "same_controls a (camera_published False t a)" "same_controls a (share_rejected message old new a)"
  unfolding microphone_published_def camera_published_def share_rejected_def share_failed_def
  by (simp_all add: same_controls_trans [OF same_controls_fields(2) failed_ok(1)] same_controls_trans [OF same_controls_fields(2) failed_ok(2)]
      same_controls_trans [OF same_controls_fields(2) same_controls_fields(5)])

lemma rejected_ok: "app_ok m k vs a \<Longrightarrow> same_controls a b \<Longrightarrow> (m' \<Longrightarrow> m) \<Longrightarrow> (k' \<Longrightarrow> k) \<Longrightarrow> app_ok m' k' vs b"
  using same_controls_ok [of a b m k vs] by (auto intro: app_ok_weaken)

text \<open>The selectors: the new track gets the state the button shows.\<close>

lemma swap_uniform:
  "mt_kind t = kind \<Longrightarrow> kind' \<noteq> kind \<Longrightarrow> uniform kind' on d \<Longrightarrow> uniform kind' on (fst (swap_track kind t d))"
  by (auto simp: swap_track_def uniform_def add_media_def list_all_iff split: list.split)

lemma swap_version [simp]: "dv_captureVersion (fst (swap_track kind t d)) = dv_captureVersion d"
  by (simp add: swap_track_def split: list.split)

lemma meter_fields [simp]:
  "dv_localStream (fst (setupAudioLevelIndicator ctx d)) = dv_localStream d"
  "dv_captureVersion (fst (setupAudioLevelIndicator ctx d)) = dv_captureVersion d"
  "dv_localStream (fst (startLocalPreview ctx d)) = dv_localStream d"
  "dv_captureVersion (fst (startLocalPreview ctx d)) = dv_captureVersion d"
  by (simp_all add: setupAudioLevelIndicator_def startLocalPreview_def split_beta Let_def split: option.split)

lemma selected_ok:
  assumes "app_ok m k vs a"
  shows "mt_kind t = ''video'' \<Longrightarrow> app_ok m k vs (fst (camera_selected t a))"
    and "mt_kind t = ''audio'' \<Longrightarrow> app_ok (m \<and> snd (snd (microphone_selected ctx t a))) k vs (fst (microphone_selected ctx t a))"
proof -
  assume "mt_kind t = ''video''"
  then show "app_ok m k vs (fst (camera_selected t a))"
    unfolding camera_selected_def split_beta fst_conv Let_def
    by (intro app_ok_devices [OF assms])
      (use assms in \<open>simp_all add: app_ok_def setVideoEnabled_def setCamera_end_def uniform_enable uniform_enable_other swap_uniform\<close>)
next
  assume k: "mt_kind t = ''audio''"
  have "uniform ''video'' on (fst (setMicrophone_end ctx t d))" if "uniform ''video'' on d" for on d
    using swap_uniform [OF k _ that] by (simp add: setMicrophone_end_def split_beta Let_def uniform_def)
  moreover have "dv_captureVersion (fst (setMicrophone_end ctx t d)) = dv_captureVersion d" for d
    by (simp add: setMicrophone_end_def split_beta Let_def)
  ultimately show "app_ok (m \<and> snd (snd (microphone_selected ctx t a))) k vs (fst (microphone_selected ctx t a))"
    unfolding microphone_selected_def split_beta fst_conv snd_conv Let_def
    by (intro app_ok_devices [OF assms])
      (use assms in \<open>simp_all add: app_ok_def setAudioMuted_def uniform_enable uniform_enable_other\<close>)
qed

text \<open>The preview.\<close>

lemma captures_Nil [simp]: "captures_ok [] a"
  by (simp add: captures_ok_def)

lemma setupPreview_ok:
  assumes "app_ok m k vs a" and "setupPreview secure viewer name roomId a = (b, es, v)"
  shows "app_ok m k (case v of None \<Rightarrow> vs | Some v \<Rightarrow> v # vs) b"
proof (cases "preview_room_ok roomId \<and> secure")
  case False
  with assms show ?thesis by (auto simp: setupPreview_def same_controls_ok [OF same_controls_fields(5)] split: if_splits)
next
  case True
  show ?thesis
  proof (cases viewer)
    case viewer: True
    with True assms(2) have b: "ap_devices b = fst (stopLocalPreview (ap_devices a))" "ap_muted b" "\<not> ap_videoEnabled b"
      "bt_pressed (ui_mic (ap_ui b))" "bt_pressed (ui_cam (ap_ui b))" "ui_record (ap_ui b) = ui_record (ap_ui a)"
      "ap_recording b = ap_recording a" "v = None"
      by (auto simp: setupPreview_def join_as_viewer_def with_ui_def showView_def setMuted_def setCameraEnabled_def Let_def split_beta)
    have "captures_ok vs b" by (rule captures_later [of vs a]) (use assms(1) b(1) in \<open>simp_all add: app_ok_def\<close>)
    with assms(1) b show ?thesis by (simp add: app_ok_def buttons_ok_def uniform_def)
  next
    case False
    with True assms(2) have b: "ap_devices b = (ap_devices a)\<lparr>dv_captureVersion := dv_captureVersion (ap_devices a) + 1\<rparr>"
      "ap_muted b = ap_muted a" "ap_videoEnabled b = ap_videoEnabled a" "ui_view (ap_ui b) = [''preview'']"
      "ui_mic (ap_ui b) = ui_mic (ap_ui a)" "ui_cam (ap_ui b) = ui_cam (ap_ui a)" "ui_record (ap_ui b) = ui_record (ap_ui a)"
      "ap_recording b = ap_recording a" "v = Some (dv_captureVersion (ap_devices a) + 1)"
      by (auto simp: setupPreview_def with_ui_def showView_def getLocalStream_begin_def Let_def split_beta)
    have "uniform kind on (ap_devices b) = uniform kind on (ap_devices a)" for kind on
      by (rule uniform_cong) (simp add: b(1))
    moreover have "captures_ok ((dv_captureVersion (ap_devices a) + 1) # vs) b"
      using assms(1) by (fastforce simp: app_ok_def captures_ok_def b(1,4))
    ultimately show ?thesis using assms(1) by (simp add: app_ok_def buttons_ok_def b(2-))
  qed
qed

lemma keep_or_stop_version: "dv_captureVersion (fst (keep_or_stop v ts d)) = dv_captureVersion d"
  by (cases "v = dv_captureVersion d") (simp_all add: keep_or_stop_current keep_or_stop_stale)

lemma preview_captured_ok:
  assumes "app_ok m k vs a" and "v \<in> set vs"
  shows "app_ok m k (remove1 v vs) (fst (preview_captured v results a))"
proof -
  let ?d = "fst (getLocalStream_end v results (ap_devices a))" let ?a = "a\<lparr>ap_devices := ?d\<rparr>"
  have sub: "set (remove1 v vs) \<subseteq> set vs" by (rule set_remove1_subset)
  have version: "dv_captureVersion ?d = dv_captureVersion (ap_devices a)"
    by (simp add: getLocalStream_end_def keep_or_stop_version)
  show ?thesis
  proof (cases "ui_view (ap_ui a) = [''preview'']")
    case True
    have "app_ok False False vs ?a" by (rule app_ok_devices [OF assms(1) version]) simp_all
    then have "app_ok m k vs (finish_video y (finish_mute x ?a))" for x y
      by (intro finish_video_ok [where k = False] finish_mute_ok [where m = False])
    with True sub show ?thesis by (auto simp: preview_captured_def Let_def split_beta intro: app_ok_weaken)
  next
    case False
    then have "v \<noteq> dv_captureVersion (ap_devices a)" using assms by (auto simp: app_ok_def captures_ok_def)
    then have "?d = ap_devices a" by (simp add: getLocalStream_end_def keep_or_stop_stale)
    with False sub assms(1) show ?thesis by (auto simp: preview_captured_def Let_def split_beta intro: app_ok_weaken)
  qed
qed

lemma back_ok:
  assumes "app_ok m k vs a"
  shows "app_ok m k vs (fst (back_to_lobby a))"
proof -
  have "captures_ok vs (fst (back_to_lobby a))"
    by (rule captures_later [of vs a]) (use assms in \<open>simp_all add: app_ok_def back_to_lobby_def Let_def split_beta with_ui_def\<close>)
  with assms show ?thesis
    by (simp add: app_ok_def buttons_ok_def back_to_lobby_def Let_def split_beta with_ui_def showView_def uniform_def)
qed

lemma stopped_ok:
  assumes "app_ok m k vs a"
  shows "app_ok m k vs (a\<lparr>ap_devices := fst (stopLocalPreview (ap_devices a))\<rparr>)"
proof -
  have "captures_ok vs (a\<lparr>ap_devices := fst (stopLocalPreview (ap_devices a))\<rparr>)"
    by (rule captures_later [of vs a]) (use assms in \<open>simp_all add: app_ok_def\<close>)
  with assms show ?thesis by (simp add: app_ok_def buttons_ok_def uniform_def)
qed

lemma join_without_ok: "app_ok m k vs a \<Longrightarrow> app_ok m k vs (fst (join_without_devices n a))"
  by (simp add: join_without_devices_def Let_def split_beta onJoinRoom_ok stopped_ok)

lemma recording_ok:
  assumes "app_ok m k vs a"
  shows "app_ok m k vs (fst (toggleRecording support a))"
proof -
  have "uniform kind on (fst (stopRecording d)) = uniform kind on d" "uniform kind on (fst (startRecording support d)) = uniform kind on d"
    "dv_captureVersion (fst (startRecording support d)) = dv_captureVersion d" for kind on d
    by (simp_all add: startRecording_def uniform_def Let_def)
  with assms show ?thesis
    by (simp add: toggleRecording_def app_ok_def buttons_ok_def captures_ok_def Let_def split_beta with_ui_def setRecording_def
        showNotification_def)
qed

text \<open>The screen: another stream, and the session's senders.\<close>

lemma screen_begin_same: "stopScreenShare_begin has_sender a = (b, es, r) \<Longrightarrow> same_controls a b"
  using publish_same by (fastforce simp: stopScreenShare_begin_def Let_def split: option.splits list.splits prod.splits)

lemma share_failed_same: "same_controls a (share_failed message a)"
  by (simp add: share_failed_def)

lemma screen_stops_same:
  "screen_ended message has_sender a = (b, es, r) \<Longrightarrow> same_controls a b"
  "toggleScreenShare message has_sender a = Some (b, es, r) \<Longrightarrow> same_controls a b"
  by (auto simp: screen_ended_def toggleScreenShare_def split: prod.splits sharing.splits if_splits
      dest: screen_begin_same intro: same_controls_trans [OF _ share_failed_same])

lemma screen_devices_ok:
  assumes "app_ok m k vs a" and "dv_localStream d = dv_localStream (ap_devices a)" and "dv_captureVersion d = dv_captureVersion (ap_devices a)"
  shows "app_ok m k vs (a\<lparr>ap_devices := d\<rparr>)"
  using assms(1) uniform_cong [OF assms(2)] by (intro app_ok_devices [OF assms(1,3)]) (simp_all add: app_ok_def)

lemma screen_given_ok:
  assumes "app_ok m k vs a" and "screen_given message has_sender got a = (b, es, r)"
  shows "app_ok m k vs b"
proof -
  let ?a = "a\<lparr>ap_devices := startScreenShare_end got (ap_devices a)\<rparr>"
  have ok: "app_ok m k vs ?a"
    by (rule screen_devices_ok [OF assms(1)]) (simp_all add: startScreenShare_end_def split: option.split)
  have "same_controls ?a b"
    using assms(2) publish_same
    by (fastforce simp: screen_given_def Let_def share_failed_same split: option.splits prod.splits)
  from same_controls_ok [OF this] ok show ?thesis by simp
qed

lemma updateVideoTile_same: "same_controls a (with_ui (updateVideoTile i st) a)"
  by (simp add: same_controls_def with_ui_def updateVideoTile_def)

lemma screen_published_ok: "app_ok m k vs a \<Longrightarrow> app_ok m k vs (screen_published old new a)"
  unfolding screen_published_def
  by (simp add: same_controls_ok [OF updateVideoTile_same] same_controls_ok [OF same_controls_fields(2)])

lemma screen_taken_ok:
  assumes "app_ok m k vs a"
  shows "app_ok m k vs (fst (stopScreenShare_end old new a))"
proof -
  have "app_ok m k vs (a\<lparr>ap_devices := fst (stopScreenShare (ap_devices a)), ap_webrtc := w\<rparr>)" for w
    using screen_devices_ok [OF assms, of "fst (stopScreenShare (ap_devices a))"]
    by (simp add: same_controls_ok [OF same_controls_fields(2)])
  then show ?thesis by (simp add: stopScreenShare_end_def split_beta same_controls_ok [OF updateVideoTile_same])
qed

lemma toggles_ok: "app_ok m k vs a \<Longrightarrow> app_ok m k vs (fst (toggleMute a))" "app_ok m k vs a \<Longrightarrow> app_ok m k vs (fst (toggleVideo a))"
  by (simp_all add: toggleMute_def toggleVideo_def finish_mute_ok finish_video_ok)

text \<open>A frame or the end of the socket: the listeners leave the controls alone, or leave the room.\<close>

lemma room_listener_same: "same_controls a (run_room_listener x a)"
proof (cases x)
  case (Pair l v)
  then show ?thesis
    by (cases l) (simp_all add: same_controls_def with_ui_def updateParticipantsList_def createVideoTile_def removeVideoTile_def)
qed

lemma room_listeners_same: "same_controls a (fold run_room_listener xs a)"
proof (induction xs arbitrary: a)
  case (Cons x xs)
  show ?case by (simp, rule same_controls_trans [OF room_listener_same Cons])
qed simp

lemma app_add_same: "same_controls a (app_add p a)" and app_remove_same: "same_controls a (app_remove i a)"
  by (simp_all add: app_add_def app_remove_def split_beta Let_def)
    (rule same_controls_trans [OF same_controls_fields(3) room_listeners_same])+

lemma app_adds_same: "same_controls a (fold app_add ps a)"
proof (induction ps arbitrary: a)
  case (Cons p ps)
  show ?case by (simp, rule same_controls_trans [OF app_add_same Cons])
qed simp

lemma same_ok: "same_controls a b \<Longrightarrow> app_ok m k vs a \<Longrightarrow> app_ok m k vs b"
  by (simp add: same_controls_ok)

lemma leave_ok: "app_ok m k vs a \<Longrightarrow> app_ok m k vs (fst (leaveRoom a))"
  by (rule leaveRoom_ok) (simp add: app_ok_def)

lemma signal_listener_ok:
  assumes "app_ok m k vs a"
  shows "app_ok m k vs (fst (run_signal_listener h v a))"
proof (cases h)
  case OnJoined
  then show ?thesis using assms
    by (auto simp: Let_def intro: same_ok [OF same_controls_trans [OF app_add_same same_controls_fields(5)]])
next
  case OnLeft
  then show ?thesis using assms
    by (auto simp: Let_def split_beta split: option.split intro: same_ok [OF app_remove_same]
        same_ok [OF same_controls_trans [OF same_controls_fields(2) app_remove_same]])
next
  case OnDisconnected
  then show ?thesis using leave_ok [OF assms] by (auto simp: split_beta intro: same_ok [OF same_controls_fields(5)])
qed (use assms in \<open>auto simp: same_controls_ok [OF same_controls_fields(6)] same_controls_ok [OF same_controls_fields(5)]
    same_controls_ok [OF same_controls_fields(2)]\<close>)

lemma run_outs_ok: "app_ok m k vs a \<Longrightarrow> app_ok m k vs (fst (run_outs outs a))"
proof (induction outs arbitrary: a)
  case (Cons x outs)
  then show ?case by (cases x) (simp_all add: split_beta signal_listener_ok)
qed simp

lemma join_caught_ok: "app_ok m k vs a \<Longrightarrow> app_ok m k vs (fst (join_caught err a))"
  unfolding join_caught_def by (rule leave_ok, rule same_ok [OF same_controls_fields(5)])

lemma earlier_ok: "app_ok m k vs a \<Longrightarrow> app_ok m k vs (fst (app_earlier n f a))"
  by (auto simp: app_earlier_def Let_def split_beta intro!: join_caught_ok same_ok [OF same_controls_fields(7)]
      split: option.split outcome.split)

lemma settle_join_ok:
  assumes "app_ok m k vs a"
  shows "app_ok m k vs (fst (settle_join i a))"
proof -
  have failed: "app_ok m k vs (fst (join_failed err a))" for err
    unfolding join_failed_def by (rule join_caught_ok [OF same_ok [OF same_controls_fields(4) assms]])
  have connected: "app_ok m k vs (fst (join_connected i a))"
    using assms by (auto simp: join_connected_def split_beta Let_def split: option.split
        intro: same_ok [OF same_controls_trans [OF same_controls_fields(1) same_controls_fields(4)]])
  have "same_controls a (join_answered res a)" for res
    unfolding join_answered_def Let_def
    by (rule same_controls_trans [OF same_controls_trans [OF same_controls_trans [OF same_controls_fields(3) same_controls_fields(4)] app_adds_same]
          same_controls_trans [OF same_controls_fields(1) same_controls_fields(2)]])
  then show ?thesis
    using assms failed connected
    by (auto simp: settle_join_def intro: same_ok split: join_await.split option.split outcome.split)
qed

lemma frame_ok_app: "app_ok m k vs a \<Longrightarrow> app_ok m k vs (fst (app_frame j msg a))"
  by (auto simp: app_frame_def split_beta Let_def split: option.split
      intro!: settle_join_ok run_outs_ok same_ok [OF same_controls_fields(1)])

lemma closed_ok_app: "app_ok m k vs a \<Longrightarrow> app_ok m k vs (fst (app_closed j n a))"
  by (auto simp: app_closed_def split_beta Let_def split: option.split
      intro!: settle_join_ok run_outs_ok same_ok [OF same_controls_fields(1)])

lemma settles_ok_app: "app_ok m k vs a \<Longrightarrow> app_ok m k vs (fst (app_settles j f a))"
  by (auto simp: app_settles_def split: option.split intro!: settle_join_ok same_ok [OF same_controls_fields(1)])

lemmas socket_ok_app =
  settles_ok_app [of _ _ _ _ _ "onopen n" for n, folded app_opened_def] settles_ok_app [of _ _ _ _ _ "onerror n" for n, folded app_errored_def]
  settles_ok_app [of _ _ _ _ _ "connect_timeout n" for n, folded app_connect_timeout_def]
  settles_ok_app [of _ _ _ _ _ "request_timeout i" for i, folded app_request_timeout_def]

text \<open>What the session calls touches the tiles and the notices.\<close>

lemma createVideoTile_same: "same_controls a (with_ui (\<lambda>u. if P u then createVideoTile i n st False u else updateVideoTile i st u) a)"
  by (simp add: same_controls_def with_ui_def createVideoTile_def updateVideoTile_def)

lemma run_call_same: "same_controls a (fst (run_call stream_no message e a))"
  by (cases "(stream_no, message, e, a)" rule: run_call.cases)
    (auto simp: onRemoteTrack_def createVideoTile_same session_error_def split: option.split sum.split)

lemma run_calls_same: "same_controls a (fst (run_calls stream_no message es a))"
proof (induction es arbitrary: a)
  case (Cons e es)
  show ?case by (simp add: split_beta) (rule same_controls_trans [OF run_call_same Cons])
qed simp

lemma session_moved_ok: "app_ok m k vs a \<Longrightarrow> app_ok m k vs (fst (run_calls stream_no message es (a\<lparr>ap_webrtc := w\<rparr>)))"
  by (rule same_ok [OF same_controls_trans [OF same_controls_fields(2) run_calls_same]])

text \<open>The level meter leaves the tracks alone.\<close>

lemma populate_same: "same_controls a (with_ui (populateDeviceSelectors ordinal cs ms) a)"
  by (simp add: same_controls_def with_ui_def populateDeviceSelectors_def)

lemma meter_ok:
  assumes "app_ok m k vs a"
  shows "app_ok m k vs (update_audio f a)"
    and "app_ok m k vs (fst (preview_ready ordinal ctx f found a))"
proof -
  have tick: "app_ok m k vs b \<Longrightarrow> app_ok m k vs (update_audio f b)" for b
    unfolding update_audio_def by (rule screen_devices_ok) simp_all
  from tick [OF assms] show "app_ok m k vs (update_audio f a)" .
  show "app_ok m k vs (fst (preview_ready ordinal ctx f found a))"
    unfolding preview_ready_def Let_def split_beta fst_conv
    by (auto intro!: tick screen_devices_ok same_ok [OF populate_same assms])
qed

lemma control_step_ok: "control_step c ev d \<Longrightarrow> controls_ok c \<Longrightarrow> controls_ok d"
proof (induction rule: control_step.induct)
  case (mic_given got has_sender v c a es p)
  then show ?case using microphone_given_ok by (fastforce simp: controls_ok_def split: option.split)
next
  case (mic_published t c)
  then show ?case by (simp add: controls_ok_def published_ok)
next
  case (mic_rejected t c)
  then show ?case by (auto simp: controls_ok_def intro: rejected_ok rejected_same)
next
  case (cam_rejected t c)
  then show ?case by (auto simp: controls_ok_def intro: rejected_ok rejected_same)
next
  case (cam_given got has_sender v c a es p)
  then show ?case using camera_given_ok by (fastforce simp: controls_ok_def split: option.split)
next
  case (cam_published t c)
  then show ?case by (simp add: controls_ok_def published_ok)
next
  case (preview_opened secure viewer name roomId c a es v)
  then show ?case using setupPreview_ok by (fastforce simp: controls_ok_def)
next
  case (captured v c results)
  then show ?case by (simp add: controls_ok_def preview_captured_ok)
next
  case (mic_picked t ctx c a es returned)
  then show ?case using selected_ok(2) [of "ct_mic c = [] \<and> \<not> ct_lostMic c" _ _ "ct_app c" t ctx]
    by (auto simp: controls_ok_def conj_assoc)
next
  case (screen_click message has_sender c a es r)
  then show ?case using same_controls_ok [OF screen_stops_same(2)] by (fastforce simp: controls_ok_def)
next
  case (screen_given message has_sender got c a es r)
  then show ?case using screen_given_ok by (fastforce simp: controls_ok_def)
next
  case (screen_ended t c message has_sender a es r)
  then show ?case using same_controls_ok [OF screen_stops_same(1)] by (fastforce simp: controls_ok_def)
qed (simp_all add: controls_ok_def on_app_def toggles_ok selected_ok back_ok onJoinRoom_ok join_without_ok recording_ok screen_published_ok screen_taken_ok rejected_ok [OF _ rejected_same(3)]
    socket_ok_app session_moved_ok meter_ok earlier_ok
    frame_ok_app closed_ok_app leave_ok)

interpretation control_machine: machine "\<lambda>c. c = initial_controls" control_step controls_ok
proof
  show "controls_ok c" if "c = initial_controls" for c
    using that by (simp add: controls_ok_def initial_controls_def app_ok_def buttons_ok_def init_app_def initial_ui_def
        plain_button_def uniform_def new_DeviceManager_def)
qed (rule control_step_ok)

text \<open>The buttons tell the truth: whatever the user clicks and selects, the browser grants or refuses,
  the server sends and the connection does, and in whatever order, the microphone, camera and recording
  buttons show the page's state, and unless a track is just being published or was refused by a sender,
  every microphone track is enabled exactly if the button does not show it as muted, and every camera
  track exactly if the button does not show it as off.\<close>

theorem buttons_truthful:
  assumes "controls_reachable c"
  shows "bt_pressed (ui_mic (ap_ui (ct_app c))) = ap_muted (ct_app c) \<and>
    bt_pressed (ui_cam (ap_ui (ct_app c))) = (\<not> ap_videoEnabled (ct_app c)) \<and>
    bt_pressed (ui_record (ap_ui (ct_app c))) = ap_recording (ct_app c) \<and>
    (ct_mic c = [] \<and> \<not> ct_lostMic c \<longrightarrow> (\<forall>t \<in> set (audio_tracks (ct_app c)). mt_enabled t = (\<not> bt_pressed (ui_mic (ap_ui (ct_app c)))))) \<and>
    (ct_cam c = [] \<and> \<not> ct_lostCam c \<longrightarrow> (\<forall>t \<in> set (video_tracks (ct_app c)). mt_enabled t = (\<not> bt_pressed (ui_cam (ap_ui (ct_app c))))))"
proof -
  have "controls_ok c"
    using assms unfolding controls_reachable_def by (rule control_machine.reach_inv)
  then show ?thesis
    by (auto simp: controls_ok_def app_ok_def buttons_ok_def uniform_def audio_tracks_def video_tracks_def of_kind_def list_all_iff)
qed

text \<open>The user opens the preview, gets a microphone, mutes it and joins.\<close>

definition demo_mic :: media_track where
  "demo_mic = \<lparr>mt_id = 4, mt_kind = ''audio'', mt_enabled = True\<rparr>"

definition demo_previewing :: controls where
  "demo_previewing = initial_controls\<lparr>ct_app := fst (setupPreview True False (js ''B'') (js ''room123'') init_app), ct_captures := [1]\<rparr>"

definition demo_captured :: controls where
  "demo_captured = demo_previewing\<lparr>ct_app := fst (preview_captured 1 [Some [demo_mic], None] (ct_app demo_previewing)), ct_captures := []\<rparr>"

lemma demo_captured_reachable: "controls_reachable demo_captured"
proof -
  have "control_step initial_controls (PreviewOpened True False (js ''B'') (js ''room123'')) demo_previewing"
    using preview_opened [of True False "js ''B''" "js ''room123''" initial_controls]
    by (simp add: demo_previewing_def initial_controls_def setupPreview_def preview_room_ok_def is_alnum_def is_digit_def js_def
        getLocalStream_begin_def with_ui_def showView_def init_app_def new_DeviceManager_def Let_def)
  moreover have "control_step demo_previewing (Captured 1 [Some [demo_mic], None]) demo_captured"
    using captured [of 1 demo_previewing "[Some [demo_mic], None]"] by (simp add: demo_captured_def demo_previewing_def)
  ultimately show ?thesis
    unfolding controls_reachable_def by (blast intro: reachable.intros)
qed

lemma demo_captured_mic: "audio_tracks (ct_app demo_captured) = [demo_mic]"
proof -
  have "ui_view (ap_ui (ct_app demo_previewing)) = [''preview'']" "dv_localStream (ap_devices (ct_app demo_previewing)) = []"
    "dv_captureVersion (ap_devices (ct_app demo_previewing)) = 1"
    by (simp_all add: demo_previewing_def setupPreview_def preview_room_ok_def is_alnum_def is_digit_def js_def
        getLocalStream_begin_def with_ui_def showView_def init_app_def new_DeviceManager_def Let_def)
  then show ?thesis
    by (simp add: demo_captured_def preview_captured_def getLocalStream_end_def add_media_def audio_tracks_def of_kind_def
        demo_mic_def Let_def split_beta setAudioMuted_def setVideoEnabled_def enable_kind_def)
qed

theorem buttons_truthful_witness:
  "mt_enabled demo_mic = (\<not> bt_pressed (ui_mic (ap_ui (ct_app demo_captured))))"
proof -
  have "ct_mic demo_captured = []" "\<not> ct_lostMic demo_captured" by (simp_all add: demo_captured_def demo_previewing_def initial_controls_def)
  then show ?thesis using buttons_truthful [OF demo_captured_reachable] demo_captured_mic by simp
qed

section \<open>Leaving\<close>

text \<open>C16. Leaving releases everything: every local and every screen track is stopped, a recorder that runs
  is stopped, every peer connection is closed, the socket no longer counts as open, and the page is back
  in the lobby with no tile, participant or chat line; devices the browser gives later for an earlier
  request are stopped and not used.\<close>

theorem leave_releases_everything:
  assumes "leaveRoom a = (b, es)"
  shows "(\<forall>t \<in> set (dv_localStream (ap_devices a)). ByDevices (StopTrack (mt_id t)) \<in> set es) \<and>
    (\<forall>st. dv_screenStream (ap_devices a) = Some st \<longrightarrow> (\<forall>t \<in> set st. ByDevices (StopTrack (mt_id t)) \<in> set es)) \<and>
    (dv_recorder (ap_devices a) = Some Recording \<longrightarrow> ByDevices StopRecorder \<in> set es) \<and>
    (\<forall>s. ap_webrtc a = Some s \<longrightarrow> (\<forall>i \<in> set (keys_of (rt_peers s)). BySession (ClosePc i) \<in> set es)) \<and>
    dv_localStream (ap_devices b) = [] \<and> dv_screenStream (ap_devices b) = None \<and> ap_webrtc b = None \<and>
    (\<forall>c. ap_signaling b = Some c \<longrightarrow> client_ready c \<noteq> Some OPEN) \<and>
    ui_view (ap_ui b) = [''lobby''] \<and> ui_tiles (ap_ui b) = [] \<and> ui_participants (ap_ui b) = [] \<and> ui_chat (ap_ui b) = [] \<and>
    getAllParticipants (ap_room b) = [] \<and>
    (v \<le> dv_captureVersion (ap_devices a) \<longrightarrow> fst (getLocalStream_end v results (ap_devices b)) = ap_devices b)"
proof -
  have b: "b = fst (leaveRoom a)" and es: "es = snd (leaveRoom a)" using assms by simp_all
  let ?d1 = "stopLocalPreview (ap_devices a)" let ?d2 = "stopScreenShare (fst ?d1)" let ?d3 = "stopRecording (fst ?d2)"
  have calls: "set es = BySession ` set (case ap_webrtc a of Some s \<Rightarrow> snd (close_session s) | None \<Rightarrow> []) \<union>
      ByDevices ` (set (snd ?d1) \<union> set (snd ?d2) \<union> set (snd ?d3))"
    unfolding es by (simp add: leaveRoom_def Let_def split_beta image_Un Un_assoc)
  have devs: "ap_devices b = fst ?d3" unfolding b by (simp add: leaveRoom_def Let_def split_beta)
  have "StopTrack (mt_id t) \<in> set (snd ?d1)" if "t \<in> set (dv_localStream (ap_devices a))" for t
    using that by (simp add: stopLocalPreview_def cancelPendingCapture_def stop_tracks_def Let_def)
  moreover have "StopTrack (mt_id t) \<in> set (snd ?d2)" if "dv_screenStream (ap_devices a) = Some st" "t \<in> set st" for t st
    using that by (simp add: stopScreenShare_def stop_tracks_def)
  moreover have "StopRecorder \<in> set (snd ?d3)" if "dv_recorder (ap_devices a) = Some Recording"
    using that by (simp add: stopRecording_def stopScreenShare_def split: option.split)
  moreover have "ClosePc i \<in> set (snd (close_session s))" if "i \<in> set (keys_of (rt_peers s))" for i s
    using that by (auto simp: close_session_def)
  moreover have "dv_screenStream (fst ?d2) = None" by (simp add: stopScreenShare_def split: option.split)
  then have "dv_screenStream (fst ?d3) = None" by (simp add: stopRecording_def)
  moreover
  have off: "client_ready (disconnect c) \<noteq> Some OPEN" for c :: "signal_listener client"
    by (cases "cl_ws c") (auto simp: disconnect_def client_ready_def with_socket_def Let_def)
  have "\<exists>sig. ap_signaling b = map_option disconnect sig" unfolding b by (auto simp: leaveRoom_def Let_def split_beta)
  then obtain sig where "ap_signaling b = map_option disconnect sig" ..
  then have "client_ready c \<noteq> Some OPEN" if "ap_signaling b = Some c" for c
    using off that by (cases sig) auto
  moreover have "fst (getLocalStream_end v results (fst ?d3)) = fst ?d3" if "v \<le> dv_captureVersion (ap_devices a)"
    using that by (simp add: getLocalStream_end_def keep_or_stop_stale)
  moreover have "ap_webrtc b = None" "ui_tiles (ap_ui b) = []"
    "ui_participants (ap_ui b) = []" "ui_chat (ap_ui b) = []" "getAllParticipants (ap_room b) = []"
    unfolding b by (auto simp: leaveRoom_def Let_def split_beta setRecording_def setCameraEnabled_def setMuted_def showView_def
        chat_clear_def updateParticipantsList_def getAllParticipants_def room_clear_def)
  moreover note leaveRoom_ui(4) [of a, folded b]
  ultimately show ?thesis unfolding calls devs by auto
qed

theorem leave_releases_everything_witness:
  "ByDevices (StopTrack 4) \<in> set (snd (leaveRoom (init_app\<lparr>ap_devices := new_DeviceManager\<lparr>dv_localStream := [demo_mic]\<rparr>\<rparr>)))"
proof -
  let ?a = "init_app\<lparr>ap_devices := new_DeviceManager\<lparr>dv_localStream := [demo_mic]\<rparr>\<rparr>"
  have "\<forall>t \<in> set (dv_localStream (ap_devices ?a)). ByDevices (StopTrack (mt_id t)) \<in> set (snd (leaveRoom ?a))"
    using leave_releases_everything [of ?a "fst (leaveRoom ?a)" "snd (leaveRoom ?a)"] by simp
  then show ?thesis by (simp add: demo_mic_def)
qed

section \<open>Where the buttons go wrong\<close>

lemma replace_calls:
  "i \<in> set (keys_of (rt_peers s)) \<Longrightarrow> has_sender i (mt_kind t) \<Longrightarrow>
   ReplaceSender i (mt_kind t) (Some (to_track t)) \<in> set (snd (replaceTrack s has_sender old (Some (to_track t))))"
  by (force simp: replaceTrack_def replaced_kind_def to_track_def)

text \<open>C38. A microphone may be live behind a button that shows it as muted: somebody who joined without a
  microphone clicks the button, the browser gives a track and it goes to the sender of every peer; when
  one of these replacements fails, the track stays in the local stream, enabled, the button stays
  pressed, and nothing takes the track back from the peers that have it.\<close>

theorem live_behind_muted_button:
  assumes "audio_tracks a = []" and "bt_pressed (ui_mic (ap_ui a))" and "ap_webrtc a = Some s"
    and "mt_kind t = ''audio''" and "mt_enabled t" and "mt_id t \<notin> mt_id ` set (dv_localStream (ap_devices a))"
    and "microphone_given has_sender (dv_captureVersion (ap_devices a)) (Some [t]) a = (b, es, p)"
  shows "p = Some t \<and> (\<forall>i \<in> set (keys_of (rt_peers s)). has_sender i ''audio'' \<longrightarrow>
      BySession (ReplaceSender i ''audio'' (Some (to_track t))) \<in> set es) \<and>
    audio_tracks (microphone_published False t b) = [t] \<and> mt_enabled t \<and>
    bt_pressed (ui_mic (ap_ui (microphone_published False t b)))"
proof -
  let ?d = "(ap_devices a)\<lparr>dv_localStream := dv_localStream (ap_devices a) @ [t]\<rparr>"
  let ?r = "replaceTrack s has_sender None (Some (to_track t))"
  have acq: "acquireTrack_end (dv_captureVersion (ap_devices a)) [t] (ap_devices a) = (?d, [], Inr t)"
    using assms(6) by (simp add: acquireTrack_end_def add_media_def)
  have given: "b = a\<lparr>ap_devices := ?d, ap_webrtc := Some (fst ?r)\<rparr>" "es = map BySession (snd ?r)" "p = Some t"
    using assms(3,7) by (simp_all add: microphone_given_def acq publish_def split_beta Let_def)
  have "audio_tracks (microphone_published False t b) = [t]" and "ui_mic (ap_ui (microphone_published False t b)) = ui_mic (ap_ui a)"
    using assms(1,4) by (simp_all add: given(1) microphone_published_def mic_failed_def with_ui_def showNotification_def
        audio_tracks_def of_kind_def)
  then show ?thesis
    using assms(2,4,5) replace_calls [of _ s has_sender t None] by (auto simp: given(2,3))
qed

theorem live_behind_muted_button_witness:
  "\<exists>b es p. microphone_given (\<lambda>i k. True) 0 (Some [demo_mic])
      (init_app\<lparr>ap_webrtc := Some new_session, ap_ui := setMuted True initial_ui\<rparr>) = (b, es, p) \<and>
     audio_tracks (microphone_published False demo_mic b) = [demo_mic] \<and>
     bt_pressed (ui_mic (ap_ui (microphone_published False demo_mic b)))"
proof -
  let ?a = "init_app\<lparr>ap_webrtc := Some new_session, ap_ui := setMuted True initial_ui\<rparr>"
  obtain b es p where g: "microphone_given (\<lambda>i k. True) 0 (Some [demo_mic]) ?a = (b, es, p)"
    by (cases "microphone_given (\<lambda>i k. True) 0 (Some [demo_mic]) ?a")
  moreover have "dv_captureVersion (ap_devices ?a) = 0" by (simp add: init_app_def new_DeviceManager_def)
  ultimately show ?thesis
    using live_behind_muted_button [of ?a new_session demo_mic "\<lambda>i k. True" b es p]
    by (simp add: audio_tracks_def of_kind_def init_app_def new_DeviceManager_def demo_mic_def setMuted_def)
qed

text \<open>C39. Who has muted the microphone in the preview and then chooses another one may join with it live. When
  the browser has no audio context for the meter of the chosen microphone, the track it gave is in the
  local stream, enabled, behind a button that shows it as muted, and joining the meeting from there takes
  the page out of the muted state. With an audio context every microphone track is disabled, and joining
  keeps the page muted.\<close>

theorem muted_choice_joins_live:
  assumes "ap_muted a" and "bt_pressed (ui_mic (ap_ui a))" and "mt_kind t = ''audio''" and "mt_enabled t"
    and "microphone_selected ctx t a = (b, es, returned)" and "mt_id t \<notin> mt_id ` set (dv_localStream (ap_devices a))"
  shows "bt_pressed (ui_mic (ap_ui b)) \<and> returned = (ctx \<noteq> None) \<and>
    (ctx = None \<longrightarrow> t \<in> set (audio_tracks b) \<and> mt_enabled t \<and> \<not> ap_muted (fst (onJoinRoom n b)) \<and>
       \<not> bt_pressed (ui_mic (ap_ui (fst (onJoinRoom n b)))) \<and> t \<in> set (audio_tracks (fst (onJoinRoom n b)))) \<and>
    (ctx \<noteq> None \<longrightarrow> (\<forall>u \<in> set (audio_tracks b). \<not> mt_enabled u) \<and> ap_muted (fst (onJoinRoom n b)))"
proof -
  let ?s = "fst (swap_track ''audio'' t (ap_devices a))"
  have new: "t \<in> set (of_kind ''audio'' (dv_localStream ?s))" using assms(3,6)
    by (auto simp: swap_track_def add_media_def of_kind_def split: list.split)
  then have some: "of_kind ''audio'' (dv_localStream ?s) \<noteq> []" by auto
  have joined: "ap_muted (fst (onJoinRoom n x)) = (\<not> list_ex mt_enabled (audio_tracks x))"
    "bt_pressed (ui_mic (ap_ui (fst (onJoinRoom n x)))) = (\<not> list_ex mt_enabled (audio_tracks x))"
    "audio_tracks (fst (onJoinRoom n x)) = audio_tracks x" for x
    by (simp_all add: onJoinRoom_def audio_tracks_def cancelPendingCapture_def createVideoTile_def showView_def
        setCameraEnabled_def setMuted_def Let_def)
  show ?thesis
  proof (cases ctx)
    case None
    then have b: "b = a\<lparr>ap_devices := ?s\<rparr>" "\<not> returned"
      using assms(5) some by (auto simp: microphone_selected_def setMicrophone_end_def setupAudioLevelIndicator_def split_beta Let_def)
    then have "audio_tracks b = of_kind ''audio'' (dv_localStream ?s)" by (simp add: audio_tracks_def)
    with b new assms(2,4) None joined [of b] show ?thesis by (auto simp: list_ex_iff)
  next
    case (Some m)
    then have b: "b = a\<lparr>ap_devices := ap_devices b\<rparr>" "returned" and d: "uniform ''audio'' False (ap_devices b)"
      using assms(1,5) some uniform_enable [of "''audio''" False]
      by (auto simp: microphone_selected_def setMicrophone_end_def setupAudioLevelIndicator_def setAudioMuted_def split_beta Let_def)
    then have off: "\<forall>u \<in> set (audio_tracks b). \<not> mt_enabled u"
      by (auto simp: uniform_def audio_tracks_def of_kind_def list_all_iff)
    have "ui_mic (ap_ui b) = ui_mic (ap_ui a)" by (subst b(1)) simp
    with b(2) off joined [of b] Some assms(2) show ?thesis by (auto simp: list_ex_iff)
  qed
qed

theorem muted_choice_joins_live_witness:
  "\<not> ap_muted (fst (onJoinRoom 7 (fst (microphone_selected None demo_mic
     (init_app\<lparr>ap_muted := True, ap_ui := setMuted True initial_ui\<rparr>)))))"
proof -
  let ?a = "init_app\<lparr>ap_muted := True, ap_ui := setMuted True initial_ui\<rparr>"
  obtain b es r where g: "microphone_selected None demo_mic ?a = (b, es, r)" by (cases "microphone_selected None demo_mic ?a")
  from muted_choice_joins_live [OF _ _ _ _ g, of 7] have "\<not> ap_muted (fst (onJoinRoom 7 b))"
    by (simp add: init_app_def new_DeviceManager_def demo_mic_def setMuted_def)
  then show ?thesis by (simp only: g fst_conv not_False_eq_True)
qed

text \<open>Joining again too soon may end the new meeting: somebody leaves while the connection is being made, or
  while the join request is not answered yet, and joins again; when the first client's promise is
  rejected after that, by its timer or because its socket closes, the \<open>catch\<close> of the first call leaves the
  meeting the page is in by then.\<close>

lemma caught_in_lobby:
  "ui_view (ap_ui (fst (join_caught err a))) = [''lobby''] \<and> ap_webrtc (fst (join_caught err a)) = None \<and>
   ap_signaling (fst (join_caught err a)) = map_option disconnect (if ap_webrtc a \<noteq> None then map_option webrtc_off (ap_signaling a) else ap_signaling a)"
  by (simp add: join_caught_def leaveRoom_def Let_def split_beta with_ui_def setRecording_def setCameraEnabled_def setMuted_def
      showView_def)

theorem earlier_join_ends_meeting:
  assumes "ap_signaling a = Some c" and "ap_await a = AwaitJoin i" and "ap_earlier a = []"
    and "cl_requests c i = Some r" and "rq_promise r = Pending" and "ap_webrtc a = None"
  shows "let b = fst (onJoinRoom n (fst (leaveRoom a))); d = fst (app_earlier 0 (request_timeout i) b) in
    ui_view (ap_ui b) = [''room''] \<and> ap_earlier b = [(disconnect c, AwaitJoin i)] \<and>
    ui_view (ap_ui d) = [''lobby''] \<and> ap_await d = AwaitConnect n \<and>
    ap_signaling d = Some (disconnect (client_connect n (setup_handlers new_SignalingClient)))"
proof -
  let ?b = "fst (onJoinRoom n (fst (leaveRoom a)))"
  let ?c = "disconnect c" let ?err = "Str (js ''Request '' @ rq_type r @ js '' timed out'')"
  have left: "ap_signaling (fst (leaveRoom a)) = Some ?c" "ap_await (fst (leaveRoom a)) = AwaitJoin i"
    "ap_earlier (fst (leaveRoom a)) = []" "ap_webrtc (fst (leaveRoom a)) = None"
    using assms by (simp_all add: leaveRoom_def Let_def split_beta)
  then have b: "ap_earlier ?b = [(?c, AwaitJoin i)]" "ui_view (ap_ui ?b) = [''room'']" "ap_await ?b = AwaitConnect n"
    "ap_signaling ?b = Some (client_connect n (setup_handlers new_SignalingClient))" "ap_webrtc ?b = None"
    by (simp_all add: onJoinRoom_def earlier_joins_def Let_def createVideoTile_def showView_def)
  have "cl_requests ?c = cl_requests c" by (simp add: disconnect_def with_socket_def Let_def split: option.split)
  then have "awaited (request_timeout i ?c) (AwaitJoin i) = Some (Rejected ?err)"
    using assms(4,5) by (simp add: awaited_def request_timeout_def with_request_def drop_pending_def finish_def settle_request_def)
  then have d: "app_earlier 0 (request_timeout i) ?b = join_caught ?err (?b\<lparr>ap_earlier := []\<rparr>)" by (simp add: app_earlier_def b(1))
  have "ap_await (fst (join_caught ?err (?b\<lparr>ap_earlier := []\<rparr>))) = AwaitConnect n"
    using b(3) by (simp add: join_caught_def leaveRoom_def with_ui_def Let_def split_beta)
  then show ?thesis unfolding Let_def d using b caught_in_lobby [of ?err "?b\<lparr>ap_earlier := []\<rparr>"] by simp
qed

text \<open>C40. A screen that is shared before the join is complete cannot be taken back with its button: the
  capture the browser granted is kept, publishing it throws as there is no session yet, and another click
  throws as well and stops nothing.\<close>

theorem early_screen_share_stuck:
  assumes "ap_webrtc a = None" and "mt_kind t = ''video''" and "screen_given message has_sender (Some (t # ts)) a = (b, es, r)"
  shows "r = Threw \<and> dv_screenStream (ap_devices b) = Some (t # ts) \<and> es = [] \<and>
    toggleScreenShare message has_sender b = Some (share_failed message b, [], Threw) \<and>
    dv_screenStream (ap_devices (share_failed message b)) = Some (t # ts)"
  using assms
  by (auto simp: screen_given_def startScreenShare_end_def share_failed_def with_ui_def toggleScreenShare_def
      stopScreenShare_begin_def of_kind_def Let_def)

theorem early_screen_share_stuck_witness:
  "\<exists>b es r. screen_given Undefined (\<lambda>i k. True) (Some [\<lparr>mt_id = 9, mt_kind = ''video'', mt_enabled = True\<rparr>]) init_app = (b, es, r) \<and>
     r = Threw \<and> dv_screenStream (ap_devices b) = Some [\<lparr>mt_id = 9, mt_kind = ''video'', mt_enabled = True\<rparr>]"
proof -
  let ?t = "\<lparr>mt_id = 9, mt_kind = ''video'', mt_enabled = True\<rparr>"
  obtain b es r where g: "screen_given Undefined (\<lambda>i k. True) (Some [?t]) init_app = (b, es, r)"
    by (cases "screen_given Undefined (\<lambda>i k. True) (Some [?t]) init_app")
  from early_screen_share_stuck [OF _ _ g] show ?thesis using g by (simp add: init_app_def)
qed

end
