(* ===== verification/Page.thy ===== *)
theory Page
  imports Meeting MediaProperties
begin

text \<open>
  One page as a machine behind its socket: the frames it takes, what the user does, what the browser
  reports, and the frames it puts on the socket meanwhile. The machine puts together the parts of
  \<open>App\<close>, \<open>MediaControls\<close>, \<open>SignalingClient\<close> and \<open>WebRtcSession\<close>, and the theorems say what a step
  does to the list of participants the page shows.
\<close>

section \<open>The machine\<close>

text \<open>Whether the page's current socket is number \<open>w\<close>, and its state.\<close>

definition page_open :: "nat \<Rightarrow> app \<Rightarrow> bool" where
  "page_open w a \<longleftrightarrow> (\<exists>c. ap_signaling a = Some c \<and> cl_ws c = Some w \<and> client_ready c = Some OPEN)"

definition page_dialing :: "nat \<Rightarrow> app \<Rightarrow> bool" where
  "page_dialing w a \<longleftrightarrow> (\<exists>c. ap_signaling a = Some c \<and> cl_ws c = Some w \<and> client_ready c = Some CONNECTING)"

definition frames_on :: "nat \<Rightarrow> app_call list \<Rightarrow> jsval list" where
  "frames_on w es = concat (map (\<lambda>e. case e of ByClient (SendFrame n m) \<Rightarrow> if n = w then [m] else [] | _ \<Rightarrow> []) es)"

datatype page_event =
    Take jstring jsval
  | Opens jstring
  | Errs jstring
  | Lost jstring
  | DialTimeout jstring
  | AskTimeout jstring jstring
  | Chat jstring
  | Peer session_event "call list"
  | Control control_event
  | Leave

text \<open>The events of the session that the browser's connections cause, with what they find of the socket;
  and the controls of a page that is in a room or on its way into one.\<close>

fun of_browser :: "app \<Rightarrow> session_event \<Rightarrow> bool" where
  "of_browser a (Fulfilled i x) = (an_open x = (\<exists>c. ap_signaling a = Some c \<and> client_ready c = Some OPEN))"
| "of_browser a (Begin i op) = True"
| "of_browser a (NoConnection i op err) = True"
| "of_browser a (Skip i op) = True"
| "of_browser a (Failed i err) = True"
| "of_browser a (LocalCandidate i cand) = True"
| "of_browser a (TrackArrived i n) = True"
| "of_browser a (ConnectionFailed i) = True"
| "of_browser a ev = False"

fun of_room :: "control_event \<Rightarrow> bool" where
  "of_room (PreviewOpened secure viewer name r) = False"
| "of_room (JoinClick n) = False"
| "of_room (JoinBare n) = False"
| "of_room (FrameIn j m) = False"
| "of_room (SocketClosed j n) = False"
| "of_room (SocketOpened j n) = False"
| "of_room (SocketErred j n) = False"
| "of_room (DialTimedOut j n) = False"
| "of_room (AskTimedOut j i) = False"
| "of_room (EarlierJoin k) = False"
| "of_room (SessionMoved sev cs) = False"
| "of_room LeaveClick = False"
| "of_room ev = True"

text \<open>One step: the event, and the frames that go out on socket \<open>w\<close>. A frame is taken while the socket is
  open, as the browser does; a timer fires while it runs.\<close>

inductive page_step :: "nat \<Rightarrow> app \<Rightarrow> page_event \<times> jsval list \<Rightarrow> app \<Rightarrow> bool" for w where
  page_takes: "page_open w a \<Longrightarrow> app_frame j m a = (b, es) \<Longrightarrow> page_step w a (Take j m, frames_on w es) b"
| page_opens: "page_dialing w a \<Longrightarrow> app_opened j w a = (b, es) \<Longrightarrow> page_step w a (Opens j, frames_on w es) b"
| page_errs: "page_open w a \<or> page_dialing w a \<Longrightarrow> app_errored j w a = (b, es) \<Longrightarrow> page_step w a (Errs j, frames_on w es) b"
| page_lost: "page_open w a \<or> page_dialing w a \<Longrightarrow> app_closed j w a = (b, es) \<Longrightarrow> page_step w a (Lost j, frames_on w es) b"
| page_dial_timeout: "ap_signaling a = Some c \<Longrightarrow> cl_sockets c w = Some so \<Longrightarrow> so_timer so \<Longrightarrow>
    app_connect_timeout j w a = (b, es) \<Longrightarrow> page_step w a (DialTimeout j, frames_on w es) b"
| page_ask_timeout: "ap_signaling a = Some c \<Longrightarrow> cl_requests c i = Some r \<Longrightarrow> rq_timer r \<Longrightarrow>
    app_request_timeout j i a = (b, es) \<Longrightarrow> page_step w a (AskTimeout j i, frames_on w es) b"
| page_chats: "sendChat field a = Inr es \<Longrightarrow> page_step w a (Chat field, frames_on w es) a"
| page_peers: "ap_webrtc a = Some s \<Longrightarrow> session_step s (ev, cs) t \<Longrightarrow> of_browser a ev \<Longrightarrow>
    run_calls stream_no message cs (a\<lparr>ap_webrtc := Some t\<rparr>) = (b, es) \<Longrightarrow> page_step w a (Peer ev cs, frames_on w es) b"
| page_controls: "control_step c ev d \<Longrightarrow> of_room ev \<Longrightarrow> page_step w (ct_app c) (Control ev, []) (ct_app d)"
| page_leaves: "leaveRoom a = (b, es) \<Longrightarrow> page_step w a (Leave, []) b"

inductive_cases page_takeE: "page_step w a (Take j m, ms) b"
inductive_cases page_openE: "page_step w a (Opens j, ms) b"

lemma frames_on_simps [simp]:
  "frames_on w [] = []" "frames_on w (xs @ ys) = frames_on w xs @ frames_on w ys"
  "frames_on w (ByClient (SendFrame n m) # es) = (if n = w then m # frames_on w es else frames_on w es)"
  "frames_on w (BySession x # es) = frames_on w es" "frames_on w (ByDevices y # es) = frames_on w es"
  "frames_on w (map BySession cs) = []" "frames_on w (map ByDevices ds) = []"
  by (simp_all add: frames_on_def comp_def)

section \<open>What a step leaves alone\<close>

text \<open>The part of the page that a list of participants and a pending join depend on.\<close>

definition same_meeting :: "app \<Rightarrow> app \<Rightarrow> bool" where
  "same_meeting a b \<longleftrightarrow> ap_signaling b = ap_signaling a \<and> ap_await b = ap_await a \<and> ap_room b = ap_room a \<and>
     ui_participants (ap_ui b) = ui_participants (ap_ui a) \<and> (ap_webrtc b = None) = (ap_webrtc a = None)"

lemma same_meeting_refl [simp]: "same_meeting a a"
  and same_meeting_trans: "same_meeting a b \<Longrightarrow> same_meeting b c \<Longrightarrow> same_meeting a c"
  by (simp_all add: same_meeting_def)

lemma same_meeting_shows: "same_meeting a b \<Longrightarrow> shows_roster a ps \<Longrightarrow> shows_roster b ps"
  by (simp add: same_meeting_def shows_roster_def)

lemma same_meeting_fields [simp]:
  "same_meeting a (a\<lparr>ap_devices := d\<rparr>)" "same_meeting a (a\<lparr>ap_muted := m\<rparr>)" "same_meeting a (a\<lparr>ap_videoEnabled := m\<rparr>)"
  "same_meeting a (a\<lparr>ap_recording := m\<rparr>)" "same_meeting a (a\<lparr>ap_muted := m, ap_devices := d\<rparr>)"
  "same_meeting a (a\<lparr>ap_videoEnabled := m, ap_devices := d\<rparr>)" "same_meeting a (a\<lparr>ap_devices := d, ap_recording := m\<rparr>)"
  "same_meeting a (a\<lparr>ap_webrtc := map_option f (ap_webrtc a)\<rparr>)" "ap_webrtc a = Some s \<Longrightarrow> same_meeting a (a\<lparr>ap_webrtc := Some t\<rparr>)"
  by (simp_all add: same_meeting_def)

lemma same_meeting_ui: "(\<And>u. ui_participants (f u) = ui_participants u) \<Longrightarrow> same_meeting a (with_ui f a)"
  by (simp add: same_meeting_def with_ui_def)

lemma ui_list_kept [simp]:
  "ui_participants (setMuted x u) = ui_participants u" "ui_participants (setCameraEnabled x u) = ui_participants u"
  "ui_participants (setRecording x u) = ui_participants u" "ui_participants (showNotification v k u) = ui_participants u"
  "ui_participants (showView vw u) = ui_participants u" "ui_participants (updateVideoTile i st u) = ui_participants u"
  by (simp_all add: setMuted_def setCameraEnabled_def setRecording_def showNotification_def showView_def updateVideoTile_def Let_def)

lemma finish_kept [simp]:
  "same_meeting a (finish_mute m a)" "same_meeting a (finish_video m a)" "same_meeting a (mic_failed a)" "same_meeting a (cam_failed a)"
  by (auto simp: finish_mute_def finish_video_def mic_failed_def cam_failed_def same_meeting_def with_ui_def)

lemma publish_kept: "ap_webrtc a = Some s \<Longrightarrow> same_meeting a (fst (publish hs s old new a))"
  by (simp add: publish_def split_beta)

lemma given_kept:
  "microphone_given hs v got a = (b, es, p) \<Longrightarrow> same_meeting a b"
  "camera_given hs v got a = (b, es, p) \<Longrightarrow> same_meeting a b"
proof -
  let ?d = "\<lambda>ts. fst (acquireTrack_end v ts (ap_devices a))"
  have kept: "same_meeting a (finish_mute m (a\<lparr>ap_devices := ?d ts\<rparr>))" "same_meeting a (finish_video m (a\<lparr>ap_devices := ?d ts\<rparr>))"
    "same_meeting a (mic_failed (a\<lparr>ap_devices := ?d ts\<rparr>))" "same_meeting a (cam_failed (a\<lparr>ap_devices := ?d ts\<rparr>))" for m ts
    by (rule same_meeting_trans [OF same_meeting_fields(1) finish_kept(1)] same_meeting_trans [OF same_meeting_fields(1) finish_kept(2)]
        same_meeting_trans [OF same_meeting_fields(1) finish_kept(3)] same_meeting_trans [OF same_meeting_fields(1) finish_kept(4)])+
  have pub: "same_meeting a (fst (publish hs s None new (a\<lparr>ap_devices := ?d ts\<rparr>)))" if "ap_webrtc a = Some s" for s new ts
    by (rule same_meeting_trans [OF same_meeting_fields(1) publish_kept]) (simp add: that)
  show "microphone_given hs v got a = (b, es, p) \<Longrightarrow> same_meeting a b"
    using kept pub by (auto simp: microphone_given_def Let_def split_beta split: option.splits sum.splits)
  show "camera_given hs v got a = (b, es, p) \<Longrightarrow> same_meeting a b"
    using kept pub by (auto simp: camera_given_def Let_def split_beta split: option.splits sum.splits)
qed

lemma published_kept: "same_meeting a (microphone_published ok t a)" "same_meeting a (camera_published ok t a)"
proof -
  have kept: "same_meeting a (finish_mute m (a\<lparr>ap_webrtc := map_option f (ap_webrtc a)\<rparr>))"
    "same_meeting a (finish_video m (a\<lparr>ap_webrtc := map_option f (ap_webrtc a)\<rparr>))"
    "same_meeting a (mic_failed (a\<lparr>ap_webrtc := map_option f (ap_webrtc a)\<rparr>))"
    "same_meeting a (cam_failed (a\<lparr>ap_webrtc := map_option f (ap_webrtc a)\<rparr>))" for m f
    by (rule same_meeting_trans [OF same_meeting_fields(8) finish_kept(1)] same_meeting_trans [OF same_meeting_fields(8) finish_kept(2)]
        same_meeting_trans [OF same_meeting_fields(8) finish_kept(3)] same_meeting_trans [OF same_meeting_fields(8) finish_kept(4)])+
  show "same_meeting a (microphone_published ok t a)" "same_meeting a (camera_published ok t a)"
    using kept by (simp_all add: microphone_published_def camera_published_def)
qed

lemma share_rejected_kept: "same_meeting a (share_rejected message old new a)"
  unfolding share_rejected_def share_failed_def
  by (rule same_meeting_trans [OF same_meeting_fields(8) same_meeting_ui]) simp

lemma clicked_kept:
  "same_meeting a (fst (back_to_lobby a))" "same_meeting a (fst (toggleRecording support a))"
  "same_meeting a (fst (camera_selected t a))" "same_meeting a (fst (microphone_selected n t a))"
  by (simp_all add: back_to_lobby_def toggleRecording_def camera_selected_def microphone_selected_def same_meeting_def
      with_ui_def split_beta)

lemma microphone_kept: "microphone_selected ctx t a = (b, es, returned) \<Longrightarrow> same_meeting a b"
  using clicked_kept(4) [of a ctx t] by simp

lemma captured_kept: "same_meeting a (fst (preview_captured v results a))"
proof -
  have "same_meeting a (finish_video x (finish_mute y (a\<lparr>ap_devices := d\<rparr>)))" for x y d
    by (rule same_meeting_trans [OF same_meeting_fields(1) same_meeting_trans [OF finish_kept(1) finish_kept(2)]])
  then show ?thesis by (simp add: preview_captured_def Let_def split_beta)
qed

lemma screen_begin_kept: "stopScreenShare_begin hs a = (b, es, r) \<Longrightarrow> same_meeting a b"
  using publish_kept [of a _ hs] by (fastforce simp: stopScreenShare_begin_def Let_def split_beta split: option.splits list.splits)

lemma share_failed_kept: "same_meeting a (share_failed message a)"
  unfolding share_failed_def by (rule same_meeting_ui) simp

lemma screen_stops_kept:
  "screen_ended message hs a = (b, es, r) \<Longrightarrow> same_meeting a b"
  "toggleScreenShare message hs a = Some (b, es, r) \<Longrightarrow> same_meeting a b"
  by (auto simp: screen_ended_def toggleScreenShare_def split: prod.splits sharing.splits if_splits
      dest: screen_begin_kept intro: same_meeting_trans [OF _ share_failed_kept])

lemma screen_given_kept:
  assumes "screen_given message hs got a = (b, es, r)"
  shows "same_meeting a b"
proof -
  let ?a = "a\<lparr>ap_devices := startScreenShare_end got (ap_devices a)\<rparr>"
  have "same_meeting a (fst (publish hs s old new ?a))" if "ap_webrtc a = Some s" for s old new
    by (rule same_meeting_trans [OF same_meeting_fields(1) publish_kept]) (simp add: that)
  moreover have "same_meeting a (share_failed message ?a)"
    by (rule same_meeting_trans [OF same_meeting_fields(1) share_failed_kept])
  ultimately show ?thesis using assms by (auto simp: screen_given_def Let_def split_beta split: option.splits)
qed

lemma screen_shown_kept:
  "same_meeting a (screen_published old new a)" "same_meeting a (fst (stopScreenShare_end old new a))"
  by (simp_all add: screen_published_def stopScreenShare_end_def split_beta same_meeting_def with_ui_def)

lemma meter_kept:
  "same_meeting a (update_audio f a)"
  "same_meeting a (fst (preview_ready ordinal ctx f found a))"
  by (simp_all add: update_audio_def preview_ready_def same_meeting_def with_ui_def
      populateDeviceSelectors_def Let_def split_beta)

lemma control_kept: "control_step c ev d \<Longrightarrow> of_room ev \<Longrightarrow> same_meeting (ct_app c) (ct_app d)"
  by (induction rule: control_step.induct)
    (simp_all add: on_app_def toggleMute_def toggleVideo_def published_kept clicked_kept captured_kept given_kept
      screen_stops_kept screen_given_kept screen_shown_kept meter_kept share_rejected_kept microphone_kept)

lemma run_call_kept: "same_meeting a (fst (run_call st msg e a))"
  by (cases "(st, msg, e, a)" rule: run_call.cases)
    (auto simp: onRemoteTrack_def session_error_def intro: same_meeting_ui split: option.splits sum.splits)

lemma run_calls_kept: "same_meeting a (fst (run_calls st msg es a))"
  by (induction es arbitrary: a) (auto simp: split_beta intro: same_meeting_trans [OF run_call_kept])

section \<open>The socket\<close>

definition socket_of :: "nat \<Rightarrow> app \<Rightarrow> ready_state option" where
  "socket_of w a = (case ap_signaling a of Some c \<Rightarrow> if cl_ws c = Some w then client_ready c else None | None \<Rightarrow> None)"

lemma page_open_socket: "page_open w a \<longleftrightarrow> socket_of w a = Some OPEN"
  and page_dialing_socket: "page_dialing w a \<longleftrightarrow> socket_of w a = Some CONNECTING"
  by (auto simp: page_open_def page_dialing_def socket_of_def split: option.split)

text \<open>The page leaves its socket alone or closes it.\<close>

definition shuts :: "nat \<Rightarrow> app \<Rightarrow> app \<Rightarrow> bool" where
  "shuts w a b \<longleftrightarrow> socket_of w b \<in> {socket_of w a, map_option close_ready (socket_of w a)}"

lemma close_ready_twice [simp]: "close_ready (close_ready r) = close_ready r"
  by (cases r) simp_all

lemma shuts_refl [simp]: "shuts w a a"
  by (simp add: shuts_def)

lemma shuts_trans: "shuts w a b \<Longrightarrow> shuts w b c \<Longrightarrow> shuts w a c"
  by (auto simp: shuts_def option.map_comp comp_def)

lemma shuts_same: "ap_signaling b = ap_signaling a \<Longrightarrow> shuts w a b"
  by (simp add: shuts_def socket_of_def)

lemma client_handlers_sockets [simp]:
  "cl_ws (webrtc_off c) = cl_ws c" "cl_sockets (webrtc_off c) = cl_sockets c"
  "cl_ws (webrtc_on c) = cl_ws c" "cl_sockets (webrtc_on c) = cl_sockets c"
  by (simp_all add: webrtc_off_def webrtc_on_def signal_types_def client_off_def client_on_def)

lemma disconnect_ready:
  "cl_ws (disconnect c) = cl_ws c" "client_ready (disconnect c) = map_option close_ready (client_ready c)"
  by (auto simp: disconnect_def client_ready_def with_socket_def Let_def option.map_comp comp_def split: option.split)

lemma webrtc_off_ready: "client_ready (webrtc_off c) = client_ready c" "client_ready (webrtc_on c) = client_ready c"
  by (simp_all add: client_ready_def split: option.split)

lemma leave_signaling: "\<exists>f. ap_signaling (fst (leaveRoom a)) = map_option (disconnect \<circ> f) (ap_signaling a) \<and> f \<in> {id, webrtc_off}"
  by (cases "ap_webrtc a")
    (auto simp: leaveRoom_def Let_def split_beta option.map_comp comp_def intro: exI [of _ id] exI [of _ webrtc_off])

lemma leave_socket: "socket_of w (fst (leaveRoom a)) = map_option close_ready (socket_of w a)"
  using leave_signaling [of a]
  by (auto simp: socket_of_def disconnect_ready webrtc_off_ready split: option.split)

lemma shuts_leave: "shuts w a (fst (leaveRoom a))"
  by (simp add: shuts_def leave_socket)

lemma shuts_failed: "shuts w a (fst (join_failed err a))"
  unfolding join_failed_def join_caught_def by (rule shuts_trans [OF shuts_same shuts_leave]) simp

lemma join_failed_socket: "socket_of w (fst (join_failed err a)) = map_option close_ready (socket_of w a)"
  unfolding join_failed_def join_caught_def leave_socket by (simp add: socket_of_def)

lemma app_add_signaling [simp]: "ap_signaling (app_add p a) = ap_signaling a"
  and app_remove_signaling [simp]: "ap_signaling (app_remove i a) = ap_signaling a"
proof -
  have "ap_signaling (fold run_room_listener cs b) = ap_signaling b" for cs b
    by (induction cs arbitrary: b) simp_all
  then show "ap_signaling (app_add p a) = ap_signaling a" "ap_signaling (app_remove i a) = ap_signaling a"
    by (simp_all add: app_add_def app_remove_def split_beta)
qed

lemma fold_add_signaling [simp]: "ap_signaling (fold app_add ps a) = ap_signaling a"
  by (induction ps arbitrary: a) simp_all

lemma shuts_client: "(\<And>c. ap_signaling a = Some c \<Longrightarrow> ap_signaling b = Some (f c)) \<Longrightarrow> (ap_signaling a = None \<Longrightarrow> ap_signaling b = None) \<Longrightarrow>
    (\<And>c. cl_ws (f c) = cl_ws c \<and> client_ready (f c) = client_ready c) \<Longrightarrow> shuts w a b"
  by (cases "ap_signaling a") (simp_all add: shuts_def socket_of_def)

lemma request_keeps_sockets: "cl_ws (fst (sendRequest c i ty pl)) = cl_ws c" "cl_sockets (fst (sendRequest c i ty pl)) = cl_sockets c"
  by (simp_all add: sendRequest_def Let_def with_request_def drop_pending_def split: sum.split)

lemma join_connected_socket: "socket_of w (fst (join_connected i a)) = socket_of w a"
  by (cases "ap_signaling a") (simp_all add: join_connected_def socket_of_def Let_def split_beta client_ready_def request_keeps_sockets split: option.split)

lemma join_answered_socket: "socket_of w (join_answered v a) = socket_of w a"
  by (cases "ap_signaling a") (simp_all add: join_answered_def socket_of_def Let_def webrtc_off_ready)

lemma shuts_settle: "shuts w a (fst (settle_join j a))"
  using shuts_failed [of w a]
  by (auto simp: settle_join_def shuts_def join_connected_socket join_answered_socket split: join_await.split option.split outcome.split)

lemma shuts_listener: "shuts w a (fst (run_signal_listener h v a))"
proof (cases h)
  case OnLeft
  then show ?thesis by (auto simp: split_beta Let_def intro: shuts_same split: option.split)
next
  case OnDisconnected
  have "shuts w a (with_ui f (fst (leaveRoom a)))" for f by (rule shuts_trans [OF shuts_leave shuts_same]) simp
  with OnDisconnected show ?thesis by (simp add: split_beta)
qed (auto intro: shuts_same simp: Let_def)

lemma shuts_outs: "shuts w a (fst (run_outs outs a))"
proof (induction outs arbitrary: a)
  case (Cons x outs)
  show ?case using Cons shuts_trans [OF shuts_listener Cons] by (cases x) (auto simp: split_beta)
qed simp

text \<open>What the events of the socket do to it.\<close>

lemma settles_socket: "ap_signaling a = Some c \<Longrightarrow> socket_of w (fst (app_settles j f a)) \<in>
    {socket_of w (a\<lparr>ap_signaling := Some (f c)\<rparr>), map_option close_ready (socket_of w (a\<lparr>ap_signaling := Some (f c)\<rparr>))}"
  using shuts_settle [of w "a\<lparr>ap_signaling := Some (f c)\<rparr>" j] by (simp add: app_settles_def shuts_def)

lemma with_socket_ws [simp]: "cl_ws (with_socket n f c) = cl_ws c"
  by (simp add: with_socket_def)

lemma with_socket_ready:
  "(\<And>s. so_ready (f s) = so_ready s) \<Longrightarrow> client_ready (with_socket n f c) = client_ready c"
  by (auto simp: with_socket_def client_ready_def option.map_comp comp_def split: option.split)

lemma onmessage_socket: "cl_ws (fst (onmessage c m)) = cl_ws c" "client_ready (fst (onmessage c m)) = client_ready c"
  by (simp_all add: onmessage_def handleMessage_state with_request_def drop_pending_def client_ready_def split: option.split)

lemma close_ready_not_connecting [simp]: "close_ready r \<noteq> CONNECTING"
  by (cases r) simp_all

text \<open>A socket that is closed by a step is neither open nor connecting; the other steps leave it alone.\<close>

definition closes :: "nat \<Rightarrow> app \<Rightarrow> bool" where
  "closes w b \<longleftrightarrow> socket_of w b \<notin> {Some OPEN, Some CONNECTING}"

lemma closes_ready: "socket_of w b = map_option close_ready r \<Longrightarrow> closes w b"
  by (cases r) (simp_all add: closes_def)

lemma shuts_closes: "shuts w a b \<Longrightarrow> socket_of w b = socket_of w a \<or> closes w b"
  by (auto simp: shuts_def intro: closes_ready)

lemma shuts_closed: "closes w a \<Longrightarrow> shuts w a b \<Longrightarrow> closes w b"
  using shuts_closes [of w a b] unfolding closes_def by presburger

lemma settles_same:
  assumes "ap_signaling a = Some c" and "client_ready (f c) = client_ready c" and "cl_ws (f c) = cl_ws c"
  shows "socket_of w (fst (app_settles j f a)) = socket_of w a \<or> closes w (fst (app_settles j f a))"
  using settles_socket [OF assms(1), of w j f] assms
  by (auto simp: socket_of_def split: if_splits intro: closes_ready)

lemma settles_closes:
  assumes "ap_signaling a = Some c" and "client_ready (f c) \<notin> {Some OPEN, Some CONNECTING}"
  shows "closes w (fst (app_settles j f a))"
proof -
  have "closes w (a\<lparr>ap_signaling := Some (f c)\<rparr>)" using assms(2) by (auto simp: closes_def socket_of_def)
  moreover have "shuts w (a\<lparr>ap_signaling := Some (f c)\<rparr>) (fst (app_settles j f a))"
    using shuts_settle [of w "a\<lparr>ap_signaling := Some (f c)\<rparr>" j] assms(1) by (simp add: app_settles_def)
  ultimately show ?thesis by (rule shuts_closed)
qed

lemma onclose_socket: "cl_ws (fst (onclose n c)) = cl_ws c" "cl_ws c = Some n \<Longrightarrow> client_ready (fst (onclose n c)) \<notin> {Some OPEN, Some CONNECTING}"
  by (auto simp: onclose_def Let_def client_ready_def with_socket_def)

lemma app_frame_socket: "socket_of w (fst (app_frame j m a)) = socket_of w a \<or> closes w (fst (app_frame j m a))"
proof (cases "ap_signaling a")
  case (Some c)
  let ?b = "a\<lparr>ap_signaling := Some (fst (onmessage c (Some m)))\<rparr>"
  have "shuts w ?b (fst (app_frame j m a))"
    using shuts_trans [OF shuts_outs shuts_settle] Some by (simp add: app_frame_def split_beta)
  moreover have "socket_of w ?b = socket_of w a" using Some by (simp add: socket_of_def onmessage_socket)
  ultimately show ?thesis using shuts_closes by metis
qed (simp add: app_frame_def)

lemma app_closed_socket: "socket_of w a \<noteq> None \<Longrightarrow> closes w (fst (app_closed j w a))"
proof -
  assume "socket_of w a \<noteq> None"
  then obtain c where c: "ap_signaling a = Some c" "cl_ws c = Some w" by (auto simp: socket_of_def split: option.splits if_splits)
  let ?b = "a\<lparr>ap_signaling := Some (fst (onclose w c))\<rparr>"
  have "shuts w ?b (fst (app_closed j w a))"
    using shuts_trans [OF shuts_outs shuts_settle] c by (simp add: app_closed_def split_beta)
  moreover have "closes w ?b" using onclose_socket(1) [where n = w and c = c] onclose_socket(2) [OF c(2)] c by (auto simp: closes_def socket_of_def)
  ultimately show ?thesis using shuts_closed by blast
qed

lemma step_socket:
  assumes "page_step w a (ev, ms) b"
  shows "(\<exists>j. ev = Opens j) \<or> closes w b \<or> socket_of w b = socket_of w a \<and> (\<forall>j. ev \<noteq> Lost j \<and> ev \<noteq> DialTimeout j) \<and> ev \<noteq> Leave"
  using assms
proof cases
  case (page_takes j m es)
  then show ?thesis using app_frame_socket [of w j m a] by auto
next
  case (page_errs j es)
  then obtain c where "ap_signaling a = Some c" by (auto simp: page_open_def page_dialing_def)
  moreover have "client_ready (onerror w c) = client_ready c" "cl_ws (onerror w c) = cl_ws c"
    by (simp_all add: onerror_def with_socket_ready)
  ultimately show ?thesis using settles_same [of a c "onerror w" w j] page_errs by (auto simp: app_errored_def)
next
  case (page_lost j es)
  then show ?thesis using app_closed_socket [of w a j] by (auto simp: page_open_socket page_dialing_socket)
next
  case (page_dial_timeout c so j es)
  have "client_ready (connect_timeout w c) = map_option close_ready (client_ready (with_socket w (\<lambda>s. s\<lparr>so_timer := False,
      so_promise := settle (so_promise s) (Rejected (Str (js ''Connection timed out'')))\<rparr>) c))"
    unfolding connect_timeout_def by (rule disconnect_ready(2))
  then have "client_ready (connect_timeout w c) \<notin> {Some OPEN, Some CONNECTING}" by auto
  then show ?thesis
    using settles_closes [OF page_dial_timeout(3), of "connect_timeout w" w j] page_dial_timeout by (auto simp: app_connect_timeout_def)
next
  case (page_ask_timeout c i r j es)
  have "client_ready (request_timeout i c) = client_ready c" "cl_ws (request_timeout i c) = cl_ws c"
    by (simp_all add: request_timeout_def with_request_def drop_pending_def client_ready_def split: option.split)
  then show ?thesis
    using settles_same [OF page_ask_timeout(3), of "request_timeout i" w j] page_ask_timeout by (auto simp: app_request_timeout_def)
next
  case (page_peers s e cs t st msg es)
  then have "b = fst (run_calls st msg cs (a\<lparr>ap_webrtc := Some t\<rparr>))" by simp
  then have "ap_signaling b = ap_signaling a"
    using run_calls_kept [of "a\<lparr>ap_webrtc := Some t\<rparr>" st msg cs] by (simp add: same_meeting_def)
  then show ?thesis using page_peers by (simp add: socket_of_def)
next
  case (page_controls c ev d)
  then show ?thesis using control_kept [OF page_controls(5,6)] page_controls by (simp add: same_meeting_def socket_of_def)
next
  case (page_leaves es)
  then show ?thesis using leave_socket [of w a] closes_ready by (metis fst_conv)
qed auto

lemma step_open:
  assumes "page_step w a (ev, ms) b" and "page_open w a" and "page_open w b"
  shows "(\<forall>j. ev \<noteq> Opens j \<and> ev \<noteq> Lost j \<and> ev \<noteq> DialTimeout j) \<and> ev \<noteq> Leave"
proof -
  have "ev \<noteq> Opens j" for j using assms(1,2) by (auto simp: page_open_socket page_dialing_socket elim: page_openE)
  with step_socket [OF assms(1)] assms(3) show ?thesis by (auto simp: closes_def page_open_socket)
qed

section \<open>A page in the meeting\<close>

lemma same_meeting_in: "same_meeting a b \<Longrightarrow> in_meeting a ps \<Longrightarrow> in_meeting b ps"
  by (auto simp: in_meeting_def same_meeting_def shows_roster_def)

lemma client_steps_listeners [simp]:
  "cl_listeners (onerror n c) = cl_listeners c" "cl_listeners (request_timeout i c) = cl_listeners c"
  "cl_listeners (onopen n c) = cl_listeners c"
  by (simp_all add: onerror_def request_timeout_def onopen_def with_socket_def with_request_def drop_pending_def)

lemma settles_in:
  assumes "in_meeting a ps" and "\<And>c. cl_listeners (f c) = cl_listeners c"
  shows "in_meeting (fst (app_settles j f a)) ps \<and> ap_room (fst (app_settles j f a)) = ap_room a"
proof -
  from assms(1) obtain c where c: "ap_signaling a = Some c" "listeners_ok c" by (auto simp: in_meeting_def)
  have "listeners_ok (f c)" using listeners_ok_cong [of "f c" c] assms(2) c(2) by simp
  with assms(1) c(1) show ?thesis by (simp add: app_settles_def settle_join_def in_meeting_def)
qed

text \<open>As long as its socket stays open, nothing but a frame changes the list a page in the meeting shows.\<close>

lemma meeting_step:
  assumes "page_step w a (ev, ms) b" and "in_meeting a ps" and "page_open w a" and "page_open w b" and no_frame: "\<And>j m. ev \<noteq> Take j m"
  shows "in_meeting b ps \<and> rs_localParticipantId (ap_room b) = rs_localParticipantId (ap_room a)"
proof -
  note no = step_open [OF assms(1,3,4)]
  from assms(1) show ?thesis
  proof cases
    case (page_errs j es)
    then show ?thesis using settles_in [OF assms(2), of "onerror w" j] by (simp add: app_errored_def)
  next
    case (page_ask_timeout c i r j es)
    then show ?thesis using settles_in [OF assms(2), of "request_timeout i" j] by (simp add: app_request_timeout_def)
  next
    case (page_peers s e cs t st msg es)
    then have "same_meeting a (a\<lparr>ap_webrtc := Some t\<rparr>)" and "b = fst (run_calls st msg cs (a\<lparr>ap_webrtc := Some t\<rparr>))" by simp_all
    then have "same_meeting a b" using same_meeting_trans run_calls_kept by blast
    with assms(2) show ?thesis using same_meeting_in by (auto simp: same_meeting_def)
  next
    case (page_controls c e d)
    then show ?thesis using control_kept [OF page_controls(5,6)] same_meeting_in assms(2) by (auto simp: same_meeting_def)
  qed (use no no_frame assms(2) in auto)
qed

section \<open>A page on its way into the meeting\<close>

text \<open>No session listens to its client; it has opened its socket and asked, under the id \<open>i\<close>.\<close>

definition unwired :: "signal_listener client \<Rightarrow> bool" where
  "unwired c \<longleftrightarrow> (\<forall>ty. set (client_calls c ty) \<inter> range OnWebrtc = {}) \<and> (\<forall>mt \<in> set signal_types. client_calls c (js mt) = [])"

lemma unwired_cong: "cl_listeners d = cl_listeners c \<Longrightarrow> unwired d = unwired c"
  by (simp add: unwired_def client_calls_def)

definition asking :: "jstring \<Rightarrow> app \<Rightarrow> bool" where
  "asking i a \<longleftrightarrow> joining a i \<and> ap_webrtc a = None \<and> (\<forall>c. ap_signaling a = Some c \<longrightarrow> unwired c)"

text \<open>Frames other than requests to join: what the server does not answer under an id.\<close>

definition plain_frame :: "jsval \<Rightarrow> bool" where
  "plain_frame m \<longleftrightarrow> request_id m = Undefined \<and>
     get_prop m (js ''type'') \<notin> Str ` {js ''ping'', js ''room.create'', js ''room.join''}"

lemma same_meeting_asking: "same_meeting a b \<Longrightarrow> asking i a \<Longrightarrow> asking i b"
  by (auto simp: asking_def joining_def same_meeting_def shows_roster_def)

lemma chat_plain: "sendChat field a = Inr es \<Longrightarrow> m \<in> set (frames_on w es) \<Longrightarrow> plain_frame m"
  by (auto simp: sendChat_def client_send_def plain_frame_def request_id_def get_prop_wire_envelope Let_def
      split: option.splits if_splits sum.splits)

lemma asking_settles:
  assumes "asking i a" and f: "\<And>c. cl_listeners (f c) = cl_listeners c"
    and "\<And>c. i \<in> set (cl_pending c) \<Longrightarrow> i \<in> set (cl_pending (f c)) \<and> cl_requests (f c) i = cl_requests c i"
  shows "app_settles j f a = (a\<lparr>ap_signaling := map_option f (ap_signaling a)\<rparr>, [])"
    and "asking i (a\<lparr>ap_signaling := map_option f (ap_signaling a)\<rparr>)"
proof -
  from assms(1) obtain c r where c: "ap_signaling a = Some c" "listeners_ok c" "i \<in> set (cl_pending c)" "cl_requests c i = Some r"
    "rq_promise r = Pending" and await: "ap_await a = AwaitJoin i" by (auto simp: asking_def joining_def)
  have "listeners_ok (f c)" "unwired (f c)"
    using listeners_ok_cong [of "f c" c] unwired_cong [of "f c" c] f c(1,2) assms(1) by (simp_all add: asking_def)
  with c await assms(1,3) show "app_settles j f a = (a\<lparr>ap_signaling := map_option f (ap_signaling a)\<rparr>, [])"
    "asking i (a\<lparr>ap_signaling := map_option f (ap_signaling a)\<rparr>)"
    by (simp_all add: app_settles_def settle_join_def asking_def joining_def)
qed

lemma request_timeout_other:
  "k \<noteq> i \<Longrightarrow> i \<in> set (cl_pending c) \<Longrightarrow> i \<in> set (cl_pending (request_timeout k c)) \<and> cl_requests (request_timeout k c) i = cl_requests c i"
  by (simp add: request_timeout_def with_request_def drop_pending_def)

lemma request_timeout_gives_up:
  assumes "asking i a" and "ap_signaling a = Some c"
  shows "closes w (fst (app_request_timeout j i a))"
proof -
  from assms obtain r where "cl_requests c i = Some r" "rq_promise r = Pending" "ap_await a = AwaitJoin i"
    by (auto simp: asking_def joining_def)
  then have "fst (app_request_timeout j i a) = fst (join_failed (Str (js ''Request '' @ rq_type r @ js '' timed out''))
      (a\<lparr>ap_signaling := Some (request_timeout i c)\<rparr>))"
    using assms(2) by (simp add: app_request_timeout_def app_settles_def settle_join_def request_timeout_def with_request_def
        drop_pending_def finish_def settle_request_def)
  then show ?thesis using join_failed_socket closes_ready by metis
qed

lemma asking_step:
  assumes "page_step w a (ev, ms) b" and "asking i a" and "page_open w a" and "page_open w b" and no_frame: "\<And>j m. ev \<noteq> Take j m"
  shows "asking i b \<and> list_all plain_frame ms"
proof -
  note no = step_open [OF assms(1,3,4)]
  from assms(1) show ?thesis
  proof cases
    case (page_errs j es)
    then show ?thesis
      using asking_settles [OF assms(2), where f = "onerror w"] by (simp add: app_errored_def) (simp add: onerror_def with_socket_def)
  next
    case (page_ask_timeout c k r j es)
    have "k \<noteq> i"
      using request_timeout_gives_up [OF assms(2), of c w j] page_ask_timeout assms(4) by (auto simp: closes_def page_open_socket)
    then show ?thesis
      using asking_settles [OF assms(2) client_steps_listeners(2) request_timeout_other [OF \<open>k \<noteq> i\<close>]] page_ask_timeout
      by (simp add: app_request_timeout_def)
  next
    case (page_chats field es)
    then show ?thesis using chat_plain assms(2) by (auto simp: list_all_iff)
  next
    case (page_peers s e cs t st msg es)
    then show ?thesis using assms(2) by (simp add: asking_def)
  next
    case (page_controls c e d)
    then show ?thesis using control_kept [OF page_controls(5,6)] same_meeting_asking assms(2) by auto
  qed (use no no_frame assms(2) in auto)
qed

text \<open>A refusal it takes: under another id it does not matter, under \<open>i\<close> the page gives up.\<close>

definition refusal :: "jsval \<Rightarrow> bool" where
  "refusal m \<longleftrightarrow> msg_type m = Str (js ''error'') \<and> \<not> nullish (get_prop m (js ''payload''))"

lemma onmessage_other_request:
  assumes "msg_request m \<noteq> Str i" and "i \<in> set (cl_pending c)"
  shows "i \<in> set (cl_pending (fst (onmessage c (Some m)))) \<and> cl_requests (fst (onmessage c (Some m))) i = cl_requests c i"
proof (cases "pending_request c (get_prop m (js ''requestId''))")
  case (Some k)
  then have "k \<noteq> i"
    using assms(1) by (cases "get_prop m (js ''requestId'')") (auto simp: msg_request_def split: if_splits)
  with Some assms(2) show ?thesis
    by (auto simp: onmessage_def handleMessage_def Let_def with_request_def drop_pending_def)
qed (use assms(2) in \<open>simp add: onmessage_def handleMessage_def Let_def\<close>)

lemma onmessage_refused:
  assumes "refusal m" and "msg_request m = Str i" and "i \<in> set (cl_pending c)" and "cl_requests c i = Some r" and "rq_promise r = Pending"
  shows "\<exists>r err. cl_requests (fst (onmessage c (Some m))) i = Some r \<and> rq_promise r = Rejected err"
proof -
  have "\<not> nullish m" using assms(1) by (auto simp: refusal_def nullish_def msg_type_def get_prop.simps)
  moreover have "get_prop m (js ''requestId'') = Str i" using assms(2) by (simp add: msg_request_def)
  ultimately show ?thesis
    using assms by (simp add: onmessage_def handleMessage_def Let_def with_request_def drop_pending_def settle_request_def refusal_def msg_type_def)
qed

text \<open>The listeners of a frame of the type \<open>error\<close> change no more than a notice.\<close>

lemma quiet_signals: "\<forall>h \<in> set hs. quiet h \<Longrightarrow> frames_on w (snd (run_outs (map (\<lambda>h. CallListener h v) hs) a)) = [] \<and>
    (ap_webrtc a = None \<longrightarrow> ap_webrtc (fst (run_outs (map (\<lambda>h. CallListener h v) hs) a)) = None)"
proof (induction hs arbitrary: a)
  case (Cons h hs)
  have "snd (run_signal_listener h v a) = [] \<and> (ap_webrtc a = None \<longrightarrow> ap_webrtc (fst (run_signal_listener h v a)) = None)"
    using Cons.prems by (cases h) (auto simp: quiet_def with_ui_def)
  with Cons.IH [of "fst (run_signal_listener h v a)"] Cons.prems show ?case by (simp add: split_beta)
qed simp

lemma asking_takes_refusal:
  assumes "asking i a" and "refusal m"
  shows "if msg_request m = Str i then closes w (fst (app_frame j m a))
    else asking i (fst (app_frame j m a)) \<and> frames_on w (snd (app_frame j m a)) = []"
proof -
  from assms(1) obtain c r where c: "ap_signaling a = Some c" "listeners_ok c" and i: "i \<in> set (cl_pending c)" "cl_requests c i = Some r"
    "rq_promise r = Pending" and sh: "shows_roster a []" and await: "ap_await a = AwaitJoin i" and no_session: "ap_webrtc a = None"
    by (auto simp: asking_def joining_def)
  have ty: "msg_type m = Str (js ''error'')" using assms(2) by (simp add: refusal_def)
  let ?c1 = "fst (onmessage c (Some m))" and ?outs = "snd (onmessage c (Some m))" and ?v = "get_prop m (js ''payload'')"
  let ?a1 = "a\<lparr>ap_signaling := Some ?c1\<rparr>" let ?b = "fst (run_outs ?outs ?a1)"
  have other: "msg_type m \<noteq> Str (js ''participant.joined'')" "msg_type m \<noteq> Str (js ''participant.left'')"
    "msg_type m \<noteq> Str (js ''disconnected'')" by (simp_all add: ty)
  obtain hs where hs: "?outs = map (\<lambda>h. CallListener h ?v) hs" "\<forall>h \<in> set hs. quiet h"
    using onmessage_outs [of c m] listeners_emit [OF c(2) other, of ?v] by (metis empty_iff list.set(1) list.simps(8))
  have b: "shows_roster ?b []" "ap_signaling ?b = Some ?c1" "ap_await ?b = AwaitJoin i"
    using quiet_outs [OF hs(2), of ?a1 "[]" ?v] sh await unfolding hs(1) by simp_all
  have frame: "app_frame j m a = (fst (settle_join j ?b), snd (run_outs ?outs ?a1) @ snd (settle_join j ?b))"
    by (simp add: app_frame_def c split_beta)
  have quiet: "frames_on w (snd (run_outs ?outs ?a1)) = []" "ap_webrtc ?b = None"
    using quiet_signals [OF hs(2), of w ?v ?a1] no_session unfolding hs(1) by simp_all
  show ?thesis
  proof (cases "msg_request m = Str i")
    case True
    from onmessage_refused [OF assms(2) True i] obtain err where "fst (settle_join j ?b) = fst (join_failed err ?b)"
      using b by (auto simp: settle_join_def)
    with True frame show ?thesis using join_failed_socket closes_ready by (metis fst_conv)
  next
    case False
    have kept: "i \<in> set (cl_pending ?c1)" "cl_requests ?c1 i = Some r" using onmessage_other_request [OF False i(1)] i(2) by simp_all
    have settled: "settle_join j ?b = (?b, [])" using b kept i(3) by (simp add: settle_join_def)
    have "listeners_ok ?c1" "unwired ?c1" using c assms(1) by (simp_all add: listeners_ok_def asking_def unwired_def)
    with b kept i(3) quiet(2) have "asking i ?b" by (simp add: asking_def joining_def)
    with False quiet(1) settled show ?thesis by (simp add: frame)
  qed
qed

section \<open>A page that dials\<close>

text \<open>A page of the lobby, with no join under way.\<close>

definition in_lobby :: "app \<Rightarrow> bool" where
  "in_lobby a \<longleftrightarrow> shows_roster a [] \<and> ap_webrtc a = None \<and> ap_await a = AwaitNothing"

definition dialing :: "nat \<Rightarrow> app \<Rightarrow> bool" where
  "dialing w a \<longleftrightarrow> shows_roster a [] \<and> ap_webrtc a = None \<and> ap_await a = AwaitConnect w \<and>
     (\<exists>c so. ap_signaling a = Some c \<and> listeners_ok c \<and> unwired c \<and> cl_ws c = Some w \<and> cl_sockets c w = Some so \<and>
        so_promise so = Pending \<and> cl_requests c = Map.empty \<and> cl_pending c = [])"

lemma init_in_lobby: "in_lobby init_app"
  using demo_page_room by (simp add: in_lobby_def shows_roster_def)
    (simp add: init_app_def initial_ui_def getAllParticipants_def listed_def room_on_def new_RoomState_def)

lemma same_meeting_lobby: "same_meeting a b \<Longrightarrow> in_lobby a \<Longrightarrow> in_lobby b"
  by (auto simp: in_lobby_def same_meeting_def shows_roster_def)

lemma left_in_lobby: "room_listeners_ok (ap_room a) \<Longrightarrow> ap_await a = AwaitNothing \<Longrightarrow> in_lobby (fst (leaveRoom a))"
  by (simp add: in_lobby_def shows_roster_def leaveRoom_def Let_def split_beta room_clear_def getAllParticipants_def listed_def
      room_listeners_ok_def room_state_ok_def chat_clear_def)

lemma setup_handlers_unwired: "unwired (setup_handlers new_SignalingClient)"
  by (auto simp: unwired_def setup_handlers_def signal_types_def client_calls_on client_events.calls_none split: if_splits)

lemma lobby_dials:
  assumes "in_lobby a"
  shows "dialing w (fst (onJoinRoom w a)) \<and> page_dialing w (fst (onJoinRoom w a))"
proof -
  let ?c = "client_connect w (setup_handlers new_SignalingClient)"
  have listeners: "cl_listeners ?c = cl_listeners (setup_handlers new_SignalingClient)" by (simp add: client_connect_def)
  have "listeners_ok ?c" "unwired ?c"
    using setup_handlers_ok setup_handlers_unwired listeners_ok_cong [OF listeners] unwired_cong [OF listeners] by simp_all
  moreover have "ap_signaling (fst (onJoinRoom w a)) = Some ?c" by (simp add: onJoinRoom_def Let_def)
  moreover have "cl_requests ?c = Map.empty" "cl_pending ?c = []" "cl_ws ?c = Some w"
    "cl_sockets ?c w = Some \<lparr>so_ready = CONNECTING, so_promise = Pending, so_timer = True\<rparr>"
    by (simp_all add: client_connect_def setup_handlers_fields) (simp_all add: new_SignalingClient_def)
  moreover have "shows_roster (fst (onJoinRoom w a)) []" "ap_webrtc (fst (onJoinRoom w a)) = None"
    "ap_await (fst (onJoinRoom w a)) = AwaitConnect w"
    using assms by (simp_all add: in_lobby_def onJoinRoom_def Let_def shows_roster_def)
  ultimately show ?thesis by (simp add: dialing_def page_dialing_def client_ready_def)
qed

text \<open>The socket opens: the page asks to join, once.\<close>

definition asks_to_join :: "jstring \<Rightarrow> jsval \<Rightarrow> bool" where
  "asks_to_join i m \<longleftrightarrow> request_id m = Str i \<and> get_prop m (js ''type'') = Str (js ''room.join'')"

definition join_frame :: "app \<Rightarrow> jstring \<Rightarrow> jsval" where
  "join_frame a i = wire (envelope (js ''room.join'')
     (Obj [(js ''roomId'', Str (ap_roomId a)), (js ''displayName'', Str (ap_displayName a))]) (Str i))"

lemma join_frame_asks: "asks_to_join i (join_frame a i)"
  by (simp add: join_frame_def asks_to_join_def request_id_wire get_prop_wire_envelope Let_def del: wire.simps) simp

lemma dialing_opens:
  assumes "dialing w a"
  shows "asking j (fst (app_opened j w a)) \<and> page_open w (fst (app_opened j w a)) \<and>
    frames_on w (snd (app_opened j w a)) = [join_frame a j]"
proof -
  from assms obtain c so where c: "ap_signaling a = Some c" "listeners_ok c" "cl_ws c = Some w" "cl_sockets c w = Some so"
    "so_promise so = Pending" "cl_requests c = Map.empty" "cl_pending c = []" "unwired c" and sh: "shows_roster a []"
    and await: "ap_await a = AwaitConnect w" and ses: "ap_webrtc a = None" by (auto simp: dialing_def)
  let ?c1 = "onopen w c" let ?a1 = "a\<lparr>ap_signaling := Some ?c1\<rparr>"
  let ?pl = "Obj [(js ''roomId'', Str (ap_roomId a)), (js ''displayName'', Str (ap_displayName a))]"
  have c1: "cl_ws ?c1 = Some w" "client_ready ?c1 = Some OPEN" "cl_requests ?c1 = Map.empty" "cl_pending ?c1 = []"
    "map_option so_promise (cl_sockets ?c1 w) = Some (Resolved Undefined)" "listeners_ok ?c1" "unwired ?c1"
    using c listeners_ok_cong [of ?c1 c] unwired_cong [of ?c1 c] by (simp_all add: client_ready_def) (simp_all add: onopen_def with_socket_def)
  have opened: "app_opened j w a = join_connected j ?a1"
    using c await c1(5) by (auto simp: app_opened_def app_settles_def settle_join_def)
  let ?c2 = "?c1\<lparr>cl_requests := (cl_requests ?c1)(j \<mapsto> \<lparr>rq_type = js ''room.join'', rq_promise = Pending, rq_timer = True\<rparr>),
    cl_pending := [j]\<rparr>"
  have ready: "client_ready ?c2 = Some OPEN" using c1(1,2) by (simp add: client_ready_def)
  have sent: "sendRequest ?c1 j (js ''room.join'') ?pl = (?c2, [SendFrame w (wire (envelope (js ''room.join'') ?pl (Str j)))])"
    using c1(1,4) ready by (simp add: sendRequest_def client_send_def Let_def del: wire.simps)
  have b: "app_opened j w a = (?a1\<lparr>ap_signaling := Some ?c2, ap_await := AwaitJoin j\<rparr>,
      [ByClient (SendFrame w (wire (envelope (js ''room.join'') ?pl (Str j))))])"
    unfolding opened by (simp add: join_connected_def sent del: wire.simps)
  have "listeners_ok ?c2" "unwired ?c2" using c1(6,7) listeners_ok_cong [of ?c2 ?c1] unwired_cong [of ?c2 ?c1] by simp_all
  then have "asking j (fst (app_opened j w a))" using sh ses by (simp add: b asking_def joining_def)
  moreover have "page_open w (fst (app_opened j w a))" using ready c1(1) by (simp add: b page_open_def)
  ultimately show ?thesis by (simp add: b join_frame_def del: wire.simps)
qed

lemma same_meeting_dialing: "same_meeting a b \<Longrightarrow> dialing w a \<Longrightarrow> dialing w b"
  by (auto simp: dialing_def same_meeting_def shows_roster_def)

lemma dialing_errs:
  assumes "dialing w a"
  shows "closes w (fst (app_errored j w a))"
proof -
  from assms obtain c so where c: "ap_signaling a = Some c" "cl_sockets c w = Some so" "so_promise so = Pending"
    and await: "ap_await a = AwaitConnect w" by (auto simp: dialing_def)
  then have "fst (app_errored j w a) = fst (join_failed (Str (js ''Could not connect to meeting server'')) (a\<lparr>ap_signaling := Some (onerror w c)\<rparr>))"
    by (simp add: app_errored_def app_settles_def settle_join_def onerror_def with_socket_def)
  then show ?thesis using join_failed_socket closes_ready by metis
qed

text \<open>Anything else leaves it dialing or ends the attempt, and nothing goes out.\<close>

lemma dialing_step:
  assumes "page_step w a (ev, ms) b" and "dialing w a" and "page_dialing w a" and "\<And>j. ev \<noteq> Opens j"
  shows "closes w b \<or> dialing w b \<and> page_dialing w b \<and> ms = []"
  using assms(1)
proof cases
  case (page_takes j m es)
  with assms(3) show ?thesis by (simp add: page_open_socket page_dialing_socket)
next
  case (page_errs j es)
  then show ?thesis using dialing_errs [OF assms(2), of j] by simp
next
  case (page_ask_timeout c i r j es)
  then show ?thesis using assms(2) by (auto simp: dialing_def)
next
  case (page_chats field es)
  from assms(3) obtain c where "ap_signaling a = Some c" "client_ready c = Some CONNECTING" by (auto simp: page_dialing_def)
  with page_chats have "es = []" by (auto simp: sendChat_def client_send_def Let_def split: if_splits)
  with page_chats assms(2,3) show ?thesis by simp
next
  case (page_peers s e cs t st msg es)
  then show ?thesis using assms(2) by (simp add: dialing_def)
next
  case (page_controls c e d)
  then have kept: "same_meeting a b" using control_kept by blast
  then show ?thesis using same_meeting_dialing [OF kept assms(2)] assms(3) page_controls by (simp add: same_meeting_def page_dialing_def)
qed (use step_socket [OF assms(1)] assms(4) in auto)

end
