(* ===== verification/Network.thy ===== *)
theory Network
  imports Negotiation Page
begin

text \<open>
  The whole system as one machine: the server, the pages behind their sockets and the frames in
  flight. A socket carries frames both ways in the order they were sent and loses none while it
  stays open; nothing else is known about time, so the server, the pages and the frames run in any
  order. Sockets without a page are clients of any kind: they send what they like.
  A page dials when no join of its own is under way. What an earlier join may still do to it when it
  fails late (\<open>app_earlier\<close>, a defect: see \<open>earlier_join_ends_meeting\<close>) is not a step of this machine.
\<close>

section \<open>Steps\<close>

text \<open>\<open>nw_pages\<close> has the page whose socket is number \<open>w\<close>, \<open>nw_up\<close> and \<open>nw_down\<close> the frames on their way from
  it and to it.\<close>

record network =
  nw_server :: server
  nw_pages :: "nat \<rightharpoonup> app"
  nw_up :: "nat \<Rightarrow> jsval list"
  nw_down :: "nat \<Rightarrow> jsval list"

definition initial_network :: network where
  "initial_network = \<lparr>nw_server = initial_server, nw_pages = Map.empty, nw_up = (\<lambda>w. []), nw_down = (\<lambda>w. [])\<rparr>"

datatype network_event =
    Dials nat app
  | AtPage nat page_event "jsval list"
  | AtServer server_event "effect list"

text \<open>The server's part: \<open>ws\<close> announces a connection once its socket is open, and a message of a page is
  the first of the frames on their way from it.\<close>

fun source_ok :: "network \<Rightarrow> server_event \<Rightarrow> bool" where
  "source_ok N (Connect v now rs) =
     (OPEN \<le> rs \<and> (case nw_pages N v of None \<Rightarrow> True | Some a \<Rightarrow> page_dialing v a))"
| "source_ok N (Message v f d) =
     (case nw_pages N v of None \<Rightarrow> True | Some a \<Rightarrow> (case nw_up N v of [] \<Rightarrow> False | m # ms \<Rightarrow> f = Text (Some m)))"
| "source_ok N ev = True"

fun read_up :: "server_event \<Rightarrow> (nat \<Rightarrow> jsval list) \<Rightarrow> nat \<Rightarrow> jsval list" where
  "read_up (Message v f d) up = up(v := tl (up v))"
| "read_up ev up = up"

lemma read_up_if: "read_up ev up w = (if \<exists>f d. ev = Message w f d then tl (up w) else up w)"
  by (cases ev) auto

fun takes :: "page_event \<Rightarrow> jsval option" where
  "takes (Take j m) = Some m"
| "takes ev = None"

text \<open>A page dials on a socket that was never used; its socket opens once the server has the connection.\<close>

inductive network_step :: "config \<Rightarrow> network \<Rightarrow> network_event \<Rightarrow> network \<Rightarrow> bool" for cfg where
  dials: "nw_pages N w = None \<Longrightarrow> map_of (sv_clients (nw_server N)) w = None \<Longrightarrow> nw_up N w = [] \<Longrightarrow> nw_down N w = [] \<Longrightarrow>
    in_lobby a \<Longrightarrow> network_step cfg N (Dials w a) (N\<lparr>nw_pages := (nw_pages N)(w \<mapsto> fst (onJoinRoom w a))\<rparr>)"
| page_acts: "nw_pages N w = Some a \<Longrightarrow> page_step w a (ev, ms) b \<Longrightarrow> takes ev = None \<Longrightarrow>
    (\<And>j. ev = Opens j \<Longrightarrow> map_of (sv_clients (nw_server N)) w \<noteq> None) \<Longrightarrow>
    network_step cfg N (AtPage w ev ms) (N\<lparr>nw_pages := (nw_pages N)(w \<mapsto> b), nw_up := (nw_up N)(w := nw_up N w @ ms)\<rparr>)"
| page_reads: "nw_pages N w = Some a \<Longrightarrow> page_step w a (ev, ms) b \<Longrightarrow> takes ev = Some m \<Longrightarrow> nw_down N w = m # rest \<Longrightarrow>
    network_step cfg N (AtPage w ev ms) (N\<lparr>nw_pages := (nw_pages N)(w \<mapsto> b), nw_up := (nw_up N)(w := nw_up N w @ ms),
      nw_down := (nw_down N)(w := rest)\<rparr>)"
| serves: "server_step cfg (nw_server N) (ev, es) t \<Longrightarrow> source_ok N ev \<Longrightarrow>
    network_step cfg N (AtServer ev es) (N\<lparr>nw_server := t, nw_up := read_up ev (nw_up N),
      nw_down := (\<lambda>w. nw_down N w @ frames_to w es)\<rparr>)"

definition network_reachable :: "config \<Rightarrow> network \<Rightarrow> bool" where
  "network_reachable cfg = reachable (\<lambda>N. N = initial_network) (network_step cfg)"

section \<open>The server seen from one connection\<close>

lemma on_connection_of [simp]:
  "part_of (on_connection cfg v now rs s) w = (if w = v then None else part_of s w)"
  "ready_of (on_connection cfg v now rs s) w = (if w = v then rs else ready_of s w)"
  by (simp_all add: on_connection_def)

lemma on_server_error_part [simp]: "part_of (on_server_error s) = part_of s"
  by (simp add: on_server_error_def part_of_def fun_eq_iff)

lemma CLOSED_max [simp]: "r \<le> CLOSED"
  by (cases r) (simp_all add: less_eq_ready_state_def)

text \<open>The step of one connection leaves the seats of the others alone, and sockets only move towards closing.\<close>

lemma message_others:
  assumes "on_message cfg d s v c f = (t, es)" and "map_of (sv_clients s) v = Some c"
  shows "ready_of t = ready_of s" and "w \<noteq> v \<Longrightarrow> part_of t w = part_of s w"
proof -
  from assms(1) obtain c' where "ws_participant c' = ws_participant c" "ws_readyState c' = ws_readyState c"
    and "t = set_conn v c' s \<or> (\<exists>q. p_id q = uuid d \<and> seatable cfg (set_conn v c' s) v c' q \<and> t = take_seat (set_conn v c' s) v c' q)"
    by (rule on_message_state)
  with assms(2) show "ready_of t = ready_of s" "w \<noteq> v \<Longrightarrow> part_of t w = part_of s w"
    by (auto simp: fun_eq_iff ready_of_conn take_seat_part take_seat_ready)
qed

lemma close_others:
  assumes "on_close s v c = Some (t, es)"
  shows "part_of t w = (if w = v then None else part_of s w)" and "ready_of t w = (if w = v then CLOSED else ready_of s w)"
  using assms by (auto simp: on_close_def Let_def part_of_def ready_of_def map_of_delete_eq split: option.splits)

lemma ready_step:
  assumes "server_step cfg s (ev, es) t" and "\<And>now rs. ev \<noteq> Connect w now rs"
  shows "ready_of s w \<le> ready_of t w"
  using assms(1)
proof cases
  case (message v c d f)
  then show ?thesis using message_others(1) by simp
next
  case (close v c)
  then show ?thesis by (simp add: close_others)
next
  case (heartbeat)
  then have "t = fst (on_heartbeat s)" by simp
  then show ?thesis by (simp add: heartbeat_ready)
qed (use assms(2) in \<open>auto simp: close_others ready_of_conn on_server_error_def shutdown_def ready_of_def set_conn_def
    map_of_update_eq on_connection_def\<close>)
text \<open>A connection that has not joined hears nothing of the others, and stays unseated.\<close>

lemma frames_to_none: "(\<And>m. Send w m \<notin> set es) \<Longrightarrow> frames_to w es = []"
  by (metis frames_to_in list.set_intros(1) neq_Nil_conv)

lemma unseated_hears_nothing:
  assumes "server_reachable cfg s" and "server_step cfg s (ev, es) t" and "part_of s w = None" and "\<And>f d. ev \<noteq> Message w f d"
  shows "frames_to w es = [] \<and> part_of t w = None"
  using assms(2)
proof cases
  case (message v c d f)
  then have "v \<noteq> w" using assms(4) by blast
  then have t: "part_of t w = None" using message_others(2) [OF message(4,2), of w] assms(3) by simp
  have "Send w m \<notin> set es" for m
    using message_confined [OF assms(1) assms(2) [unfolded message(1)], of "Send w m"] \<open>v \<noteq> w\<close> t
    by (auto simp: same_room_def split: option.splits)
  with t show ?thesis using frames_to_none by blast
next
  case (close v c)
  have t: "part_of t w = None" using close_others(1) [OF close(3)] assms(3) by simp
  have "Send w m \<notin> set es" for m
  proof (cases "ws_participant c")
    case (Some q)
    then obtain room where room: "map_of (sv_rooms s) (p_roomId q) = Some room"
      and es: "es = broadcast_room (s\<lparr>sv_clients := AList.delete v (sv_clients s)\<rparr>) (AList.delete (p_id q) room) ''participant.left''
        (Obj [(js ''participantId'', Str (p_id q))]) None"
      using close(3) by (auto simp: on_close_def Let_def split: option.splits)
    have other: "p_ws p \<noteq> w" if "(i, p) \<in> set room" for i p
      using inv_member [OF server_reachable_inv [OF assms(1)] room that] assms(3) by auto
    show ?thesis unfolding es by (auto simp: broadcast_room_map open_members_def filter_distinct_update dest: other)
  qed (use close(3) in \<open>simp add: on_close_def\<close>)
  with t show ?thesis using frames_to_none by blast
next
  case (heartbeat)
  then have "t = fst (on_heartbeat s)" "es = snd (on_heartbeat s)" by simp_all
  then show ?thesis using assms(3) by (auto simp: heartbeat_part intro!: frames_to_none) (auto simp: on_heartbeat_def split: if_splits)
next
  case (stop)
  then show ?thesis using assms(3) by (auto simp: shutdown_def part_of_def intro!: frames_to_none)
qed (use assms(3) in \<open>auto simp: part_of_conn\<close>)

text \<open>What it asks before it has joined is refused under no id, and the join is refused or seats it.\<close>

lemma fail_refusal: "m \<in> set (frames_to w (fail t v code x r)) \<Longrightarrow> refusal m \<and> (r = Undefined \<or> is_str r \<longrightarrow> msg_request m = r)"
  by (cases r) (auto simp: frames_to_in fail_effects refusal_def get_prop_wire_envelope nullish_def Let_def)

lemma unseated_request:
  assumes "handle_request cfg d s w c typ payload r = Some (t, es)" and "ws_participant c = None"
    and "typ \<notin> {js ''ping'', js ''room.create'', js ''room.join''}"
  shows "t = s \<and> es = fail s w 403 ''Join a room first'' r"
  using assms by (auto simp: handle_request_def)

lemma envelope_type: "envelope_ok m \<Longrightarrow> get_prop m (js ''type'') = Str (str_val (get_prop m (js ''type'')))"
  by (cases "get_prop m (js ''type'')") (auto simp: envelope_ok_def)

lemma plain_refused:
  assumes "server_reachable cfg s" and "server_step cfg s (Message w (Text (Some m)) d, es) t" and "part_of s w = None" and "plain_frame m"
  shows "part_of t w = None \<and> (\<forall>x \<in> set (frames_to w es). refusal x \<and> msg_request x = Undefined)"
proof -
  obtain c c' where c: "map_of (sv_clients s) w = Some c" and c': "c' = fst (take_token cfg (now1 d) (now2 d) c)"
    and om: "on_message cfg d s w c (Text (Some m)) = (t, es)" and part: "part_of (set_conn w c' s) = part_of s"
    by (rule message_step_states [OF assms(1,2)])
  from om show ?thesis
  proof (cases rule: on_message_cases)
    case (refused code x r)
    then have "r = Undefined" using assms(4) by (auto simp: plain_frame_def)
    with refused part assms(3) show ?thesis by (auto simp: c' dest: fail_refusal)
  next
    case (request msg)
    then have msg: "msg = m" by simp
    have seat: "ws_participant c' = None" using assms(3) c by (simp add: c' part_of_conn)
    have "str_val (get_prop m (js ''type'')) \<notin> {js ''ping'', js ''room.create'', js ''room.join''}"
      using assms(4) envelope_type request(2) unfolding msg plain_frame_def by (metis imageI)
    from unseated_request [OF request(4) [unfolded msg c' [symmetric]] seat this]
    show ?thesis using part assms(3,4) by (auto simp: plain_frame_def dest: fail_refusal)
  qed
qed

lemma join_decided:
  assumes "server_reachable cfg s" and "server_step cfg s (Message w (Text (Some m)) d, es) t" and "part_of s w = None" and "asks_to_join i m"
  shows "part_of t w = None \<and> (\<forall>x \<in> set (frames_to w es). refusal x) \<or> part_of t w \<noteq> None"
proof -
  obtain c c' where c: "map_of (sv_clients s) w = Some c" and c': "c' = fst (take_token cfg (now1 d) (now2 d) c)"
    and om: "on_message cfg d s w c (Text (Some m)) = (t, es)" and part: "part_of (set_conn w c' s) = part_of s"
    by (rule message_step_states [OF assms(1,2)])
  from om show ?thesis
  proof (cases rule: on_message_cases)
    case (refused code x r)
    with part assms(3) show ?thesis by (auto simp: c' dest: fail_refusal)
  next
    case (request msg)
    then have "handle_join cfg d (set_conn w c' s) w c' (get_prop m (js ''payload'')) (request_id m) = (t, es)"
      using assms(4) by (simp add: handle_request_def asks_to_join_def c')
    then show ?thesis
      using part assms(3) by (cases rule: handle_join_cases [of cfg d "set_conn w c' s" w c' "get_prop m (js ''payload'')" "request_id m"])
        (auto dest: fail_refusal simp: take_seat_part)
  qed
qed

section \<open>The invariant\<close>

text \<open>A page that has asked to join: its request is the first of its frames on their way, or the server
  has refused it.\<close>

definition unseated :: "server \<Rightarrow> jsval list \<Rightarrow> jsval list \<Rightarrow> nat \<Rightarrow> app \<Rightarrow> bool" where
  "unseated s up down w a \<longleftrightarrow> part_of s w = None \<and> (\<exists>i. asking i a \<and>
     (list_all plain_frame up \<and> list_all refusal down \<or>
      down = [] \<and> (\<exists>m ms. up = m # ms \<and> asks_to_join i m \<and> list_all plain_frame ms)))"

text \<open>A page whose connection has its seat: the answer is the first of the frames on their way to it, or it
  is in the meeting. Either way, the list of the answer or of the page, changed by the frames on their way,
  is the server's room.\<close>

definition joined_answer :: "jstring \<Rightarrow> participant \<Rightarrow> jsval list \<Rightarrow> jsval \<Rightarrow> bool" where
  "joined_answer i p ps m \<longleftrightarrow> msg_type m = Str (js ''room.joined'') \<and> msg_request m = Str i \<and>
     msg_field m ''participants'' = Arr ps \<and> distinct (map id_of ps) \<and> list_all (\<lambda>p. \<not> nullish p) ps \<and>
     msg_field m ''participantId'' = Str (p_id p)"

definition catches_up :: "server \<Rightarrow> participant \<Rightarrow> jsval list \<Rightarrow> jsval list \<Rightarrow> bool" where
  "catches_up s p ps down \<longleftrightarrow> fold roster_frame down ps = roster s (p_roomId p) \<and>
     (\<forall>m \<in> set down. msg_type m \<noteq> Str (js ''disconnected''))"

definition seated :: "server \<Rightarrow> jsval list \<Rightarrow> nat \<Rightarrow> app \<Rightarrow> bool" where
  "seated s down w a \<longleftrightarrow> (\<exists>p ps. part_of s w = Some p \<and>
     ((\<exists>i m ms. asking i a \<and> down = m # ms \<and> joined_answer i p ps m \<and> catches_up s p ps ms) \<or>
      in_meeting a ps \<and> rs_localParticipantId (ap_room a) = Str (p_id p) \<and> catches_up s p ps down))"

definition page_fits :: "server \<Rightarrow> jsval list \<Rightarrow> jsval list \<Rightarrow> nat \<Rightarrow> app \<Rightarrow> bool" where
  "page_fits s up down w a \<longleftrightarrow> OPEN \<le> ready_of s w \<and>
     (page_dialing w a \<longrightarrow> dialing w a \<and> part_of s w = None \<and> up = [] \<and> down = []) \<and>
     (page_open w a \<and> ready_of s w = OPEN \<longrightarrow> unseated s up down w a \<or> seated s down w a)"

definition network_inv :: "config \<Rightarrow> network \<Rightarrow> bool" where
  "network_inv cfg N \<longleftrightarrow> server_reachable cfg (nw_server N) \<and>
     (\<forall>w a. nw_pages N w = Some a \<longrightarrow> page_fits (nw_server N) (nw_up N w) (nw_down N w) w a)"

subsection \<open>Steps of a page\<close>

lemma dials_fits:
  assumes "in_lobby a" and "map_of (sv_clients s) w = None"
  shows "page_fits s [] [] w (fst (onJoinRoom w a))"
  using lobby_dials [OF assms(1), of w] assms(2)
  by (simp add: page_fits_def ready_of_def part_of_def page_open_socket page_dialing_socket)

lemma unseated_acts:
  assumes "page_step w a (ev, ms) b" and "unseated s up down w a" and "page_open w a" and "page_open w b" and "takes ev = None"
  shows "unseated s (up @ ms) down w b"
proof -
  have "ev \<noteq> Take j m" for j m using assms(5) by auto
  from assms(2) asking_step [OF assms(1) _ assms(3,4) this] show ?thesis by (fastforce simp: unseated_def)
qed

lemma seated_acts:
  assumes "page_step w a (ev, ms) b" and "seated s down w a" and "page_open w a" and "page_open w b" and "takes ev = None"
  shows "seated s down w b"
proof -
  have no: "ev \<noteq> Take j m" for j m using assms(5) by auto
  from assms(2) asking_step [OF assms(1) _ assms(3,4) no] meeting_step [OF assms(1) _ assms(3,4) no]
  show ?thesis unfolding seated_def by metis
qed

lemma opens_fits:
  assumes "page_step w a (Opens j, ms) b" and "page_fits s up down w a"
  shows "page_fits s (up @ ms) down w b"
proof -
  from assms(1) have dial: "page_dialing w a" and b: "b = fst (app_opened j w a)" "ms = frames_on w (snd (app_opened j w a))"
    by (auto elim: page_openE)
  from dial assms(2) have "dialing w a" "part_of s w = None" "up = []" "down = []" "OPEN \<le> ready_of s w" by (simp_all add: page_fits_def)
  with dialing_opens [of w a j] join_frame_asks [of j a] b show ?thesis
    by (auto simp: page_fits_def unseated_def page_open_socket page_dialing_socket)
qed

lemma acts_fits:
  assumes "page_step w a (ev, ms) b" and "page_fits s up down w a" and "takes ev = None"
  shows "page_fits s (up @ ms) down w b"
proof (cases "\<exists>j. ev = Opens j")
  case False
  then have same: "closes w b \<or> socket_of w b = socket_of w a" using step_socket [OF assms(1)] by blast
  have "page_dialing w b \<longrightarrow> page_dialing w a \<and> dialing w b \<and> ms = []"
    using same dialing_step [OF assms(1)] False assms(2) by (auto simp: closes_def page_dialing_socket page_fits_def)
  moreover have "page_open w b \<longrightarrow> page_open w a" using same by (auto simp: closes_def page_open_socket)
  ultimately show ?thesis
    using assms(2) unseated_acts [OF assms(1) _ _ _ assms(3)] seated_acts [OF assms(1) _ _ _ assms(3)]
    by (auto simp: page_fits_def)
qed (use assms opens_fits in blast)

text \<open>A frame is taken.\<close>

lemma unseated_reads:
  assumes "page_step w a (Take j m, ms) b" and "unseated s up (m # rest) w a" and "page_open w b"
  shows "unseated s (up @ ms) rest w b"
proof -
  from assms(1) have b: "b = fst (app_frame j m a)" "ms = frames_on w (snd (app_frame j m a))" by (auto elim: page_takeE)
  from assms(2) obtain i where i: "asking i a" "refusal m" "list_all plain_frame up" "list_all refusal rest" "part_of s w = None"
    by (auto simp: unseated_def)
  have "\<not> closes w b" using assms(3) by (simp add: closes_def page_open_socket)
  with asking_takes_refusal [OF i(1,2), of w j] b have "asking i b" "ms = []" by (simp_all split: if_splits)
  with i show ?thesis by (auto simp: unseated_def)
qed

lemma seated_reads:
  assumes "page_step w a (Take j m, ms) b" and "seated s (m # rest) w a"
  shows "seated s rest w b"
proof -
  from assms(1) have b: "b = fst (app_frame j m a)" by (auto elim: page_takeE)
  from assms(2) obtain p ps where p: "part_of s w = Some p"
    and "(\<exists>i. asking i a \<and> joined_answer i p ps m \<and> catches_up s p ps rest) \<or>
      in_meeting a ps \<and> rs_localParticipantId (ap_room a) = Str (p_id p) \<and> catches_up s p ps (m # rest)"
    unfolding seated_def by auto
  then show ?thesis
  proof (elim disjE exE conjE)
    fix i assume "asking i a" "joined_answer i p ps m" "catches_up s p ps rest"
    with joined_shows [of a i m ps j] p show ?thesis unfolding b seated_def by (auto simp: asking_def joined_answer_def)
  next
    assume "in_meeting a ps" "rs_localParticipantId (ap_room a) = Str (p_id p)" "catches_up s p ps (m # rest)"
    with frame_shows [of a ps m j] p show ?thesis unfolding b seated_def by (auto simp: catches_up_def)
  qed
qed

lemma reads_fits:
  assumes "page_step w a (ev, ms) b" and "page_fits s up (m # rest) w a" and "takes ev = Some m"
  shows "page_fits s (up @ ms) rest w b"
proof -
  obtain j where step: "page_step w a (Take j m, ms) b" using assms(1,3) by (cases ev) auto
  then have "page_open w a" by (auto elim: page_takeE)
  moreover have "closes w b \<or> socket_of w b = socket_of w a" using step_socket [OF step] by blast
  ultimately show ?thesis
    using assms(2) unseated_reads [OF step, of s up rest] seated_reads [OF step, of s rest]
    by (auto simp: page_fits_def closes_def page_open_socket page_dialing_socket)
qed

subsection \<open>Steps of the server\<close>

lemma close_ready_of: "server_step cfg s (Close w, es) t \<Longrightarrow> ready_of t w = CLOSED"
  by (auto elim!: close_stepE simp: close_others)

lemma joined_frame_answer:
  "server_inv cfg t \<Longrightarrow> joined_answer i p (roster t (p_roomId p)) (joined_frame_of cfg t p (Str i))"
  using distinct_roster by (auto simp: joined_answer_def joined_payload_props) (simp add: joined_frame_of_def)

text \<open>The page's first frame, or what others do.\<close>

lemma unseated_served:
  assumes reach: "server_reachable cfg s" and step: "server_step cfg s (ev, es) t" and "unseated s up down w a"
    and rdy: "ready_of t w = OPEN"
    and own: "\<And>f d. ev = Message w f d \<Longrightarrow> \<exists>m ms. up = m # ms \<and> f = Text (Some m)"
    and up': "up' = (if \<exists>f d. ev = Message w f d then tl up else up)"
  shows "unseated t up' (down @ frames_to w es) w a \<or> seated t (down @ frames_to w es) w a"
proof -
  from assms(3) obtain i where none: "part_of s w = None" and i: "asking i a"
    and ways: "list_all plain_frame up \<and> list_all refusal down \<or> down = [] \<and> (\<exists>m ms. up = m # ms \<and> asks_to_join i m \<and> list_all plain_frame ms)"
    by (auto simp: unseated_def)
  show ?thesis
  proof (cases "\<exists>f d. ev = Message w f d")
    case False
    with unseated_hears_nothing [OF reach step none] have "frames_to w es = []" "part_of t w = None" by blast+
    with False assms(3) show ?thesis by (simp add: unseated_def up')
  next
    case True
    then obtain f d where ev: "ev = Message w f d" by blast
    with own obtain m ms where m: "up = m # ms" "f = Text (Some m)" by blast
    note step = step [unfolded ev m(2)]
    from ways consider (plain) "plain_frame m" "list_all plain_frame ms" "list_all refusal down"
      | (join) "down = []" "asks_to_join i m" "list_all plain_frame ms" by (auto simp: m(1))
    then show ?thesis
    proof cases
      case plain
      from plain_refused [OF reach step none plain(1)] plain i show ?thesis
        by (auto simp: unseated_def up' ev m(1) list_all_iff)
    next
      case join
      show ?thesis
      proof (cases "part_of t w")
        case None
        with join_decided [OF reach step none join(2)] join i show ?thesis
          by (auto simp: unseated_def up' ev m(1) list_all_iff)
      next
        case (Some p)
        have "frames_to w es = [joined_frame_of cfg t p (Str i)]"
          using join_frames [OF reach step none Some rdy] join(2) by (simp add: asks_to_join_def)
        moreover have "server_inv cfg t" by (rule server_step_inv [OF server_reachable_inv [OF reach] step])
        ultimately show ?thesis
          using Some i join(1) joined_frame_answer [of cfg t i p] by (auto simp: seated_def catches_up_def)
      qed
    qed
  qed
qed

lemma seated_served:
  assumes reach: "server_reachable cfg s" and step: "server_step cfg s (ev, es) t" and "seated s down w a"
    and rdy: "ready_of s w = OPEN" "ready_of t w = OPEN"
  shows "seated t (down @ frames_to w es) w a"
proof -
  from assms(3) obtain p where p: "part_of s w = Some p" by (auto simp: seated_def)
  have ev: "ev \<noteq> Close w" using close_ready_of step rdy(2) by auto
  note p_t = conjunct1 [OF stay_step [OF step p ev]]
  have up: "catches_up s p ps ds \<Longrightarrow> catches_up t p ps (ds @ frames_to w es)" for ps ds
    using roster_step [OF reach step p p_t rdy] by (auto simp: catches_up_def)
  from assms(3) p show ?thesis unfolding seated_def using up p_t by fastforce
qed

lemma serves_fits:
  assumes reach: "server_reachable cfg s" and step: "server_step cfg s (ev, es) t" and fits: "page_fits s up down w a"
    and dial: "\<And>now rs. ev = Connect w now rs \<Longrightarrow> page_dialing w a \<and> OPEN \<le> rs"
    and own: "\<And>f d. ev = Message w f d \<Longrightarrow> \<exists>m ms. up = m # ms \<and> f = Text (Some m)"
    and up': "up' = (if \<exists>f d. ev = Message w f d then tl up else up)"
  shows "page_fits t up' (down @ frames_to w es) w a"
proof -
  have later: "OPEN \<le> ready_of t w"
  proof (cases "\<exists>now rs. ev = Connect w now rs")
    case True
    with dial step show ?thesis by (auto elim: server_step.cases)
  next
    case False
    with ready_step [OF step, of w] fits show ?thesis by (auto simp: page_fits_def)
  qed
  have quiet: "page_dialing w a \<Longrightarrow> part_of t w = None \<and> frames_to w es = [] \<and> up' = []"
    using unseated_hears_nothing [OF reach step, of w] fits own by (auto simp: page_fits_def up')
  have still: "ready_of s w = OPEN" if "ready_of t w = OPEN" "page_open w a"
  proof (rule open_between)
    show "OPEN \<le> ready_of s w" using fits by (simp add: page_fits_def)
    have "ev \<noteq> Connect w now rs" for now rs using dial that(2) by (auto simp: page_open_socket page_dialing_socket)
    then show "ready_of s w \<le> OPEN" using ready_step [OF step, of w] that(1) by simp
  qed
  have "unseated t up' (down @ frames_to w es) w a \<or> seated t (down @ frames_to w es) w a"
    if rdy: "ready_of t w = OPEN" and live: "page_open w a"
  proof -
    note was = still [OF rdy live]
    with fits live consider "unseated s up down w a" | "seated s down w a" by (auto simp: page_fits_def)
    then show ?thesis
    proof cases
      case 1
      show ?thesis by (rule unseated_served [OF reach step 1 rdy _ up']) (rule own)
    next
      case 2
      from seated_served [OF reach step 2 was rdy] show ?thesis by blast
    qed
  qed
  with fits later quiet show ?thesis by (auto simp: page_fits_def)
qed

lemma network_step_inv: "network_inv cfg N \<Longrightarrow> network_step cfg N l M \<Longrightarrow> network_inv cfg M"
proof -
  assume inv: "network_inv cfg N" and "network_step cfg N l M"
  from this(2) show "network_inv cfg M"
  proof cases
    case (dials w a)
    then show ?thesis using inv dials_fits by (auto simp: network_inv_def)
  next
    case (page_acts w a ev ms b)
    then show ?thesis using inv acts_fits by (auto simp: network_inv_def)
  next
    case (page_reads w a ev ms b m rest)
    have "page_fits (nw_server N) (nw_up N w) (m # rest) w a"
      using inv page_reads(3,6) unfolding network_inv_def by metis
    from reads_fits [OF page_reads(4) this page_reads(5)] show ?thesis using inv page_reads by (auto simp: network_inv_def)
  next
    case (serves ev es t)
    have "page_fits t (read_up ev (nw_up N) w) (nw_down N w @ frames_to w es) w a" if "nw_pages N w = Some a" for w a
      using inv serves that
      by (intro serves_fits [OF _ serves(3), where up = "nw_up N w"]) (auto simp: network_inv_def read_up_if split: list.splits)
    moreover have "server_reachable cfg t" using inv serves server_reachable_step by (auto simp: network_inv_def)
    ultimately show ?thesis using serves by (simp add: network_inv_def)
  qed
qed

interpretation network_machine: machine "\<lambda>N. N = initial_network" "network_step cfg" "network_inv cfg" for cfg
proof
  show "network_inv cfg N" if "N = initial_network" for N
    using that by (simp add: network_inv_def initial_network_def server_reachable_start)
qed (rule network_step_inv)

lemma network_reachable_inv: "network_reachable cfg N \<Longrightarrow> network_inv cfg N"
  unfolding network_reachable_def by (rule network_machine.reach_inv)

section \<open>What the pages show\<close>

text \<open>A seated page and what it makes of the frames on their way to it.\<close>

lemma caught_up:
  assumes "seated s down w a" and "part_of s w = Some p" and b: "b = fold (\<lambda>m a. fst (app_frame j m a)) down a"
  shows "in_meeting b (roster s (p_roomId p)) \<and> rs_localParticipantId (ap_room b) = Str (p_id p)"
proof -
  from assms(1,2) obtain ps where
    "(\<exists>i m ms. asking i a \<and> down = m # ms \<and> joined_answer i p ps m \<and> catches_up s p ps ms) \<or>
     in_meeting a ps \<and> rs_localParticipantId (ap_room a) = Str (p_id p) \<and> catches_up s p ps down"
    unfolding seated_def by auto
  then show ?thesis
  proof (elim disjE exE conjE)
    fix i m ms
    assume "asking i a" "down = m # ms" "joined_answer i p ps m" "catches_up s p ps ms"
    with joined_shows [of a i m ps j] frames_show [of "fst (app_frame j m a)" ps ms j] show ?thesis
      by (auto simp: b asking_def joined_answer_def catches_up_def)
  next
    assume "in_meeting a ps" "rs_localParticipantId (ap_room a) = Str (p_id p)" "catches_up s p ps down"
    with frames_show [of a ps down j] show ?thesis by (auto simp: b catches_up_def)
  qed
qed

lemma open_page_seated:
  assumes "network_reachable cfg N" and "nw_pages N w = Some a" and "page_open w a"
    and "part_of (nw_server N) w = Some p" and "ready_of (nw_server N) w = OPEN"
  shows "seated (nw_server N) (nw_down N w) w a \<and> server_inv cfg (nw_server N)"
  using network_reachable_inv [OF assms(1)] assms(2-5) server_reachable_inv
  by (fastforce simp: network_inv_def page_fits_def unseated_def)

text \<open>C2. Whatever the order in which the server, the pages and the frames in flight run, a page in a meeting
  is never off by more than the frames in flight: in every state the system can reach, a page whose
  socket is open and whose connection has joined shows, once it has taken the frames that are on their way to it,
  exactly the participants of the server's room, in the server's order and under their display names,
  and knows its own id. In between, users may click anything in the room, browsers may report anything,
  pages may come and go, and other clients may send any messages.\<close>

theorem presence_converges:
  assumes "network_reachable cfg N" and "nw_pages N w = Some a" and "page_open w a"
    and "part_of (nw_server N) w = Some p" and "ready_of (nw_server N) w = OPEN"
    and "b = fold (\<lambda>m a. fst (app_frame j m a)) (nw_down N w) a"
  shows "getAllParticipants (ap_room b) = map (publicParticipant \<circ> snd) (room_of (nw_server N) (p_roomId p)) \<and>
    ui_participants (ap_ui b) = map (\<lambda>x. Str (p_displayName (snd x))) (room_of (nw_server N) (p_roomId p)) \<and>
    rs_localParticipantId (ap_room b) = Str (p_id p)"
  using caught_up [OF _ assms(4,6)] open_page_seated [OF assms(1-5)] listed_roster [of cfg "nw_server N"]
  by (simp add: in_meeting_def shows_roster_def roster_def)

text \<open>C6. Two pages in a room see each other and the same room: when nothing is in flight to either, they hold
  the same participants and list the same names in the same order, and each holds the other's id.\<close>

theorem pages_agree:
  assumes "network_reachable cfg N" and "nw_pages N v = Some a" and "nw_pages N w = Some b" and "page_open v a" and "page_open w b"
    and "part_of (nw_server N) v = Some p" and "part_of (nw_server N) w = Some q" and "p_roomId q = p_roomId p"
    and "ready_of (nw_server N) v = OPEN" and "ready_of (nw_server N) w = OPEN" and "nw_down N v = []" and "nw_down N w = []"
  shows "getAllParticipants (ap_room a) = getAllParticipants (ap_room b) \<and>
    ui_participants (ap_ui a) = ui_participants (ap_ui b) \<and>
    rs_localParticipantId (ap_room b) \<in> id_of ` set (getAllParticipants (ap_room a)) \<and>
    rs_localParticipantId (ap_room a) \<in> id_of ` set (getAllParticipants (ap_room b))"
proof -
  let ?s = "nw_server N"
  note a = open_page_seated [OF assms(1,2,4,6,9)] and b = open_page_seated [OF assms(1,3,5,7,10)]
  have shows_a: "in_meeting a (roster ?s (p_roomId p))" "rs_localParticipantId (ap_room a) = Str (p_id p)"
    and shows_b: "in_meeting b (roster ?s (p_roomId p))" "rs_localParticipantId (ap_room b) = Str (p_id q)"
    using caught_up [OF conjunct1 [OF a] assms(6), of a undefined] caught_up [OF conjunct1 [OF b] assms(7), of b undefined] assms(8,11,12)
    by simp_all
  have "Str (p_id x) \<in> id_of ` set (roster ?s (p_roomId p))" if "part_of ?s u = Some x" "p_roomId x = p_roomId p" for u x
  proof -
    have "(p_id x, x) \<in> set (room_of ?s (p_roomId p))"
      using inv_part [OF conjunct2 [OF a] that(1)] that by (simp add: inv_room_of [OF conjunct2 [OF a]])
    then show ?thesis unfolding roster_ids by (intro imageI) (erule rev_image_eqI, simp)
  qed
  with assms(6-8) have "Str (p_id p) \<in> id_of ` set (roster ?s (p_roomId p))" "Str (p_id q) \<in> id_of ` set (roster ?s (p_roomId p))"
    by blast+
  moreover have "getAllParticipants (ap_room a) = roster ?s (p_roomId p)" "ui_participants (ap_ui a) = listed (roster ?s (p_roomId p))"
    "getAllParticipants (ap_room b) = roster ?s (p_roomId p)" "ui_participants (ap_ui b) = listed (roster ?s (p_roomId p))"
    using shows_a(1) shows_b(1) unfolding in_meeting_def shows_roster_def by blast+
  ultimately show ?thesis using shows_a(2) shows_b(2) by (simp only: simp_thms)
qed

section \<open>The frames in flight arrive\<close>

lemma seated_reads_open:
  assumes "seated s (m # rest) w a" and "page_open w a"
  shows "page_open w (fst (app_frame j m a))"
proof -
  have "(\<exists>i p ps. asking i a \<and> joined_answer i p ps m) \<or> (\<exists>ps. in_meeting a ps \<and> msg_type m \<noteq> Str (js ''disconnected''))"
    using assms(1) by (auto simp: seated_def catches_up_def)
  then have "ap_signaling (fst (app_frame j m a)) \<in> {map_option (\<lambda>c. fst (onmessage c (Some m))) (ap_signaling a),
      map_option (\<lambda>c. webrtc_on (fst (onmessage c (Some m)))) (ap_signaling a)}"
    using joined_shows [where a = a and j = j and m = m] frame_shows [where a = a and j = j and m = m]
    by (auto simp: asking_def joined_answer_def)
  with assms(2) show ?thesis by (auto simp: page_open_def onmessage_socket webrtc_off_ready)
qed

text \<open>Steps that only take frames at one page.\<close>

fun reads_at :: "nat \<Rightarrow> network_event \<Rightarrow> bool" where
  "reads_at w (AtPage v ev ms) = (v = w \<and> takes ev \<noteq> None)"
| "reads_at w ev = False"

lemma reads_all:
  assumes "network_inv cfg N" and "nw_pages N w = Some a" and "page_open w a"
    and "part_of (nw_server N) w \<noteq> None" and "ready_of (nw_server N) w = OPEN"
  shows "\<exists>ls M b. execution (network_step cfg) N ls M \<and> list_all (reads_at w) ls \<and> nw_server M = nw_server N \<and>
    nw_down M w = [] \<and> nw_pages M = (nw_pages N)(w \<mapsto> b) \<and> page_open w b \<and>
    (\<forall>v. v \<noteq> w \<longrightarrow> nw_down M v = nw_down N v)"
  using assms
proof (induction "nw_down N w" arbitrary: N a)
  case Nil
  then show ?case by (intro exI [of _ "[]"] exI [of _ N] exI [of _ a]) (auto intro: execution_nil)
next
  case (Cons m rest)
  let ?b = "fst (app_frame (js []) m a)" let ?es = "snd (app_frame (js []) m a)"
  have step: "page_step w a (Take (js []) m, frames_on w ?es) ?b" using Cons.prems(3) by (intro page_step.page_takes) simp_all
  have seat: "seated (nw_server N) (m # rest) w a"
    using Cons.prems Cons.hyps(2) by (fastforce simp: network_inv_def page_fits_def unseated_def)
  let ?M = "N\<lparr>nw_pages := (nw_pages N)(w \<mapsto> ?b), nw_up := (nw_up N)(w := nw_up N w @ frames_on w ?es), nw_down := (nw_down N)(w := rest)\<rparr>"
  have first: "network_step cfg N (AtPage w (Take (js []) m) (frames_on w ?es)) ?M"
    by (rule page_reads [OF Cons.prems(2) step _ Cons.hyps(2) [symmetric]]) simp
  have "network_inv cfg ?M" by (rule network_step_inv [OF Cons.prems(1) first])
  with Cons.hyps(1) [of ?M ?b] seated_reads_open [OF seat Cons.prems(3)] Cons.prems obtain ls L b where
    "execution (network_step cfg) ?M ls L" "list_all (reads_at w) ls" "nw_server L = nw_server N" "nw_down L w = []"
    "nw_pages L = (nw_pages N)(w \<mapsto> b)" "page_open w b" "\<forall>v. v \<noteq> w \<longrightarrow> nw_down L v = nw_down N v" by auto
  with execution_cons [where stp = "network_step cfg", OF first] show ?case
    by (intro exI [of _ "AtPage w (Take (js []) m) (frames_on w ?es) # ls"] exI [of _ L] exI [of _ b]) auto
qed

text \<open>C5. The frames in flight can always be taken, and then the page is right: from every state the system can
  reach, a page whose socket is open and whose connection has joined gets, by taking the frames that are
  on their way to it and nothing else, to a state where nothing is in flight to it, its socket is still
  open and it shows the server's room.\<close>

theorem presence_reached:
  assumes "network_reachable cfg N" and "nw_pages N w = Some a" and "page_open w a"
    and "part_of (nw_server N) w = Some p" and "ready_of (nw_server N) w = OPEN"
  shows "\<exists>ls M b. execution (network_step cfg) N ls M \<and> list_all (reads_at w) ls \<and> nw_server M = nw_server N \<and>
    nw_down M w = [] \<and> nw_pages M w = Some b \<and> page_open w b \<and>
    ui_participants (ap_ui b) = map (\<lambda>x. Str (p_displayName (snd x))) (room_of (nw_server N) (p_roomId p))"
proof -
  from reads_all [OF network_reachable_inv [OF assms(1)] assms(2,3) _ assms(5)] assms(4) obtain ls M b where
    run: "execution (network_step cfg) N ls M" and M: "list_all (reads_at w) ls" "nw_server M = nw_server N" "nw_down M w = []"
      "nw_pages M w = Some b" "page_open w b" by auto
  have reach: "network_reachable cfg M"
    using execution_reachable [OF run] assms(1) by (simp add: network_reachable_def)
  from M(2) assms(4,5) have seat: "part_of (nw_server M) w = Some p" "ready_of (nw_server M) w = OPEN" by simp_all
  note fits = open_page_seated [OF reach M(4,5) seat]
  have "in_meeting b (roster (nw_server M) (p_roomId p))"
    using caught_up [OF conjunct1 [OF fits] seat(1), of b undefined] M(3) by simp
  then have "ui_participants (ap_ui b) = map (\<lambda>x. Str (p_displayName (snd x))) (room_of (nw_server N) (p_roomId p))"
    using listed_roster [OF conjunct2 [OF fits]] M(2) by (simp add: in_meeting_def shows_roster_def)
  with run M show ?thesis by blast
qed

section \<open>A network to run\<close>

lemma onJoinRoom_names [simp]: "ap_roomId (fst (onJoinRoom w a)) = ap_roomId a" "ap_displayName (fst (onJoinRoom w a)) = ap_displayName a"
  by (simp_all add: onJoinRoom_def Let_def)

text \<open>A page of the lobby dials, the server accepts the connection and the page asks to join.\<close>

lemma page_enters:
  assumes reach: "network_reachable cfg N" and fresh: "nw_pages N w = None" "map_of (sv_clients (nw_server N)) w = None"
      "nw_up N w = []" "nw_down N w = []" and a: "in_lobby a"
  shows "\<exists>M b. network_reachable cfg M \<and> nw_server M = on_connection cfg w now OPEN (nw_server N) \<and>
    nw_pages M = (nw_pages N)(w \<mapsto> b) \<and> page_open w b \<and> nw_up M = (nw_up N)(w := [join_frame a j]) \<and> nw_down M = nw_down N \<and>
    asking j b"
proof -
  let ?a = "fst (onJoinRoom w a)" let ?b = "fst (app_opened j w ?a)" let ?es = "snd (app_opened j w ?a)"
  let ?N1 = "N\<lparr>nw_pages := (nw_pages N)(w \<mapsto> ?a)\<rparr>"
  let ?N2 = "?N1\<lparr>nw_server := on_connection cfg w now OPEN (nw_server ?N1), nw_up := read_up (Connect w now OPEN) (nw_up ?N1),
    nw_down := (\<lambda>v. nw_down ?N1 v @ frames_to v [])\<rparr>"
  let ?N3 = "?N2\<lparr>nw_pages := (nw_pages ?N2)(w \<mapsto> ?b), nw_up := (nw_up ?N2)(w := nw_up ?N2 w @ frames_on w ?es)\<rparr>"
  note dial = lobby_dials [OF a, of w]
  have one: "network_step cfg N (Dials w a) ?N1" by (rule dials [OF fresh a])
  have "server_step cfg (nw_server ?N1) (Connect w now OPEN, []) (on_connection cfg w now OPEN (nw_server ?N1))"
    using fresh(2) by (intro server_step.connect) simp
  then have two: "network_step cfg ?N1 (AtServer (Connect w now OPEN) []) ?N2"
    by (rule serves) (simp add: dial)
  have "page_step w ?a (Opens j, frames_on w ?es) ?b" using dial by (intro page_step.page_opens) simp_all
  then have three: "network_step cfg ?N2 (AtPage w (Opens j) (frames_on w ?es)) ?N3"
    by (intro page_acts [where a = ?a]) (simp_all add: on_connection_def map_of_update_eq)
  have "network_reachable cfg ?N3"
    using reach one two three unfolding network_reachable_def by (meson reachable_step)
  then show ?thesis
    using dialing_opens [OF conjunct1 [OF dial], of j] fresh(3) by (intro exI [of _ ?N3] exI [of _ ?b]) (simp add: join_frame_def)
qed

lemma server_reads:
  assumes "network_reachable cfg N" and "nw_up N w = m # ms"
    and "server_exec cfg (nw_server N) (Message w (Text (Some m)) d) = Some (t, es)"
  shows "\<exists>M. network_reachable cfg M \<and> nw_server M = t \<and> nw_pages M = nw_pages N \<and> nw_up M = (nw_up N)(w := ms) \<and>
    nw_down M = (\<lambda>v. nw_down N v @ frames_to v es)"
proof -
  let ?M = "N\<lparr>nw_server := t, nw_up := read_up (Message w (Text (Some m)) d) (nw_up N), nw_down := (\<lambda>v. nw_down N v @ frames_to v es)\<rparr>"
  have "network_step cfg N (AtServer (Message w (Text (Some m)) d) es) ?M"
    using assms(2) by (intro serves server_exec_step assms(3)) (simp split: option.split)
  then have "network_reachable cfg ?M" using assms(1) unfolding network_reachable_def by (rule reachable_step [rotated])
  then show ?thesis using assms(2) by (intro exI [of _ ?M]) simp
qed

text \<open>Both clients of the scenario are pages.\<close>

definition demo_lobby :: "string \<Rightarrow> app" where
  "demo_lobby n = init_app\<lparr>ap_roomId := js ''room123'', ap_displayName := js n\<rparr>"

lemma demo_lobby_ok: "in_lobby (demo_lobby n)"
  using init_in_lobby by (simp add: demo_lobby_def in_lobby_def shows_roster_def)

lemma demo_lobby_join: "join_frame (demo_lobby n) (js ''q1'') = demo_join_msg n"
  by (simp add: join_frame_def demo_lobby_def demo_join_msg_def envelope_def)

lemma demo_start: "server_reachable demo_config (on_connection demo_config 10 0 OPEN initial_server)"
  by (rule server_exec_reachable [OF _ server_reachable_start, where ev = "Connect 10 0 OPEN"]) (simp add: initial_server_def)

lemma demo_steps:
  obtains s es es' where "server_exec demo_config (on_connection demo_config 10 0 OPEN initial_server)
      (Message 10 (Text (Some (demo_join_msg ''A''))) (demo_draws ''ua'')) = Some (s, es)"
    and "map_of (sv_clients s) 20 = None" and "on_connection demo_config 20 1 OPEN s = demo_alone" and "frames_to 20 es = []"
    and "server_exec demo_config demo_alone (Message 20 (Text (Some (demo_join_msg ''B''))) (demo_draws ''ub'')) = Some (demo_pair, es')"
proof -
  let ?s = "on_connection demo_config 10 0 OPEN initial_server"
  have "map_of (sv_clients initial_server) 10 = None" by (simp add: initial_server_def)
  then obtain s es where s: "server_exec demo_config ?s (Message 10 (Text (Some (demo_join_msg ''A''))) (demo_draws ''ua'')) = Some (s, es)"
    "map_of (sv_clients s) 20 = None" "on_connection demo_config 20 1 OPEN s = demo_alone"
    using demo_run_alone by (auto split: option.splits if_splits simp del: server_exec.simps(2))
  have "part_of initial_server 20 = None" by (simp add: part_of_def initial_server_def)
  then have "part_of ?s 20 = None" by simp
  then have "frames_to 20 es = []"
    using unseated_hears_nothing [OF demo_start server_exec_step [OF s(1)], of 20] by simp
  moreover obtain es' where "server_exec demo_config demo_alone (Message 20 (Text (Some (demo_join_msg ''B''))) (demo_draws ''ub'')) = Some (demo_pair, es')"
    using demo_run_pair by (auto split: option.splits simp del: server_exec.simps)
  ultimately show thesis using s that by blast
qed

lemma demo_network:
  obtains N a b where "network_reachable demo_config N" and "nw_server N = demo_pair" and "nw_pages N 10 = Some a"
    and "nw_pages N 20 = Some b" and "page_open 10 a" and "page_open 20 b"
proof -
  obtain s es es' where step: "server_exec demo_config (on_connection demo_config 10 0 OPEN initial_server)
      (Message 10 (Text (Some (demo_join_msg ''A''))) (demo_draws ''ua'')) = Some (s, es)" "map_of (sv_clients s) 20 = None"
    "on_connection demo_config 20 1 OPEN s = demo_alone" "frames_to 20 es = []"
    "server_exec demo_config demo_alone (Message 20 (Text (Some (demo_join_msg ''B''))) (demo_draws ''ub'')) = Some (demo_pair, es')"
    by (rule demo_steps)
  have start: "network_reachable demo_config initial_network"
    unfolding network_reachable_def by (rule reachable_start) simp
  from page_enters [OF start _ _ _ _ demo_lobby_ok [of "''A''"], of 10 0 "js ''q1''"] obtain N1 a where
    N1: "network_reachable demo_config N1" "nw_server N1 = on_connection demo_config 10 0 OPEN initial_server"
      "nw_pages N1 = [10 \<mapsto> a]" "page_open 10 a" "nw_up N1 = (\<lambda>w. [])(10 := [demo_join_msg ''A''])" "nw_down N1 = (\<lambda>w. [])"
    by (auto simp: initial_network_def initial_server_def demo_lobby_join)
  from server_reads [OF N1(1), of 10 "demo_join_msg ''A''" "[]" "demo_draws ''ua''" s es] obtain N2 where
    N2: "network_reachable demo_config N2" "nw_server N2 = s" "nw_pages N2 = [10 \<mapsto> a]" "nw_up N2 20 = []" "nw_down N2 20 = []"
    using N1 step(1,4) by (auto simp del: server_exec.simps)
  from page_enters [OF N2(1) _ _ _ _ demo_lobby_ok [of "''B''"], of 20 1 "js ''q1''"] obtain N3 b where
    N3: "network_reachable demo_config N3" "nw_server N3 = demo_alone" "nw_pages N3 = [10 \<mapsto> a, 20 \<mapsto> b]" "page_open 20 b"
      "nw_up N3 20 = [demo_join_msg ''B'']"
    using N2 step(2,3) by (auto simp: demo_lobby_join)
  from server_reads [OF N3(1,5), of "demo_draws ''ub''" demo_pair es'] N3(2,3) step(5) obtain N where
    "network_reachable demo_config N" "nw_server N = demo_pair" "nw_pages N = [10 \<mapsto> a, 20 \<mapsto> b]"
    by (auto simp del: server_exec.simps)
  with N1(4) N3(4) show thesis by (intro that [of N a b]) simp_all
qed

lemma demo_pair_seats:
  "part_of demo_pair 10 = Some (demo_person 10 ''A'' ''ua'')" "part_of demo_pair 20 = Some (demo_person 20 ''B'' ''ub'')"
  "ready_of demo_pair 10 = OPEN" "ready_of demo_pair 20 = OPEN" "room_of demo_pair (p_roomId (demo_person 20 ''B'' ''ub'')) =
     [(js ''ua'', demo_person 10 ''A'' ''ua''), (js ''ub'', demo_person 20 ''B'' ''ub'')]"
  by (simp_all add: part_of_def ready_of_def room_of_def demo_defs)

theorem presence_converges_witness:
  "\<exists>N a. network_reachable demo_config N \<and> nw_server N = demo_pair \<and> nw_pages N 20 = Some a \<and>
     ui_participants (ap_ui (fold (\<lambda>m a. fst (app_frame (js ''q2'') m a)) (nw_down N 20) a)) = [Str (js ''A''), Str (js ''B'')]"
proof -
  obtain N a b where N: "network_reachable demo_config N" "nw_server N = demo_pair" "nw_pages N 10 = Some a"
    "nw_pages N 20 = Some b" "page_open 10 a" "page_open 20 b" by (rule demo_network)
  from presence_converges [OF N(1,4,6) _ _ refl, of "demo_person 20 ''B'' ''ub''" "js ''q2''"] N(2) demo_pair_seats
  have "ui_participants (ap_ui (fold (\<lambda>m a. fst (app_frame (js ''q2'') m a)) (nw_down N 20) b)) = [Str (js ''A''), Str (js ''B'')]"
    by (simp add: demo_person_def)
  with N(1,2,4) show ?thesis by blast
qed

theorem presence_reached_witness:
  "\<exists>N ls M b. network_reachable demo_config N \<and> execution (network_step demo_config) N ls M \<and> nw_server M = demo_pair \<and>
     nw_pages M 20 = Some b \<and> ui_participants (ap_ui b) = [Str (js ''A''), Str (js ''B'')]"
proof -
  obtain N a b where N: "network_reachable demo_config N" "nw_server N = demo_pair" "nw_pages N 10 = Some a"
    "nw_pages N 20 = Some b" "page_open 10 a" "page_open 20 b" by (rule demo_network)
  from presence_reached [OF N(1,4,6), of "demo_person 20 ''B'' ''ub''"] N(1,2) demo_pair_seats show ?thesis
    by (simp add: demo_person_def) blast
qed

theorem pages_agree_witness:
  "\<exists>N a b. network_reachable demo_config N \<and> nw_pages N 10 = Some a \<and> nw_pages N 20 = Some b \<and> nw_server N = demo_pair \<and>
     getAllParticipants (ap_room a) = getAllParticipants (ap_room b)"
proof -
  obtain N a b where N: "network_reachable demo_config N" "nw_server N = demo_pair" "nw_pages N 10 = Some a"
    "nw_pages N 20 = Some b" "page_open 10 a" "page_open 20 b" by (rule demo_network)
  from reads_all [OF network_reachable_inv [OF N(1)] N(4,6)] N(2) demo_pair_seats obtain ls M b' where
    M: "execution (network_step demo_config) N ls M" "nw_server M = demo_pair" "nw_down M 20 = []"
      "nw_pages M = (nw_pages N)(20 \<mapsto> b')" "page_open 20 b'" by auto
  have reach_M: "network_reachable demo_config M" using execution_reachable [OF M(1)] N(1) by (simp add: network_reachable_def)
  have "nw_pages M 10 = Some a" using M(4) N(3) by simp
  from reads_all [OF network_reachable_inv [OF reach_M] this N(5)] M(2) demo_pair_seats obtain ls' L a' where
    L: "execution (network_step demo_config) M ls' L" "nw_server L = demo_pair" "nw_down L 10 = []"
      "nw_pages L = (nw_pages M)(10 \<mapsto> a')" "page_open 10 a'" "nw_down L 20 = []" using M(3) by auto
  have reach: "network_reachable demo_config L" using execution_reachable [OF L(1)] reach_M by (simp add: network_reachable_def)
  have pages: "nw_pages L 10 = Some a'" "nw_pages L 20 = Some b'" using L(4) M(4) by simp_all
  have "getAllParticipants (ap_room a') = getAllParticipants (ap_room b')"
    using pages_agree [OF reach pages L(5) M(5), of "demo_person 10 ''A'' ''ua''" "demo_person 20 ''B'' ''ub''"] L(2,3,6) demo_pair_seats
    by (simp add: demo_person_def)
  with reach pages L(2) show ?thesis by blast
qed

end
