(* ===== verification/Channels.thy ===== *)
theory Channels
  imports Network "HOL-Library.Sublist"
begin

text \<open>
  Offers, answers and candidates on their way through the whole system: from the socket of one page
  through the server to another page, in order, each once, unchanged, and none lost without a word.
\<close>

section \<open>What a frame says\<close>

text \<open>The part of a payload that a session reads, and the signal in a frame that names a participant as its
  target (on its way to the server) or as its sender (on its way to a page).\<close>

definition content :: "string \<Rightarrow> jsval \<Rightarrow> jsval" where
  "content mt payload = (if mt = ''webrtc.iceCandidate'' then ice_of payload else get_prop payload (js ''sdp''))"

definition signal_by :: "string \<Rightarrow> jstring \<Rightarrow> jsval \<Rightarrow> (string \<times> jsval) list" where
  "signal_by k i m = (case find (\<lambda>t. msg_type m = Str (js t)) relay_types of
     None \<Rightarrow> []
   | Some t \<Rightarrow> if msg_field m k = Str i then [(t, content t (get_prop m (js ''payload'')))] else [])"

definition said :: "jstring \<Rightarrow> jsval list \<Rightarrow> (string \<times> jsval) list" where
  "said i ms = concat (map (signal_by ''targetId'' i) ms)"

definition heard :: "jstring \<Rightarrow> jsval list \<Rightarrow> (string \<times> jsval) list" where
  "heard i ms = concat (map (signal_by ''participantId'' i) ms)"

lemma said_simps [simp]: "said i [] = []" "said i (m # ms) = signal_by ''targetId'' i m @ said i ms" "said i (xs @ ys) = said i xs @ said i ys"
  and heard_simps [simp]: "heard i [] = []" "heard i (m # ms) = signal_by ''participantId'' i m @ heard i ms"
    "heard i (xs @ ys) = heard i xs @ heard i ys"
  by (simp_all add: said_def heard_def)

lemma heard_none: "(\<And>m. m \<in> set ms \<Longrightarrow> signal_by ''participantId'' i m = []) \<Longrightarrow> heard i ms = []"
  by (simp add: heard_def)

lemma signal_by_other: "(\<And>t. t \<in> set relay_types \<Longrightarrow> msg_type m \<noteq> Str (js t)) \<Longrightarrow> signal_by k i m = []"
  by (auto simp: signal_by_def relay_types_def)

lemma signal_by_type:
  assumes "msg_type m = Str (js t)" and "t \<in> set relay_types"
  shows "signal_by k i m = (if msg_field m k = Str i then [(t, content t (get_prop m (js ''payload'')))] else [])"
proof -
  have "find (\<lambda>u. msg_type m = Str (js u)) relay_types = Some t" using assms by (auto simp: relay_types_def)
  then show ?thesis by (simp add: signal_by_def)
qed

text \<open>Frames of other types carry no signal.\<close>

lemma send_no_signal: "m \<in> set (frames_to w (send s v ty pl r)) \<Longrightarrow> ty \<notin> set relay_types \<Longrightarrow> signal_by k i m = []"
  by (auto simp: frames_to_in send_effects intro!: signal_by_other)

lemma fail_no_signal: "m \<in> set (frames_to w (fail s v code x r)) \<Longrightarrow> signal_by k i m = []"
  unfolding fail_def by (erule send_no_signal) (simp add: relay_types_def)

lemma broadcast_no_signal: "m \<in> set (frames_to w (broadcast_room s room ty pl except)) \<Longrightarrow> ty \<notin> set relay_types \<Longrightarrow> signal_by k i m = []"
  by (auto simp: frames_to_in broadcast_room_map intro!: signal_by_other)

section \<open>The server passes a signal on\<close>

lemma forwarded_content:
  assumes "forwarded (js mt) x = Inr copied"
  shows "content mt (wire (Obj (copied @ [(js ''participantId'', Str i)]))) = content mt x"
proof (cases "mt = ''webrtc.iceCandidate''")
  case True
  note ok = forwarded_ice [OF assms [unfolded True]]
  then show ?thesis
    using ice_plain [of x] by (simp add: True content_def ice_of_def get_prop_over_wire plain_over_wire del: wire.simps)
next
  case False
  from forwarded_sdp [OF False assms] show ?thesis
    by (auto simp: False content_def get_prop_over_wire simp del: wire.simps) (simp add: over_wire_def)
qed

lemma relayed_signal_of:
  assumes "forwarded (js mt) x = Inr copied" and "mt \<in> set relay_types"
  shows "signal_by ''participantId'' i (wire (envelope (js mt) (Obj (copied @ [(js ''participantId'', Str k)])) Undefined)) =
    (if k = i then [(mt, content mt x)] else [])"
proof -
  let ?m = "wire (envelope (js mt) (Obj (copied @ [(js ''participantId'', Str k)])) Undefined)"
  have "get_prop ?m (js ''payload'') = wire (Obj (copied @ [(js ''participantId'', Str k)]))"
    by (simp add: get_prop_wire_envelope Let_def del: wire.simps)
  moreover have "msg_field ?m ''participantId'' = Str k"
    using forwarded_keys [OF assms(1)] forwarded_participant [OF assms(1)] by (simp add: msg_field_wire Let_def)
  moreover have "msg_type ?m = Str (js mt)" by simp
  ultimately show ?thesis
    using signal_by_type [of ?m mt "''participantId''" i] assms(2) forwarded_content [OF assms(1)]
    by (cases "k = i") (simp_all del: wire.simps)
qed

text \<open>A signal in the name of \<open>p\<close> that goes to the connection of \<open>q\<close> is the one signal for \<open>q\<close> in the frame of
  \<open>p\<close> that the step takes.\<close>

lemma relayed_signal:
  assumes reach: "server_reachable cfg s" and step: "server_step cfg s (Message u f d, es) t" and p: "part_of s v = Some p"
    and q: "part_of s w = Some q" and "heard (p_id p) (frames_to w es) \<noteq> []"
  shows "u = v \<and> (\<exists>m. f = Text (Some m) \<and> heard (p_id p) (frames_to w es) = signal_by ''targetId'' (p_id q) m)"
proof -
  obtain c c' where c: "map_of (sv_clients s) u = Some c" and c': "c' = fst (take_token cfg (now1 d) (now2 d) c)"
    and om: "on_message cfg d s u c f = (t, es)" and inv: "server_inv cfg (set_conn u c' s)" and part: "part_of (set_conn u c' s) = part_of s"
    by (rule message_step_states [OF reach step])
  have some: "\<exists>m \<in> set (frames_to w es). signal_by ''participantId'' (p_id p) m \<noteq> []" using assms(5) heard_none by blast
  from om show ?thesis
  proof (cases rule: on_message_cases)
    case (refused code x r)
    then show ?thesis using some fail_no_signal by blast
  next
    case (request msg)
    from request(4) show ?thesis unfolding c' [symmetric]
    proof (cases rule: handle_request_cases)
      case (reply ty pl)
      then have "ty \<notin> set relay_types" by (auto simp: relay_types_def)
      then show ?thesis using some send_no_signal unfolding reply(3) by blast
    next
      case (seated x)
      have "signal_by ''participantId'' (p_id p) m = []" if "m \<in> set (frames_to w es)" for m
        using that send_no_signal [where ty = "''room.joined''"] broadcast_no_signal [where ty = "''participant.joined''"]
        unfolding seated(5) join_effects_def by (auto simp: relay_types_def)
      then show ?thesis using some by blast
    next
      case (relay x room i y ty copied)
      let ?pl = "get_prop msg (js ''payload'')"
      have x: "part_of s u = Some x" using relay(1) c by (simp add: c' part_of_conn)
      have y: "part_of s (p_ws y) = Some y" "i = p_id y"
        using inv_member [OF inv relay(2,4)] part by simp_all
      have sent: "frames_to w es = (if p_ws y = w \<and> ready_of (set_conn u c' s) (p_ws y) = OPEN
          then [wire (envelope (js ty) (Obj (copied @ [(js ''participantId'', Str (p_id x))])) Undefined)] else [])"
        by (simp add: relay(10) send_def del: wire.simps)
      have fwd: "forwarded (js ty) ?pl = Inr copied" using relay(6,8) by simp
      from assms(5) sent have w: "p_ws y = w" and h: "heard (p_id p) (frames_to w es) = [(ty, content ty ?pl)]" "p_id x = p_id p"
        using relayed_signal_of [OF fwd relay(7), of "p_id p" "p_id x"] by (auto split: if_splits simp del: wire.simps)
      have "u = v" using inv_unique [OF server_reachable_inv [OF reach] x p h(2)] by simp
      moreover have "y = q" using y(1) w q by simp
      have "get_prop ?pl (js ''targetId'') = Str (p_id y)"
        using relay(3) inv_member [OF inv relay(2)] by (cases "get_prop ?pl (js ''targetId'')") (auto dest!: map_of_SomeD)
      then have "msg_field msg ''targetId'' = Str (p_id q)" using \<open>y = q\<close> by (simp add: msg_field_def)
      moreover have "msg_type msg = Str (js ty)"
        using relay(6) envelope_type [OF request(2)] by (simp add: msg_type_def)
      ultimately show ?thesis
        using h(1) signal_by_type [of msg ty "''targetId''" "p_id q"] relay(7) request(1) by auto
    next
      case (chat x room y)
      have "signal_by ''participantId'' (p_id p) m = []" if "m \<in> set (frames_to w es)" for m
        using that broadcast_no_signal [where ty = "''chat.message''"] unfolding chat(6) by (auto simp: relay_types_def)
      then show ?thesis using some by blast
    qed
  qed
qed
lemma only_messages_signal:
  assumes "server_step cfg s (ev, es) t" and "\<And>u f d. ev \<noteq> Message u f d"
  shows "heard i (frames_to w es) = []"
  using assms(1)
proof cases
  case (close v c)
  then obtain room pl s' where "es = [] \<or> es = broadcast_room s' room ''participant.left'' pl None"
    by (auto simp: on_close_def Let_def split: option.splits)
  then show ?thesis using broadcast_no_signal [where ty = "''participant.left''"] by (auto simp: relay_types_def intro: heard_none)
qed (use assms(2) in \<open>auto simp: on_heartbeat_def shutdown_def frames_to_def intro!: heard_none split: if_splits\<close>)

text \<open>The server does not drop a signal of an open connection for another one without telling its sender.\<close>

definition complains :: "nat \<Rightarrow> effect list \<Rightarrow> bool" where
  "complains v es \<longleftrightarrow> (\<exists>m \<in> set (frames_to v es). msg_type m = Str (js ''error''))"

lemma fail_complains: "ready_of s v = OPEN \<Longrightarrow> complains v (fail s v code x r)"
  by (simp add: complains_def fail_def send_def)

lemma signal_passed:
  assumes reach: "server_reachable cfg s" and step: "server_step cfg s (Message v (Text (Some m)) d, es) t" and p: "part_of s v = Some p"
    and q: "part_of s w = Some q" and "v \<noteq> w" and "ready_of t v = OPEN" and "ready_of t w = OPEN" and "\<not> complains v es"
  shows "heard (p_id p) (frames_to w es) = signal_by ''targetId'' (p_id q) m"
proof (cases "signal_by ''targetId'' (p_id q) m")
  case Nil
  with relayed_signal [OF reach step p q] show ?thesis by force
next
  case (Cons x xs)
  obtain c c' where c: "map_of (sv_clients s) v = Some c" and c': "c' = fst (take_token cfg (now1 d) (now2 d) c)"
    and om: "on_message cfg d s v c (Text (Some m)) = (t, es)" and inv: "server_inv cfg (set_conn v c' s)"
    and part: "part_of (set_conn v c' s) = part_of s" and rdy: "ready_of (set_conn v c' s) = ready_of s"
    by (rule message_step_states [OF reach step])
  have rdy_s: "ready_of s v = OPEN" "ready_of s w = OPEN" using message_others(1) [OF om c] assms(6,7) by simp_all
  let ?s = "set_conn v c' s" and ?pl = "get_prop m (js ''payload'')"
  from Cons obtain ty where ty: "msg_type m = Str (js ty)" "ty \<in> set relay_types" and tgt: "get_prop ?pl (js ''targetId'') = Str (p_id q)"
    by (auto simp: signal_by_def find_Some_iff msg_field_def split: option.splits if_splits)
  from om show ?thesis
  proof (cases rule: on_message_cases)
    case (refused code x r)
    then have "ready_of t v = OPEN" using assms(6) by simp
    with refused(2) fail_complains assms(8) show ?thesis by blast
  next
    case (request msg)
    have seat: "ws_participant c' = Some p" using p c by (simp add: c' part_of_conn)
    obtain rm where rm: "map_of (sv_rooms ?s) (p_roomId p) = Some rm" using inv_seat [OF inv] p part by metis
    have relay: "es = handle_relay ?s v p rm ty ?pl (request_id m)"
      using request seat rm relay_type_other [OF ty(2)] find_relay_type [OF ty(2)] ty(1)
      by (auto simp: handle_request_def c' msg_type_def)
    have no: False if "es = fail ?s v code x (request_id m)" for code x
      using that assms(8) fail_complains [of ?s v] rdy rdy_s by simp
    obtain target where target: "map_of rm (p_id q) = Some target" "p_id target \<noteq> p_id p"
      using relay tgt no by (auto simp: handle_relay_def split: option.splits if_splits)
    then have "part_of s (p_ws target) = Some target" "p_id target = p_id q"
      using inv_member [OF inv rm map_of_SomeD] part by simp_all
    then have w: "p_ws target = w" using inv_unique [OF server_reachable_inv [OF reach] _ q] by blast
    obtain copied where fwd: "forwarded (js ty) ?pl = Inr copied"
      using relay tgt no target by (cases "forwarded (js ty) ?pl") (auto simp: handle_relay_def)
    have "es = [Send w (wire (envelope (js ty) (Obj (copied @ [(js ''participantId'', Str (p_id p))])) Undefined))]"
      using relay tgt target w fwd rdy rdy_s by (simp add: handle_relay_def send_def del: wire.simps)
    then show ?thesis
      using relayed_signal_of [OF fwd ty(2), of "p_id p" "p_id p"] signal_by_type [OF ty] tgt
      by (simp add: msg_field_def del: wire.simps)
  qed
qed

section \<open>In order\<close>

text \<open>What is on its way from \<open>v\<close> to the participant \<open>k\<close> behind \<open>w\<close>, in the name of \<open>i\<close>; what the page at \<open>v\<close>
  sends and the page at \<open>w\<close> takes.\<close>

definition in_flight :: "network \<Rightarrow> nat \<Rightarrow> jstring \<Rightarrow> nat \<Rightarrow> jstring \<Rightarrow> (string \<times> jsval) list" where
  "in_flight N v i w k = heard i (nw_down N w) @ said k (nw_up N v)"

fun sent_at :: "nat \<Rightarrow> jstring \<Rightarrow> network_event \<Rightarrow> (string \<times> jsval) list" where
  "sent_at v k (AtPage u ev ms) = (if u = v then said k ms else [])"
| "sent_at v k l = []"

fun got_at :: "nat \<Rightarrow> jstring \<Rightarrow> network_event \<Rightarrow> (string \<times> jsval) list" where
  "got_at w i (AtPage u ev ms) =
     (if u = w then (case takes ev of None \<Rightarrow> [] | Some m \<Rightarrow> signal_by ''participantId'' i m) else [])"
| "got_at w i l = []"

definition signals_sent :: "nat \<Rightarrow> jstring \<Rightarrow> network_event list \<Rightarrow> (string \<times> jsval) list" where
  "signals_sent v k ls = concat (map (sent_at v k) ls)"

definition signals_got :: "nat \<Rightarrow> jstring \<Rightarrow> network_event list \<Rightarrow> (string \<times> jsval) list" where
  "signals_got w i ls = concat (map (got_at w i) ls)"

fun complaint :: "nat \<Rightarrow> network_event \<Rightarrow> bool" where
  "complaint v (AtServer ev es) = complains v es"
| "complaint v l = False"

lemma subseq_middle: "subseq ys zs \<Longrightarrow> subseq (xs @ ys @ us) (xs @ zs @ us)"
  by (intro list_emb_append_mono) simp_all

lemma served_signals:
  assumes reach: "server_reachable cfg s" and step: "server_step cfg s (ev, es) t" and p: "part_of s v = Some p" and q: "part_of s w = Some q"
    and own: "\<And>f d. ev = Message v f d \<Longrightarrow> \<exists>m ms. up = m # ms \<and> f = Text (Some m)"
    and up': "up' = (if \<exists>f d. ev = Message v f d then tl up else up)"
  shows "subseq (heard (p_id p) (frames_to w es) @ said (p_id q) up') (said (p_id q) up)"
    and "v \<noteq> w \<Longrightarrow> ready_of t v = OPEN \<Longrightarrow> ready_of t w = OPEN \<Longrightarrow> \<not> complains v es \<Longrightarrow>
      heard (p_id p) (frames_to w es) @ said (p_id q) up' = said (p_id q) up"
proof -
  have "subseq (heard (p_id p) (frames_to w es) @ said (p_id q) up') (said (p_id q) up) \<and>
    (v \<noteq> w \<and> ready_of t v = OPEN \<and> ready_of t w = OPEN \<and> \<not> complains v es \<longrightarrow>
      heard (p_id p) (frames_to w es) @ said (p_id q) up' = said (p_id q) up)"
  proof (cases "\<exists>f d. ev = Message v f d")
    case True
    then obtain f d m ms where ev: "ev = Message v f d" "up = m # ms" "f = Text (Some m)" using own by blast
    have "heard (p_id p) (frames_to w es) \<in> {[], signal_by ''targetId'' (p_id q) m}"
      using relayed_signal [OF reach step [unfolded ev(1)] p q] ev(3) by auto
    then have "subseq (heard (p_id p) (frames_to w es)) (signal_by ''targetId'' (p_id q) m)" by auto
    then show ?thesis
      using signal_passed [OF reach step [unfolded ev(1,3)] p q] by (auto simp: up' ev(1,2) intro!: list_emb_append_mono)
  next
    case False
    have "heard (p_id p) (frames_to w es) = []"
    proof (cases ev)
      case (Message u f d)
      then show ?thesis using relayed_signal [OF reach step [unfolded Message] p q] False by blast
    qed (use only_messages_signal [OF step] in auto)
    with False show ?thesis by (simp add: up')
  qed
  then show "subseq (heard (p_id p) (frames_to w es) @ said (p_id q) up') (said (p_id q) up)"
    and "v \<noteq> w \<Longrightarrow> ready_of t v = OPEN \<Longrightarrow> ready_of t w = OPEN \<Longrightarrow> \<not> complains v es \<Longrightarrow>
      heard (p_id p) (frames_to w es) @ said (p_id q) up' = said (p_id q) up" by blast+
qed

fun ends :: "nat \<Rightarrow> network_event \<Rightarrow> bool" where
  "ends v (AtServer (Close u) es) = (u = v)"
| "ends v l = False"

lemma stay_network:
  assumes "network_step cfg N l M" and "part_of (nw_server N) v = Some p" and "\<not> ends v l"
  shows "part_of (nw_server M) v = Some p \<and> ready_of (nw_server N) v \<le> ready_of (nw_server M) v"
  using assms(1)
proof cases
  case (serves ev es t)
  then have "ev \<noteq> Close v" using assms(3) by auto
  with stay_step [OF serves(3) assms(2)] serves show ?thesis by simp
qed (use assms(2) in simp_all)

lemma signal_step:
  assumes inv: "network_inv cfg N" and step: "network_step cfg N l M" and page: "nw_pages N v \<noteq> None"
    and p: "part_of (nw_server N) v = Some p" and q: "part_of (nw_server N) w = Some q"
  shows "subseq (got_at w (p_id p) l @ in_flight M v (p_id p) w (p_id q)) (in_flight N v (p_id p) w (p_id q) @ sent_at v (p_id q) l)"
    and "v \<noteq> w \<Longrightarrow> ready_of (nw_server M) v = OPEN \<Longrightarrow> ready_of (nw_server M) w = OPEN \<Longrightarrow> \<not> complaint v l \<Longrightarrow>
      got_at w (p_id p) l @ in_flight M v (p_id p) w (p_id q) = in_flight N v (p_id p) w (p_id q) @ sent_at v (p_id q) l"
proof -
  have "subseq (got_at w (p_id p) l @ in_flight M v (p_id p) w (p_id q)) (in_flight N v (p_id p) w (p_id q) @ sent_at v (p_id q) l) \<and>
    (v \<noteq> w \<and> ready_of (nw_server M) v = OPEN \<and> ready_of (nw_server M) w = OPEN \<and> \<not> complaint v l \<longrightarrow>
      got_at w (p_id p) l @ in_flight M v (p_id p) w (p_id q) = in_flight N v (p_id p) w (p_id q) @ sent_at v (p_id q) l)"
    using step
  proof cases
    case (serves ev es t)
    have reach: "server_reachable cfg (nw_server N)" using inv by (simp add: network_inv_def)
    have own: "\<exists>m ms. nw_up N v = m # ms \<and> f = Text (Some m)" if "ev = Message v f d" for f d
      using serves(4) page that by (auto split: option.splits list.splits)
    have up: "read_up ev (nw_up N) v = (if \<exists>f d. ev = Message v f d then tl (nw_up N v) else nw_up N v)"
      by (rule read_up_if)
    from served_signals [OF reach serves(3) p q own up] serves show ?thesis
      by (auto simp: in_flight_def intro!: list_emb_append_mono)
  qed (use page in \<open>auto simp: in_flight_def\<close>)
  then show "subseq (got_at w (p_id p) l @ in_flight M v (p_id p) w (p_id q)) (in_flight N v (p_id p) w (p_id q) @ sent_at v (p_id q) l)"
    and "v \<noteq> w \<Longrightarrow> ready_of (nw_server M) v = OPEN \<Longrightarrow> ready_of (nw_server M) w = OPEN \<Longrightarrow> \<not> complaint v l \<Longrightarrow>
      got_at w (p_id p) l @ in_flight M v (p_id p) w (p_id q) = in_flight N v (p_id p) w (p_id q) @ sent_at v (p_id q) l" by blast+
qed

lemma page_stays: "network_step cfg N l M \<Longrightarrow> nw_pages N v \<noteq> None \<Longrightarrow> nw_pages M v \<noteq> None"
  by (induction rule: network_step.induct) auto

lemma ready_run:
  "execution (network_step cfg) N ls M \<Longrightarrow> part_of (nw_server N) v = Some p \<Longrightarrow> list_all (\<lambda>l. \<not> ends v l) ls \<Longrightarrow>
   part_of (nw_server M) v = Some p \<and> ready_of (nw_server N) v \<le> ready_of (nw_server M) v"
proof (induction rule: execution.induct)
  case (execution_cons N l L ls M)
  from stay_network [OF execution_cons(1,4)] execution_cons(3,5) show ?case by auto
qed simp

lemma subseq_chain: "subseq (a @ b) (c @ d) \<Longrightarrow> subseq (e @ f) (b @ g) \<Longrightarrow> subseq (a @ e @ f) (c @ d @ g)"
proof -
  assume first: "subseq (a @ b) (c @ d)" and rest: "subseq (e @ f) (b @ g)"
  have "subseq (a @ e @ f) (a @ b @ g)" by (rule list_emb_append_mono [OF _ rest]) simp
  moreover have "subseq ((a @ b) @ g) ((c @ d) @ g)" by (rule list_emb_append_mono [OF first]) simp
  ultimately show ?thesis by (simp add: subseq_order.order_trans [of "a @ e @ f" "a @ b @ g"])
qed

lemma signal_run:
  "execution (network_step cfg) N ls M \<Longrightarrow> network_inv cfg N \<Longrightarrow> nw_pages N v \<noteq> None \<Longrightarrow> part_of (nw_server N) v = Some p \<Longrightarrow>
   part_of (nw_server N) w = Some q \<Longrightarrow> list_all (\<lambda>l. \<not> ends v l \<and> \<not> ends w l) ls \<Longrightarrow>
   subseq (signals_got w (p_id p) ls @ in_flight M v (p_id p) w (p_id q)) (in_flight N v (p_id p) w (p_id q) @ signals_sent v (p_id q) ls) \<and>
   (v \<noteq> w \<and> OPEN \<le> ready_of (nw_server N) v \<and> OPEN \<le> ready_of (nw_server N) w \<and> ready_of (nw_server M) v = OPEN \<and>
    ready_of (nw_server M) w = OPEN \<and> list_all (\<lambda>l. \<not> complaint v l) ls \<longrightarrow>
      signals_got w (p_id p) ls @ in_flight M v (p_id p) w (p_id q) = in_flight N v (p_id p) w (p_id q) @ signals_sent v (p_id q) ls)"
proof (induction rule: execution.induct)
  case (execution_cons N l L ls M)
  have ends: "\<not> ends v l" "\<not> ends w l" "list_all (\<lambda>l. \<not> ends v l) ls" "list_all (\<lambda>l. \<not> ends w l) ls"
    using execution_cons(8) by (auto simp: list_all_iff)
  note step = signal_step [OF execution_cons(4,1,5-7)]
  note v = stay_network [OF execution_cons(1,6) ends(1)] and w = stay_network [OF execution_cons(1,7) ends(2)]
  have inv: "network_inv cfg L" by (rule network_step_inv [OF execution_cons(4,1)])
  note IH = execution_cons(3) [OF inv page_stays [OF execution_cons(1,5)] conjunct1 [OF v] conjunct1 [OF w]]
  have "subseq (signals_got w (p_id p) ls @ in_flight M v (p_id p) w (p_id q)) (in_flight L v (p_id p) w (p_id q) @ signals_sent v (p_id q) ls)"
    using IH execution_cons(8) by simp
  from subseq_chain [OF step(1) this] have sub: "subseq (signals_got w (p_id p) (l # ls) @ in_flight M v (p_id p) w (p_id q))
      (in_flight N v (p_id p) w (p_id q) @ signals_sent v (p_id q) (l # ls))" by (simp add: signals_got_def signals_sent_def)
  have all: "signals_got w (p_id p) (l # ls) @ in_flight M v (p_id p) w (p_id q) = in_flight N v (p_id p) w (p_id q) @ signals_sent v (p_id q) (l # ls)"
    if c: "v \<noteq> w" "OPEN \<le> ready_of (nw_server N) v" "OPEN \<le> ready_of (nw_server N) w" "ready_of (nw_server M) v = OPEN"
      "ready_of (nw_server M) w = OPEN" "list_all (\<lambda>l. \<not> complaint v l) (l # ls)"
  proof -
    have "OPEN \<le> ready_of (nw_server L) v" "OPEN \<le> ready_of (nw_server L) w" using v w c(2,3) by auto
    moreover have "ready_of (nw_server L) v = OPEN" "ready_of (nw_server L) w = OPEN"
      using calculation ready_run [OF execution_cons(2) conjunct1 [OF v] ends(3)] ready_run [OF execution_cons(2) conjunct1 [OF w] ends(4)] c(4,5)
        open_between by simp_all
    ultimately show ?thesis using step(2) IH execution_cons(8) c by (simp add: signals_got_def signals_sent_def)
  qed
  from sub all show ?case by blast
qed (simp add: signals_got_def signals_sent_def)

text \<open>C4. Signals arrive in order, each at most once and unchanged, and none is lost without a word. Between two
  connections that stay joined, over any run of the whole system: what the page at \<open>w\<close> has taken in the
  name of the participant \<open>p\<close>, followed by what is still on its way, is a subsequence of what was on its way
  before, followed by what the page at \<open>v\<close> has sent for the participant \<open>q\<close> since; nothing is invented,
  repeated, reordered or altered. If both sockets are open and the server has not answered \<open>v\<close> with an
  error, it is all of it.\<close>

theorem signals_in_order:
  assumes "network_reachable cfg N" and "execution (network_step cfg) N ls M" and "nw_pages N v \<noteq> None"
    and "part_of (nw_server N) v = Some p" and "part_of (nw_server N) w = Some q"
    and "list_all (\<lambda>l. \<not> ends v l \<and> \<not> ends w l) ls"
  shows "subseq (signals_got w (p_id p) ls @ in_flight M v (p_id p) w (p_id q)) (in_flight N v (p_id p) w (p_id q) @ signals_sent v (p_id q) ls) \<and>
    (v \<noteq> w \<and> OPEN \<le> ready_of (nw_server N) v \<and> OPEN \<le> ready_of (nw_server N) w \<and> ready_of (nw_server M) v = OPEN \<and>
     ready_of (nw_server M) w = OPEN \<and> list_all (\<lambda>l. \<not> complaint v l) ls \<longrightarrow>
       signals_got w (p_id p) ls @ in_flight M v (p_id p) w (p_id q) = in_flight N v (p_id p) w (p_id q) @ signals_sent v (p_id q) ls)"
  by (rule signal_run [OF assms(2) network_reachable_inv [OF assms(1)] assms(3-6)])

end
