(* ===== verification/EndToEnd.thy ===== *)
theory EndToEnd
  imports Channels
begin

text \<open>
  From one session to the other through the whole system: the session of a page, while it runs inside
  the page and the page inside the network, makes exactly the steps of \<open>WebRtcSession\<close>, so that what was
  shown of a session alone and of the channels together says where a candidate goes that a page sends.
\<close>

section \<open>A session is not closed by its own steps\<close>

lemma throws_closed: "throws s i err = (t, es) \<Longrightarrow> rt_closed t = rt_closed s"
  by (auto simp: throws_def finished_def)

lemma answer_tracks_closed: "answer_tracks s i ks = (t, es) \<Longrightarrow> rt_closed t = rt_closed s"
  by (cases ks) (auto simp: await_def split: option.splits dest: throws_closed)

lemma drain_closed: "drain s i a cs offer = (t, es) \<Longrightarrow> rt_closed t = rt_closed s"
  by (cases cs) (auto simp: await_def finished_def split: if_splits dest: answer_tracks_closed)

lemma resume_closed: "resume s i p a k = (t, es) \<Longrightarrow> rt_closed t = rt_closed s"
  by (cases k) (auto simp: await_def finished_def set_peer_def split: if_splits dest: throws_closed answer_tracks_closed drain_closed)

lemma begin_op_closed: "begin_op s i op = (t, es) \<Longrightarrow> rt_closed t = rt_closed s"
proof -
  assume op: "begin_op s i op = (t, es)"
  obtain s1 p made where e: "ensure_peer s i = (s1, p, made)" by (cases "ensure_peer s i")
  then have "rt_closed s1 = rt_closed s" by (auto simp: ensure_peer_def Let_def split: option.splits)
  with op e show ?thesis
    by (cases op) (auto simp: await_def finished_def set_peer_def split: option.splits if_splits prod.splits dest: throws_closed)
qed

lemma step_closed: "session_step s (ev, es) t \<Longrightarrow> ev \<noteq> CloseAll \<Longrightarrow> rt_closed t = rt_closed s"
proof (induction s "(ev, es)" t rule: session_step.induct)
  case (begin_next s i op ops t)
  then show ?case using begin_op_closed by (fastforce simp: dequeue_def)
next
  case (start_with s st ps)
  have "rt_closed (fold (\<lambda>p s. enqueue s (get_prop p (js ''id'')) Offer) ps u) = rt_closed u" for u
    by (induction ps arbitrary: u) (simp_all add: enqueue_def)
  then show ?case by (simp add: start_session_def)
qed (auto simp: enqueue_def dequeue_def removePeer_def ontrack_def set_peer_def replaceTrack_def track_replaced_def replace_rejected_def
    dest: throws_closed resume_closed)

section \<open>The page runs its session\<close>

text \<open>The listeners of the session, and no others that would hand it a message.\<close>

definition wired :: "signal_listener client \<Rightarrow> bool" where
  "wired c \<longleftrightarrow> (\<forall>mt \<in> set signal_types. client_calls c (js mt) = [OnWebrtc mt]) \<and>
     (\<forall>ty. ty \<notin> js ` set signal_types \<longrightarrow> set (client_calls c ty) \<inter> range OnWebrtc = {})"

lemma room_listeners_kept:
  "ap_await (fold run_room_listener cs a) = ap_await a" "ap_webrtc (fold run_room_listener cs a) = ap_webrtc a"
  by (induction cs arbitrary: a) simp_all

lemma app_add_kept [simp]: "ap_await (app_add p a) = ap_await a" "ap_webrtc (app_add p a) = ap_webrtc a"
  and app_remove_kept [simp]: "ap_await (app_remove i a) = ap_await a" "ap_webrtc (app_remove i a) = ap_webrtc a"
  by (simp_all add: app_add_def app_remove_def split_beta room_listeners_kept)

lemma leave_await [simp]: "ap_await (fst (leaveRoom a)) = ap_await a"
  by (simp add: leaveRoom_def Let_def split_beta)

lemma listener_await: "ap_await (fst (run_signal_listener h v a)) = ap_await a"
  by (cases h) (auto simp: split_beta Let_def split: option.split)

lemma outs_await: "ap_await (fst (run_outs outs a)) = ap_await a"
proof (induction outs arbitrary: a)
  case (Cons x outs)
  then show ?case by (cases x) (simp_all add: split_beta listener_await)
qed simp

lemma with_ui_webrtc [simp]: "ap_webrtc (with_ui f a) = ap_webrtc a"
  by (simp add: with_ui_def)

definition calm :: "signal_listener \<Rightarrow> bool" where
  "calm h \<longleftrightarrow> h \<noteq> OnLeft \<and> h \<noteq> OnDisconnected \<and> h \<notin> range OnWebrtc"

lemma calm_outs: "\<forall>h \<in> set hs. calm h \<Longrightarrow> ap_webrtc (fst (run_outs (map (\<lambda>h. CallListener h v) hs) a)) = ap_webrtc a"
proof (induction hs arbitrary: a)
  case (Cons h hs)
  then have "ap_webrtc (fst (run_signal_listener h v a)) = ap_webrtc a"
    by (cases h) (auto simp: calm_def Let_def)
  with Cons show ?case by (simp add: split_beta)
qed simp

text \<open>What a frame does to the session.\<close>

definition session_frame :: "jsval \<Rightarrow> session \<Rightarrow> session" where
  "session_frame m s =
     (let payload = get_prop m (js ''payload''); i = get_prop payload (js ''participantId'') in
      if nullish payload then s
      else if msg_type m = Str (js ''participant.left'') then fst (removePeer s i)
      else case find (\<lambda>t. msg_type m = Str (js t)) relay_types of
        Some t \<Rightarrow> enqueue s i (Handle t payload)
      | None \<Rightarrow> s)"

lemma find_type: "t \<in> set relay_types \<Longrightarrow> find (\<lambda>u. Str (js t) = Str (js u)) relay_types = Some t"
  by (auto simp: relay_types_def)

lemma frame_session:
  assumes "in_meeting a ps" and "ap_signaling a = Some c" and "wired c" and "ap_webrtc a = Some s" and "msg_type m \<noteq> Str (js ''disconnected'')"
  shows "ap_webrtc (fst (app_frame j m a)) = Some (session_frame m s)"
proof -
  let ?c1 = "fst (onmessage c (Some m))" and ?outs = "snd (onmessage c (Some m))" and ?v = "get_prop m (js ''payload'')"
  let ?a1 = "a\<lparr>ap_signaling := Some ?c1\<rparr>" let ?b = "fst (run_outs ?outs ?a1)"
  have ok: "listeners_ok c" and await: "ap_await a = AwaitNothing" using assms(1,2) by (auto simp: in_meeting_def)
  have "ap_await ?b = AwaitNothing" using await by (simp add: outs_await)
  then have frame: "fst (app_frame j m a) = ?b" using assms(2) by (simp add: app_frame_def settle_join_def split_beta)
  consider (left) "msg_type m = Str (js ''participant.left'')" | (relay) t where "t \<in> set relay_types" "msg_type m = Str (js t)"
    | (other) "msg_type m \<noteq> Str (js ''participant.left'')" "\<And>t. t \<in> set relay_types \<Longrightarrow> msg_type m \<noteq> Str (js t)" by blast
  then show ?thesis
  proof cases
    case left
    then have outs: "?outs = [CallListener OnLeft ?v]" using onmessage_outs [of c m] ok by (simp add: listeners_ok_def)
    have "find (\<lambda>t. msg_type m = Str (js t)) relay_types = None" by (simp add: left relay_types_def)
    then show ?thesis
      unfolding frame outs using assms(4) left by (auto simp: session_frame_def split_beta Let_def)
  next
    case (relay t)
    then have "?outs = [CallListener (OnWebrtc t) ?v]"
      using onmessage_outs [of c m] assms(3) by (auto simp: wired_def signal_relay_types) (auto simp: relay_types_def)
    moreover have "msg_type m \<noteq> Str (js ''participant.left'')" using relay by (auto simp: relay_types_def)
    ultimately show ?thesis
      unfolding frame using assms(4) relay find_type [OF relay(1)] by (auto simp: session_frame_def Let_def)
  next
    case other
    have "\<exists>hs. ?outs = map (\<lambda>h. CallListener h ?v) hs \<and> (\<forall>h \<in> set hs. calm h)"
    proof (cases "msg_type m")
      case (Str ty)
      have "ty \<notin> js ` set signal_types" using other(2) Str by (auto simp: signal_relay_types)
      then have none: "set (client_calls c ty) \<inter> range OnWebrtc = {}" using assms(3) unfolding wired_def by blast
      have "calm h" if "h \<in> set (client_calls c ty)" for h
        using that ok none assms(5) other(1) Str unfolding listeners_ok_def calm_def
        by (cases "ty = js ''participant.joined''") auto
      with Str onmessage_outs [of c m] show ?thesis by auto
    qed (use onmessage_outs [of c m] in auto)
    moreover have "session_frame m s = s"
      using other by (auto simp: session_frame_def Let_def relay_types_def split: option.split)
    ultimately show ?thesis unfolding frame using calm_outs assms(4) by auto
  qed
qed
section \<open>A step of the page is a run of its session\<close>

definition candidates :: "(string \<times> jsval) list \<Rightarrow> jsval list" where
  "candidates xs = map snd (filter (\<lambda>(t, x). t = ''webrtc.iceCandidate'') xs)"

lemma candidates_simps [simp]: "candidates [] = []" "candidates (xs @ ys) = candidates xs @ candidates ys"
  by (simp_all add: candidates_def)

text \<open>A run in which the candidates \<open>rs\<close> arrive from the peer \<open>i\<close> and \<open>cs\<close> are added, and none of its operations
  fails unless \<open>bad\<close>.\<close>

definition session_run_of :: "jstring \<Rightarrow> jsval list \<Rightarrow> jsval list \<Rightarrow> bool \<Rightarrow> session \<Rightarrow> session \<Rightarrow> bool" where
  "session_run_of i rs cs bad s t \<longleftrightarrow> (\<exists>ls. execution session_step s ls t \<and> candidates_received (Str i) ls = rs \<and>
     candidates_added (Str i) ls = cs \<and> (\<not> bad \<longrightarrow> list_all (\<lambda>(ev, es). \<not> failed_for (Str i) ev) ls))"

lemma run_none: "session_run_of i [] [] bad s s"
  unfolding session_run_of_def by (intro exI [of _ "[]"]) (simp add: candidates_received_def candidates_added_def execution_nil)

lemma run_one: "session_step s (ev, es) t \<Longrightarrow> session_run_of i (ice_in (Str i) ev) (ice_added (Str i) es) (failed_for (Str i) ev) s t"
  unfolding session_run_of_def
  by (intro exI [of _ "[(ev, es)]"]) (auto simp: candidates_received_def candidates_added_def intro: execution_cons execution_nil)

lemma run_append:
  "session_run_of i rs cs x s t \<Longrightarrow> session_run_of i rs' cs' y t u \<Longrightarrow> session_run_of i (rs @ rs') (cs @ cs') (x \<or> y) s u"
  unfolding session_run_of_def
proof (elim exE conjE)
  fix ls ms
  assume asm: "execution session_step s ls t" "execution session_step t ms u" "candidates_received (Str i) ls = rs"
    "candidates_received (Str i) ms = rs'" "candidates_added (Str i) ls = cs" "candidates_added (Str i) ms = cs'"
    "\<not> x \<longrightarrow> list_all (\<lambda>(ev, es). \<not> failed_for (Str i) ev) ls" "\<not> y \<longrightarrow> list_all (\<lambda>(ev, es). \<not> failed_for (Str i) ev) ms"
  from execution_append [OF asm(1,2)] asm(3-8)
  show "\<exists>ls. execution session_step s ls u \<and> candidates_received (Str i) ls = rs @ rs' \<and> candidates_added (Str i) ls = cs @ cs' \<and>
      (\<not> (x \<or> y) \<longrightarrow> list_all (\<lambda>(ev, es). \<not> failed_for (Str i) ev) ls)"
    by (intro exI [of _ "ls @ ms"]) (simp add: candidates_received_def candidates_added_def)
qed

lemma run_weaken: "session_run_of i rs cs x s t \<Longrightarrow> (x \<longrightarrow> y) \<Longrightarrow> session_run_of i rs cs y s t"
  by (auto simp: session_run_of_def)

text \<open>A frame.\<close>

lemma signal_in_frame:
  assumes "t \<in> set relay_types" and "msg_type m = Str (js t)"
  shows "candidates (signal_by ''participantId'' i m) = ice_in (Str i) (Incoming t (get_prop m (js ''payload'')))"
  by (simp add: signal_by_type [OF assms(2,1)] msg_field_def candidates_def content_def)

lemma frame_run:
  assumes "\<not> rt_closed s"
  shows "session_run_of i (candidates (signal_by ''participantId'' i m)) [] False s (session_frame m s) \<and> \<not> rt_closed (session_frame m s)"
proof -
  let ?v = "get_prop m (js ''payload'')" let ?j = "get_prop ?v (js ''participantId'')"
  consider (null) "nullish ?v" | (left) "msg_type m = Str (js ''participant.left'')" "\<not> nullish ?v"
    | (relay) t where "t \<in> set relay_types" "msg_type m = Str (js t)" "\<not> nullish ?v"
    | (other) "msg_type m \<noteq> Str (js ''participant.left'')" "\<And>t. t \<in> set relay_types \<Longrightarrow> msg_type m \<noteq> Str (js t)" by blast
  then show ?thesis
  proof cases
    case null
    then have "signal_by ''participantId'' i m = []"
      by (auto simp: signal_by_def msg_field_def nullish_def get_prop.simps split: option.split)
    with null run_none assms show ?thesis by (simp add: session_frame_def)
  next
    case left
    have "signal_by ''participantId'' i m = []" using left(1) by (intro signal_by_other) (auto simp: relay_types_def)
    moreover have "session_step s (PeerLeft ?j, snd (removePeer s ?j)) (fst (removePeer s ?j))"
      by (rule session_step.peer_left) simp
    from run_one [OF this, of i] have "session_run_of i [] [] False s (fst (removePeer s ?j))"
      by (simp add: removePeer_def split: if_splits)
    moreover have "rt_closed (fst (removePeer s ?j)) = rt_closed s" by (simp add: removePeer_def)
    ultimately show ?thesis using left assms by (simp add: session_frame_def Let_def)
  next
    case (relay t)
    have "session_step s (Incoming t ?v, []) (enqueue s ?j (Handle t ?v))"
      using assms relay(1) by (intro session_step.incoming) (simp_all add: signal_relay_types)
    from run_one [OF this, of i] have "session_run_of i (candidates (signal_by ''participantId'' i m)) [] False s (enqueue s ?j (Handle t ?v))"
      unfolding signal_in_frame [OF relay(1,2)] by simp
    moreover have "msg_type m \<noteq> Str (js ''participant.left'')" using relay by (auto simp: relay_types_def)
    moreover have "rt_closed (enqueue s ?j (Handle t ?v)) = rt_closed s" by (simp add: enqueue_def)
    ultimately show ?thesis using relay find_type [OF relay(1)] assms by (simp add: session_frame_def Let_def)
  next
    case other
    then have "signal_by ''participantId'' i m = []" by (intro signal_by_other) auto
    moreover have "find (\<lambda>t. msg_type m = Str (js t)) relay_types = None" using other(2) by (auto simp: find_None_iff)
    ultimately show ?thesis using other run_none assms by (simp add: session_frame_def Let_def)
  qed
qed

text \<open>A control: a track is replaced, or has been.\<close>

lemma publish_run:
  assumes "ap_webrtc a = Some s"
  shows "\<exists>t. ap_webrtc (fst (publish hs s old new a)) = Some t \<and> session_run_of i [] [] False s t \<and> rt_closed t = rt_closed s"
proof -
  have step: "session_step s (Replace old new, snd (replaceTrack s hs old new)) (fst (replaceTrack s hs old new))"
    by (rule session_step.replace) simp
  have "ice_added (Str i) (snd (replaceTrack s hs old new)) = []"
    by (rule ice_added_none) (auto simp: replaceTrack_def split: option.splits if_splits)
  with run_one [OF step, of i] have "session_run_of i [] [] False s (fst (replaceTrack s hs old new))" by simp
  then show ?thesis by (simp add: publish_def split_beta replaceTrack_def)
qed

lemma replaced_run: "session_run_of i [] [] False s (replace_done old new s) \<and> rt_closed (replace_done old new s) = rt_closed s"
proof (cases "(old, new) \<in> set (rt_replacing s)")
  case True
  from run_one [OF session_step.replaced [OF True], of i] True show ?thesis by (simp add: replace_done_def track_replaced_def)
qed (simp add: replace_done_def run_none)

lemma rejected_run: "session_run_of i [] [] False s (replace_failed old new s) \<and> rt_closed (replace_failed old new s) = rt_closed s"
proof (cases "(old, new) \<in> set (rt_replacing s)")
  case True
  from run_one [OF session_step.rejected [OF True], of i] True show ?thesis by (simp add: replace_failed_def replace_rejected_def)
qed (simp add: replace_failed_def run_none)

lemma finish_webrtc [simp]:
  "ap_webrtc (finish_mute x a) = ap_webrtc a" "ap_webrtc (finish_video x a) = ap_webrtc a"
  "ap_webrtc (mic_failed a) = ap_webrtc a" "ap_webrtc (cam_failed a) = ap_webrtc a"
  by (simp_all add: finish_mute_def finish_video_def mic_failed_def cam_failed_def)

text \<open>The session before and after, with a run between that no candidate takes part in.\<close>

definition session_kept :: "jstring \<Rightarrow> app \<Rightarrow> app \<Rightarrow> bool" where
  "session_kept i a b \<longleftrightarrow> (\<forall>s. ap_webrtc a = Some s \<longrightarrow>
     (\<exists>t. ap_webrtc b = Some t \<and> session_run_of i [] [] False s t \<and> rt_closed t = rt_closed s))"

lemma session_kept_same: "ap_webrtc b = ap_webrtc a \<Longrightarrow> session_kept i a b"
  by (simp add: session_kept_def run_none)

lemma session_kept_publish: "ap_webrtc c = ap_webrtc a \<Longrightarrow> ap_webrtc a = Some s \<Longrightarrow> session_kept i a (fst (publish hs s old new c))"
  using publish_run [of c s hs old new i] by (simp add: session_kept_def)

lemma session_kept_done: "ap_webrtc b = map_option (replace_done old new) (ap_webrtc a) \<Longrightarrow> session_kept i a b"
  using replaced_run by (auto simp: session_kept_def)

lemma session_kept_rejected: "ap_webrtc b = map_option (replace_failed old new) (ap_webrtc a) \<Longrightarrow> session_kept i a b"
  using rejected_run by (auto simp: session_kept_def)

lemma given_session:
  "microphone_given hs v got a = (b, es, p) \<Longrightarrow> session_kept i a b"
  "camera_given hs v got a = (b, es, p) \<Longrightarrow> session_kept i a b"
proof -
  have pub: "ap_webrtc a = Some s \<Longrightarrow> session_kept i a (fst (publish hs s None new (a\<lparr>ap_devices := d\<rparr>)))" for s new d
    by (rule session_kept_publish) simp_all
  show "microphone_given hs v got a = (b, es, p) \<Longrightarrow> session_kept i a b"
    by (auto simp: microphone_given_def Let_def split_beta intro: pub session_kept_same split: option.splits sum.splits)
  show "camera_given hs v got a = (b, es, p) \<Longrightarrow> session_kept i a b"
    by (auto simp: camera_given_def Let_def split_beta intro: pub session_kept_same split: option.splits sum.splits)
qed

lemma screen_begin_session: "stopScreenShare_begin hs a = (b, es, r) \<Longrightarrow> session_kept i a b"
proof -
  have "session_kept i a (fst (publish hs s old new a))" if "ap_webrtc a = Some s" for s old new
    by (rule session_kept_publish) (simp_all add: that)
  then show "stopScreenShare_begin hs a = (b, es, r) \<Longrightarrow> session_kept i a b"
    by (fastforce simp: stopScreenShare_begin_def Let_def split_beta intro: session_kept_same split: option.splits list.splits)
qed

lemma share_failed_webrtc [simp]: "ap_webrtc (share_failed message a) = ap_webrtc a"
  by (simp add: share_failed_def with_ui_def)

lemma session_kept_failed: "session_kept i a b \<Longrightarrow> session_kept i a (share_failed message b)"
  by (simp add: session_kept_def)

lemma screen_stops_session:
  "screen_ended message hs a = (b, es, r) \<Longrightarrow> session_kept i a b"
  "toggleScreenShare message hs a = Some (b, es, r) \<Longrightarrow> session_kept i a b"
  by (auto simp: screen_ended_def toggleScreenShare_def split: prod.splits sharing.splits if_splits
      dest: screen_begin_session intro: session_kept_failed)

lemma screen_given_session:
  assumes "screen_given message hs got a = (b, es, r)"
  shows "session_kept i a b"
proof -
  have "session_kept i a (fst (publish hs s old new (a\<lparr>ap_devices := d\<rparr>)))" if "ap_webrtc a = Some s" for s old new d
    by (rule session_kept_publish) (simp_all add: that)
  with assms show ?thesis
    by (auto simp: screen_given_def Let_def split_beta intro: session_kept_same split: option.splits)
qed

lemma control_session: "control_step c ev d \<Longrightarrow> of_room ev \<Longrightarrow> session_kept i (ct_app c) (ct_app d)"
proof (induction rule: control_step.induct)
  case (mic_published t c)
  show ?case by (rule session_kept_done) (simp add: microphone_published_def)
next
  case (cam_published t c)
  show ?case by (rule session_kept_done) (simp add: camera_published_def)
next
  case (mic_rejected t c)
  show ?case by (rule session_kept_rejected) (simp add: microphone_published_def)
next
  case (cam_rejected t c)
  show ?case by (rule session_kept_rejected) (simp add: camera_published_def)
next
  case (sharing_rejected old new c message)
  show ?case by (rule session_kept_rejected) (simp add: share_rejected_def)
next
  case (unsharing_rejected old new c message)
  show ?case by (rule session_kept_rejected) (simp add: share_rejected_def)
next
  case (screen_published old new c)
  show ?case by (rule session_kept_done) (simp add: screen_published_def with_ui_def)
next
  case (screen_taken old new c)
  show ?case by (rule session_kept_done) (simp add: stopScreenShare_end_def split_beta with_ui_def)
qed (auto simp: on_app_def given_session screen_stops_session screen_given_session update_audio_def preview_ready_def toggleMute_def toggleVideo_def camera_selected_def microphone_selected_def split_beta
    preview_captured_def back_to_lobby_def toggleRecording_def Let_def intro!: session_kept_same)

lemma run_calls_webrtc: "ap_webrtc (fst (run_calls st msg es a)) = ap_webrtc a"
proof (induction es arbitrary: a)
  case (Cons e es)
  have "ap_webrtc (fst (run_call st msg e a)) = ap_webrtc a"
    by (cases "(st, msg, e, a)" rule: run_call.cases) (auto simp: onRemoteTrack_def session_error_def split: option.splits sum.splits)
  with Cons show ?case by (simp add: split_beta)
qed simp

section \<open>A step of the page\<close>

fun heard_by :: "page_event \<Rightarrow> jstring \<Rightarrow> jsval list" where
  "heard_by (Take j m) i = candidates (signal_by ''participantId'' i m)"
| "heard_by ev i = []"

fun added_by :: "page_event \<Rightarrow> jstring \<Rightarrow> jsval list" where
  "added_by (Peer ev cs) i = ice_added (Str i) cs"
| "added_by ev i = []"

fun fails_by :: "page_event \<Rightarrow> jstring \<Rightarrow> bool" where
  "fails_by (Peer ev cs) i = failed_for (Str i) ev"
| "fails_by ev i = False"

lemma of_browser_ice: "of_browser a ev \<Longrightarrow> ice_in i ev = [] \<and> ev \<noteq> CloseAll"
  by (cases "(a, ev)" rule: of_browser.cases) auto

lemma page_session:
  assumes "page_step w a (ev, ms) b" and "in_meeting a ps" and "page_open w a" and "page_open w b"
    and s: "ap_webrtc a = Some s" "\<not> rt_closed s" and c: "ap_signaling a = Some c" "wired c"
    and alive: "\<And>j m. ev = Take j m \<Longrightarrow> msg_type m \<noteq> Str (js ''disconnected'')"
  shows "\<exists>t d. ap_webrtc b = Some t \<and> \<not> rt_closed t \<and> ap_signaling b = Some d \<and> wired d \<and>
    session_run_of i (heard_by ev i) (added_by ev i) (fails_by ev i) s t"
proof -
  note no = step_open [OF assms(1,3,4)]
  have idle: "ap_await a = AwaitNothing" using assms(2) by (simp add: in_meeting_def)
  have settles: ?thesis if "b = fst (app_settles j f a)" "cl_listeners (f c) = cl_listeners c" "heard_by ev i = []" "added_by ev i = []" for j f
  proof -
    have "wired (f c)" using that(2) c(2) by (simp add: wired_def client_calls_def)
    with that c s idle run_none [of i "fails_by ev i" s] show ?thesis by (simp add: app_settles_def settle_join_def)
  qed
  from assms(1) show ?thesis
  proof cases
    case (page_takes j m es)
    have b: "b = fst (app_frame j m a)" using page_takes by simp
    have "ap_signaling b = Some (fst (onmessage c (Some m)))"
      using frame_shows [OF assms(2) alive [OF page_takes(1)], of j] c(1) unfolding b by simp
    moreover have "wired (fst (onmessage c (Some m)))" using c(2) by (simp add: wired_def)
    moreover have "ap_webrtc b = Some (session_frame m s)"
      unfolding b by (rule frame_session [OF assms(2) c s(1) alive [OF page_takes(1)]])
    ultimately show ?thesis using frame_run [OF s(2), of i m] run_weaken by (auto simp: page_takes(1))
  next
    case (page_errs j es)
    then show ?thesis by (intro settles [of j "onerror w"]) (simp_all add: app_errored_def)
  next
    case (page_ask_timeout c' k r j es)
    then show ?thesis by (intro settles [of j "request_timeout k"]) (simp_all add: app_request_timeout_def)
  next
    case (page_chats field es)
    then show ?thesis using s c run_none by simp
  next
    case (page_peers s' e cs t st msg es)
    then have s': "s' = s" and b: "b = fst (run_calls st msg cs (a\<lparr>ap_webrtc := Some t\<rparr>))" using s by simp_all
    have "ap_signaling b = ap_signaling a"
      using run_calls_kept [of "a\<lparr>ap_webrtc := Some t\<rparr>" st msg cs] by (simp add: b same_meeting_def)
    moreover have "ap_webrtc b = Some t" by (simp add: b run_calls_webrtc)
    ultimately show ?thesis
      using run_one [OF page_peers(4) [unfolded s'], of i] of_browser_ice [OF page_peers(5), of "Str i"] step_closed [OF page_peers(4)]
        page_peers(1) s' s(2) c by simp
  next
    case (page_controls cc e d)
    from control_session [OF page_controls(5,6), of i] s page_controls(1-4) obtain t where
      t: "ap_webrtc b = Some t" "session_run_of i [] [] False s t" "rt_closed t = rt_closed s" by (auto simp: session_kept_def)
    moreover have "ap_signaling b = ap_signaling a" using control_kept [OF page_controls(5,6)] page_controls(1-4) by (simp add: same_meeting_def)
    ultimately show ?thesis using run_weaken page_controls(1-4) s c by auto
  qed (use no in auto)
qed

section \<open>Every page in a meeting runs a session\<close>

definition runs_session :: "app \<Rightarrow> bool" where
  "runs_session a \<longleftrightarrow> (\<exists>s c. ap_webrtc a = Some s \<and> ap_signaling a = Some c \<and> wired c \<and> session_reachable s \<and> \<not> rt_closed s)"

lemma wired_on: "unwired c \<Longrightarrow> wired (webrtc_on c)"
  unfolding wired_def unwired_def webrtc_on_def signal_types_def by (auto simp: client_calls_on)

lemma start_session_runs: "session_reachable (start_session new_session st ps)" "\<not> rt_closed (start_session new_session st ps)"
proof -
  have step: "session_step new_session (StartWith st ps, []) (start_session new_session st ps)" by (rule session_step.start_with)
  then show "session_reachable (start_session new_session st ps)"
    unfolding session_reachable_def by (rule reachable_step [where stp = session_step, rotated]) (rule reachable_start, rule refl)
  show "\<not> rt_closed (start_session new_session st ps)" using step_closed [OF step] by (simp add: new_session_def)
qed

lemma answered_runs:
  assumes "asking i a" and "joined_answer i p ps m"
  shows "runs_session (fst (app_frame j m a))"
proof -
  from assms(1) obtain c where c: "ap_signaling a = Some c" "unwired c" by (auto simp: asking_def joining_def)
  then have "unwired (fst (onmessage c (Some m)))" by (simp add: unwired_def)
  with joined_shows [of a i m ps j] assms c show ?thesis
    using wired_on start_session_runs by (auto simp: runs_session_def asking_def joined_answer_def)
qed

lemma reachable_run: "session_run_of i rs cs x s t \<Longrightarrow> session_reachable s \<Longrightarrow> session_reachable t"
  unfolding session_run_of_def session_reachable_def by (auto intro: execution_reachable)

lemma page_step_runs:
  assumes "page_step w a (ev, ms) b" and "in_meeting a ps" and "page_open w a" and "page_open w b" and "runs_session a"
    and "\<And>j m. ev = Take j m \<Longrightarrow> msg_type m \<noteq> Str (js ''disconnected'')"
  shows "runs_session b"
proof -
  from assms(5) obtain s c where s: "ap_webrtc a = Some s" "\<not> rt_closed s" "ap_signaling a = Some c" "wired c" "session_reachable s"
    by (auto simp: runs_session_def)
  obtain t d where "ap_webrtc b = Some t" "\<not> rt_closed t" "ap_signaling b = Some d" "wired d"
    and run: "session_run_of undefined (heard_by ev undefined) (added_by ev undefined) (fails_by ev undefined) s t"
    using page_session [OF assms(1-4) s(1-4), of undefined] assms(6) by blast
  with reachable_run [OF run s(5)] show ?thesis by (simp add: runs_session_def)
qed

text \<open>A page that waits for the answer to its request is not in a meeting yet.\<close>

definition sessions_inv :: "config \<Rightarrow> network \<Rightarrow> bool" where
  "sessions_inv cfg N \<longleftrightarrow> network_inv cfg N \<and> (\<forall>w a. nw_pages N w = Some a \<and> page_open w a \<and> ready_of (nw_server N) w = OPEN \<and>
     ap_await a = AwaitNothing \<longrightarrow> runs_session a)"

lemma asking_awaits: "asking i a \<Longrightarrow> ap_await a \<noteq> AwaitNothing"
  by (auto simp: asking_def joining_def)

lemma seated_acts_runs:
  assumes "page_step w a (ev, ms) b" and "unseated s up down w a \<or> seated s down w a" and "page_open w a" and "page_open w b" and "takes ev = None"
    and "ap_await a = AwaitNothing \<longrightarrow> runs_session a"
  shows "ap_await b = AwaitNothing \<longrightarrow> runs_session b"
proof -
  have no: "ev \<noteq> Take j m" for j m using assms(5) by auto
  from assms(2) consider i where "asking i a" | ps where "in_meeting a ps" by (auto simp: unseated_def seated_def)
  then show ?thesis
  proof cases
    case 1
    then show ?thesis using asking_step [OF assms(1) _ assms(3,4) no] asking_awaits by blast
  next
    case 2
    then have "runs_session a" using assms(6) by (simp add: in_meeting_def)
    then show ?thesis using page_step_runs [OF assms(1) 2 assms(3,4)] no by blast
  qed
qed

lemma seated_reads_runs:
  assumes step: "page_step w a (Take j m, ms) b" and fits: "unseated s up (m # rest) w a \<or> seated s (m # rest) w a" and "page_open w a"
    and "page_open w b" and "ap_await a = AwaitNothing \<longrightarrow> runs_session a"
  shows "ap_await b = AwaitNothing \<longrightarrow> runs_session b"
proof -
  have b: "b = fst (app_frame j m a)" using step by (auto elim: page_takeE)
  from fits consider (refused) "unseated s up (m # rest) w a" | (answered) i p ps where "asking i a" "joined_answer i p ps m"
    | (meets) ps where "in_meeting a ps" "msg_type m \<noteq> Str (js ''disconnected'')"
    by (auto simp: seated_def catches_up_def)
  then show ?thesis
  proof cases
    case refused
    from unseated_reads [OF step this assms(4)] show ?thesis using asking_awaits by (auto simp: unseated_def)
  next
    case answered
    then show ?thesis using answered_runs unfolding b by blast
  next
    case meets
    then have "runs_session a" using assms(5) by (simp add: in_meeting_def)
    then show ?thesis using page_step_runs [OF step meets(1) assms(3,4)] meets(2) by auto
  qed
qed

lemma step_still_open:
  assumes "page_step w a (ev, ms) b" and "\<And>j. ev \<noteq> Opens j" and "page_open w b"
  shows "page_open w a"
  using step_socket [OF assms(1)] assms(2,3) by (auto simp: closes_def page_open_socket)

lemma sessions_step: "sessions_inv cfg N \<Longrightarrow> network_step cfg N l M \<Longrightarrow> sessions_inv cfg M"
proof -
  assume inv: "sessions_inv cfg N" and step: "network_step cfg N l M"
  have net: "network_inv cfg N" using inv by (simp add: sessions_inv_def)
  have "runs_session x" if x: "nw_pages M w = Some x" "page_open w x" "ready_of (nw_server M) w = OPEN" "ap_await x = AwaitNothing" for w x
  proof -
    have old: "runs_session x" if "nw_pages N w = Some x" "ready_of (nw_server N) w = OPEN"
      using inv that x by (auto simp: sessions_inv_def)
    have fits: "page_fits (nw_server N) (nw_up N w) (nw_down N w) w a" if "nw_pages N w = Some a" for a
      using net that by (simp add: network_inv_def)
    from step show ?thesis
    proof cases
      case (dials v a)
      then show ?thesis using x old lobby_dials [OF dials(7), of v]
        by (cases "w = v") (auto simp: page_open_socket page_dialing_socket)
    next
      case (page_acts v a ev ms b)
      show ?thesis
      proof (cases "w = v")
        case True
        then have b: "b = x" and N: "nw_pages N w = Some a" "ready_of (nw_server N) w = OPEN" using page_acts x by auto
        note st = page_acts(4) [folded True, unfolded b]
        show ?thesis
        proof (cases "\<exists>j. ev = Opens j")
          case True
          then obtain j where j: "ev = Opens j" by blast
          then have "dialing w a" "x = fst (app_opened j w a)"
            using st fits [OF N(1)] by (auto elim: page_openE simp: page_fits_def)
          then show ?thesis using dialing_opens [of w a j] asking_awaits x(4) by blast
        next
          case False
          then have open_a: "page_open w a" using step_still_open [OF st] x(2) by blast
          then have "unseated (nw_server N) (nw_up N w) (nw_down N w) w a \<or> seated (nw_server N) (nw_down N w) w a"
            using fits [OF N(1)] N(2) by (simp add: page_fits_def)
          moreover have "ap_await a = AwaitNothing \<longrightarrow> runs_session a" using inv N open_a by (simp add: sessions_inv_def)
          ultimately show ?thesis using seated_acts_runs [OF st _ open_a x(2) page_acts(5)] x(4) by blast
        qed
      qed (use page_acts x old in auto)
    next
      case (page_reads v a ev ms b m rest)
      show ?thesis
      proof (cases "w = v")
        case True
        then have b: "b = x" and N: "nw_pages N w = Some a" "ready_of (nw_server N) w = OPEN" "nw_down N w = m # rest"
          using page_reads x by auto
        obtain j where "ev = Take j m" using page_reads(5) by (cases ev) auto
        with page_reads(4) True b have st: "page_step w a (Take j m, ms) x" by simp
        then have open_a: "page_open w a" by (auto elim: page_takeE)
        then have "unseated (nw_server N) (nw_up N w) (m # rest) w a \<or> seated (nw_server N) (m # rest) w a"
          using fits [OF N(1)] N(2,3) by (simp add: page_fits_def)
        moreover have "ap_await a = AwaitNothing \<longrightarrow> runs_session a" using inv N open_a by (simp add: sessions_inv_def)
        ultimately show ?thesis using seated_reads_runs [OF st _ open_a x(2)] x(4) by blast
      qed (use page_reads x old in auto)
    next
      case (serves ev es t)
      have "ready_of (nw_server N) w \<le> ready_of t w"
      proof (rule ready_step [OF serves(3)])
        show "ev \<noteq> Connect w now rs" for now rs
          using serves x by (auto simp: page_open_socket page_dialing_socket)
      qed
      moreover have "OPEN \<le> ready_of (nw_server N) w" using fits [of x] serves x(1) by (simp add: page_fits_def)
      ultimately have "ready_of (nw_server N) w = OPEN" using serves x(3) open_between by simp
      then show ?thesis using old serves x(1) by simp
    qed
  qed
  then show ?thesis using network_step_inv [OF net step] unfolding sessions_inv_def by blast
qed

interpretation sessions_machine: machine "\<lambda>N. N = initial_network" "network_step cfg" "sessions_inv cfg" for cfg
proof
  show "sessions_inv cfg N" if "N = initial_network" for N
    using that network_machine.start_inv by (simp add: sessions_inv_def initial_network_def)
qed (rule sessions_step)

section \<open>A page over a run of the system\<close>

fun added_at :: "nat \<Rightarrow> jstring \<Rightarrow> network_event \<Rightarrow> jsval list" where
  "added_at w i (AtPage u ev ms) = (if u = w then added_by ev i else [])"
| "added_at w i l = []"

fun fails_at :: "nat \<Rightarrow> jstring \<Rightarrow> network_event \<Rightarrow> bool" where
  "fails_at w i (AtPage u ev ms) = (u = w \<and> fails_by ev i)"
| "fails_at w i l = False"

definition added :: "nat \<Rightarrow> jstring \<Rightarrow> network_event list \<Rightarrow> jsval list" where
  "added w i ls = concat (map (added_at w i) ls)"

lemma got_heard: "candidates (got_at w i (AtPage w ev ms)) = heard_by ev i"
  by (cases ev) simp_all

text \<open>A socket that is neither open nor connecting stays so.\<close>

lemma closes_step: "page_step w a (ev, ms) b \<Longrightarrow> closes w a \<Longrightarrow> closes w b"
  using step_socket [of w a ev ms b] by (auto simp: closes_def page_dialing_socket elim: page_openE)

lemma network_closes:
  "network_step cfg N l M \<Longrightarrow> nw_pages N w = Some a \<Longrightarrow> closes w a \<Longrightarrow> \<exists>b. nw_pages M w = Some b \<and> closes w b"
  by (induction rule: network_step.induct) (auto intro: closes_step)

lemma run_closes:
  "execution (network_step cfg) N ls M \<Longrightarrow> nw_pages N w = Some a \<Longrightarrow> closes w a \<Longrightarrow> \<exists>b. nw_pages M w = Some b \<and> closes w b"
proof (induction arbitrary: a rule: execution.induct)
  case (execution_cons N l L ls M)
  from network_closes [OF execution_cons(1,4,5)] execution_cons(3) show ?case by blast
qed simp

lemma open_or_closes:
  assumes "network_step cfg N l M" and "nw_pages N w = Some a" and "page_open w a"
  shows "\<exists>b. nw_pages M w = Some b \<and> (page_open w b \<or> closes w b)"
proof -
  have next_open: "page_open w b \<or> closes w b" if "page_step w a (ev, ms) b" for ev ms b
    using step_socket [OF that] that assms(3) by (auto simp: closes_def page_open_socket page_dialing_socket elim: page_openE)
  from assms show ?thesis by (induction rule: network_step.induct) (auto dest: next_open)
qed

text \<open>One step of the system, seen from the session of a page in the meeting.\<close>

lemma followed_step:
  assumes inv: "sessions_inv cfg N" and step: "network_step cfg N l M" and a: "nw_pages N w = Some a" "page_open w a" "ap_await a = AwaitNothing"
    and q: "part_of (nw_server N) w \<noteq> None" and rdy: "ready_of (nw_server N) w = OPEN" and b: "nw_pages M w = Some b" "page_open w b"
    and s: "ap_webrtc a = Some s"
  shows "ap_await b = AwaitNothing \<and> (\<exists>t. ap_webrtc b = Some t \<and> session_run_of i (candidates (got_at w i l)) (added_at w i l) (fails_at w i l) s t)"
proof -
  have "page_fits (nw_server N) (nw_up N w) (nw_down N w) w a" using inv a(1) by (simp add: sessions_inv_def network_inv_def)
  with a rdy q obtain ps where meets: "in_meeting a ps" "\<forall>m \<in> set (nw_down N w). msg_type m \<noteq> Str (js ''disconnected'')"
    using asking_awaits by (fastforce simp: page_fits_def unseated_def seated_def catches_up_def)
  obtain c where c: "ap_signaling a = Some c" "wired c" "\<not> rt_closed s"
  proof -
    have "runs_session a" using inv a rdy unfolding sessions_inv_def by blast
    with s that show thesis by (auto simp: runs_session_def)
  qed
  have own: "ap_await b = AwaitNothing \<and> (\<exists>t. ap_webrtc b = Some t \<and> session_run_of i (heard_by ev i) (added_by ev i) (fails_by ev i) s t)"
    if st: "page_step w a (ev, ms) b" and "\<And>j m. ev = Take j m \<Longrightarrow> m \<in> set (nw_down N w)" for ev ms
  proof
    have alive: "msg_type m \<noteq> Str (js ''disconnected'')" if "ev = Take j m" for j m using meets(2) that \<open>\<And>j m. ev = Take j m \<Longrightarrow> _\<close> by blast
    show "\<exists>t. ap_webrtc b = Some t \<and> session_run_of i (heard_by ev i) (added_by ev i) (fails_by ev i) s t"
      using page_session [OF st meets(1) a(2) b(2) s c(3,1,2), where i = i] alive by blast
    show "ap_await b = AwaitNothing"
    proof (cases "\<exists>j m. ev = Take j m")
      case True
      then obtain j m where ev: "ev = Take j m" by blast
      then have "b = fst (app_frame j m a)" using st by (auto elim: page_takeE)
      with frame_shows [OF meets(1) alive [OF ev], of j] show ?thesis by (simp add: in_meeting_def)
    next
      case False
      with meeting_step [OF st meets(1) a(2) b(2)] show ?thesis by (auto simp: in_meeting_def)
    qed
  qed
  have other: ?thesis if "b = a" "got_at w i l = []" "added_at w i l = []" using that a(3) s run_none by simp
  from step show ?thesis
  proof cases
    case (page_acts v a' ev ms b')
    show ?thesis
    proof (cases "v = w")
      case True
      then have st: "page_step w a (ev, ms) b" using page_acts a(1) b(1) by auto
      have "m \<in> set (nw_down N w)" if "ev = Take j m" for j m using page_acts(5) that by simp
      with own [OF st] got_heard [of w i ev ms] page_acts(1) True show ?thesis by simp
    qed (rule other, use page_acts a(1) b(1) in auto)
  next
    case (page_reads v a' ev ms b' m rest)
    show ?thesis
    proof (cases "v = w")
      case True
      then have st: "page_step w a (ev, ms) b" using page_reads a(1) b(1) by auto
      have "n \<in> set (nw_down N w)" if "ev = Take j n" for j n using page_reads(5,6) that True by simp
      with own [OF st] got_heard [of w i ev ms] page_reads(1) True show ?thesis by simp
    qed (rule other, use page_reads a(1) b(1) in auto)
  next
    case (dials v x)
    then have "v \<noteq> w" using a(1) by auto
    with dials a(1) b(1) show ?thesis by (intro other) simp_all
  next
    case (serves ev es t)
    with a(1) b(1) show ?thesis by (intro other) simp_all
  qed
qed

lemma followed_run:
  "execution (network_step cfg) N ls M \<Longrightarrow> sessions_inv cfg N \<Longrightarrow> nw_pages N w = Some a \<Longrightarrow> page_open w a \<Longrightarrow> ap_await a = AwaitNothing \<Longrightarrow>
   part_of (nw_server N) w = Some q \<Longrightarrow> list_all (\<lambda>l. \<not> ends w l) ls \<Longrightarrow> ready_of (nw_server N) w = OPEN \<Longrightarrow>
   ready_of (nw_server M) w = OPEN \<Longrightarrow> nw_pages M w = Some b \<Longrightarrow> page_open w b \<Longrightarrow> ap_webrtc a = Some s \<Longrightarrow>
   \<exists>t. ap_webrtc b = Some t \<and>
     session_run_of i (candidates (signals_got w i ls)) (added w i ls) (list_ex (fails_at w i) ls) s t"
proof (induction arbitrary: a s rule: execution.induct)
  case (execution_cons N l L ls M)
  have ends: "\<not> ends w l" "list_all (\<lambda>l. \<not> ends w l) ls" using execution_cons(9) by simp_all
  note stay = stay_network [OF execution_cons(1,8) ends(1)]
  have rdy: "ready_of (nw_server L) w = OPEN"
    using stay ready_run [OF execution_cons(2) conjunct1 [OF stay] ends(2)] execution_cons(10,11) by (intro open_between) simp_all
  obtain x where x: "nw_pages L w = Some x" "page_open w x"
    using open_or_closes [OF execution_cons(1,5,6)] run_closes [OF execution_cons(2)] execution_cons(12,13)
    by (fastforce simp: closes_def page_open_socket)
  have "part_of (nw_server N) w \<noteq> None" using execution_cons(8) by simp
  from followed_step [OF execution_cons(4,1,5,6,7) this execution_cons(10) x execution_cons(14), of i] obtain u where
    u: "ap_await x = AwaitNothing" "ap_webrtc x = Some u"
      "session_run_of i (candidates (got_at w i l)) (added_at w i l) (fails_at w i l) s u" by blast
  from execution_cons(3) [OF sessions_step [OF execution_cons(4,1)] x u(1) conjunct1 [OF stay] ends(2) rdy execution_cons(11-13) u(2)]
  obtain t where t: "ap_webrtc b = Some t"
    "session_run_of i (candidates (signals_got w i ls)) (added w i ls) (list_ex (fails_at w i) ls) u t" by blast
  from run_append [OF u(3) t(2)] t(1) show ?case by (auto simp: signals_got_def added_def)
qed (use run_none in \<open>auto simp: signals_got_def added_def\<close>)

lemma subseq_candidates: "subseq xs ys \<Longrightarrow> subseq (candidates xs) (candidates ys)"
  unfolding candidates_def by (intro subseq_map subseq_filter)

text \<open>C1. An ICE candidate gets from one browser to the other. Between two participants whose connections stay,
  over any run of the whole system from the time the second page is in the meeting: the candidates its session
  has handed to the connection of the first participant, those it still keeps and those on their way are
  together, in this order, a subsequence of those it kept before, those that were on their way and those the
  first page has sent it since. None is added twice, out of order or without having been sent; and if the
  server has not complained to the first page, none is missing. The session must not have
  had a failed operation of that participant, who must not have left.\<close>

theorem candidates_end_to_end:
  assumes "network_reachable cfg N" and "execution (network_step cfg) N ls M" and "v \<noteq> w" and "nw_pages N v \<noteq> None"
    and p: "part_of (nw_server N) v = Some p" and q: "part_of (nw_server N) w = Some q"
    and stays: "list_all (\<lambda>l. \<not> ends v l \<and> \<not> ends w l) ls"
    and a: "nw_pages N w = Some a" "page_open w a" "ap_await a = AwaitNothing" "ap_webrtc a = Some s"
    and b: "nw_pages M w = Some b" "page_open w b" "ap_webrtc b = Some t"
    and rdy: "ready_of (nw_server N) w = OPEN" "ready_of (nw_server M) w = OPEN"
    and act: "active t (Str (p_id p))" and fine: "\<not> list_ex (fails_at w (p_id p)) ls"
  shows "subseq (added w (p_id p) ls @ ice_pending t (Str (p_id p)) @ candidates (in_flight M v (p_id p) w (p_id q)))
      (ice_pending s (Str (p_id p)) @ candidates (in_flight N v (p_id p) w (p_id q)) @ candidates (signals_sent v (p_id q) ls)) \<and>
    (OPEN \<le> ready_of (nw_server N) v \<and> ready_of (nw_server M) v = OPEN \<and> list_all (\<lambda>l. \<not> complaint v l) ls \<longrightarrow>
      added w (p_id p) ls @ ice_pending t (Str (p_id p)) @ candidates (in_flight M v (p_id p) w (p_id q)) =
      ice_pending s (Str (p_id p)) @ candidates (in_flight N v (p_id p) w (p_id q)) @ candidates (signals_sent v (p_id q) ls))"
proof -
  have inv: "sessions_inv cfg N"
    using assms(1) unfolding network_reachable_def by (rule sessions_machine.reach_inv)
  have "list_all (\<lambda>l. \<not> ends w l) ls" using stays by (auto simp: list_all_iff)
  from followed_run [OF assms(2) inv a(1-3) q this rdy b(1,2) a(4), of "p_id p"] b(3) fine obtain ms where
    ms: "execution session_step s ms t" "candidates_received (Str (p_id p)) ms = candidates (signals_got w (p_id p) ls)"
      "candidates_added (Str (p_id p)) ms = added w (p_id p) ls" "list_all (\<lambda>(ev, es). \<not> failed_for (Str (p_id p)) ev) ms"
    by (auto simp: session_run_of_def)
  have "runs_session a" using inv a rdy(1) unfolding sessions_inv_def by blast
  then have "session_inv s" using a(4) session_reachable_inv by (auto simp: runs_session_def)
  from ice_run [OF ms(1) this act ms(4)]
  have ice: "ice_pending s (Str (p_id p)) @ candidates (signals_got w (p_id p) ls) = added w (p_id p) ls @ ice_pending t (Str (p_id p))"
    by (simp add: ms(2,3))
  note signals = signal_run [OF assms(2) network_reachable_inv [OF assms(1)] assms(4) p q stays]
  let ?got = "signals_got w (p_id p) ls @ in_flight M v (p_id p) w (p_id q)"
  let ?sent = "in_flight N v (p_id p) w (p_id q) @ signals_sent v (p_id q) ls"
  have left: "added w (p_id p) ls @ ice_pending t (Str (p_id p)) @ candidates (in_flight M v (p_id p) w (p_id q)) =
      ice_pending s (Str (p_id p)) @ candidates ?got"
    using ice by (metis append.assoc candidates_simps(2))
  have "subseq (ice_pending s (Str (p_id p)) @ candidates ?got) (ice_pending s (Str (p_id p)) @ candidates ?sent)"
    by (rule list_emb_append_mono [OF _ subseq_candidates [OF conjunct1 [OF signals]]]) simp
  moreover have "?got = ?sent" if "OPEN \<le> ready_of (nw_server N) v" "ready_of (nw_server M) v = OPEN" "list_all (\<lambda>l. \<not> complaint v l) ls"
    using signals that assms(3) rdy by simp
  ultimately show ?thesis unfolding left by simp
qed

section \<open>A candidate on its way\<close>

text \<open>Taking a frame sends nothing.\<close>

lemma listener_sends_nothing: "frames_on w (snd (run_signal_listener h v a)) = []"
  by (cases h) (auto simp: split_beta Let_def leaveRoom_def split: option.split)

lemma outs_send_nothing: "(\<And>n m. SendFrame n m \<notin> set outs) \<Longrightarrow> frames_on w (snd (run_outs outs a)) = []"
proof (induction outs arbitrary: a)
  case (Cons x outs)
  then show ?case by (cases x) (auto simp: split_beta listener_sends_nothing)
qed simp

lemma join_failed_sends_nothing: "frames_on w (snd (join_failed err a)) = []"
  by (simp add: join_failed_def join_caught_def leaveRoom_def Let_def split_beta)

lemma frame_sends_nothing:
  assumes "\<And>n. ap_await a \<noteq> AwaitConnect n"
  shows "frames_on w (snd (app_frame j m a)) = []"
proof (cases "ap_signaling a")
  case (Some c)
  let ?outs = "snd (onmessage c (Some m))" let ?a1 = "a\<lparr>ap_signaling := Some (fst (onmessage c (Some m)))\<rparr>"
  have "SendFrame n x \<notin> set (client_emit c ty v)" for n x ty v by (cases ty) auto
  then have "SendFrame n x \<notin> set ?outs" for n x using onmessage_outs [of c m] by auto
  then have "frames_on w (snd (run_outs ?outs ?a1)) = []" by (intro outs_send_nothing)
  moreover have "ap_await (fst (run_outs ?outs ?a1)) = ap_await a" by (simp add: outs_await)
  then have "frames_on w (snd (settle_join j (fst (run_outs ?outs ?a1)))) = []"
    using assms by (auto simp: settle_join_def join_failed_sends_nothing split: join_await.split option.split outcome.split)
  ultimately show ?thesis using Some by (simp add: app_frame_def split_beta)
qed (simp add: app_frame_def)

lemma reads_next:
  assumes reach: "network_reachable cfg N" and page: "nw_pages N w = Some a" "page_open w a" and seat: "part_of (nw_server N) w = Some p"
    "ready_of (nw_server N) w = OPEN" and down: "nw_down N w = m # rest"
  shows "\<exists>M. network_step cfg N (AtPage w (Take (js []) m) []) M \<and> network_reachable cfg M \<and> nw_server M = nw_server N \<and>
    nw_pages M = (nw_pages N)(w \<mapsto> fst (app_frame (js []) m a)) \<and> page_open w (fst (app_frame (js []) m a)) \<and>
    nw_down M = (nw_down N)(w := rest) \<and> nw_up M = nw_up N"
proof -
  let ?b = "fst (app_frame (js []) m a)"
  have fits: "seated (nw_server N) (m # rest) w a" using open_page_seated [OF reach page seat] down by simp
  then have "ap_await a \<noteq> AwaitConnect n" for n by (auto simp: seated_def asking_def joining_def in_meeting_def)
  then have none: "frames_on w (snd (app_frame (js []) m a)) = []" by (rule frame_sends_nothing)
  have step: "page_step w a (Take (js []) m, []) ?b"
    using page_takes [OF page(2), of "js []" m ?b "snd (app_frame (js []) m a)"] none by simp
  let ?M = "N\<lparr>nw_pages := (nw_pages N)(w \<mapsto> ?b), nw_up := (nw_up N)(w := nw_up N w @ []), nw_down := (nw_down N)(w := rest)\<rparr>"
  have one: "network_step cfg N (AtPage w (Take (js []) m) []) ?M" by (rule page_reads [OF page(1) step _ down]) simp
  then have "network_reachable cfg ?M" using reach unfolding network_reachable_def by (rule reachable_step [rotated])
  with one seated_reads_open [OF fits page(2)] show ?thesis by (intro exI [of _ ?M]) simp
qed

text \<open>The session of a newcomer.\<close>

lemma answer_session:
  assumes "asking i a" and "msg_type m = Str (js ''room.joined'')" and "msg_request m = Str i" and "msg_field m ''participants'' = Arr ps"
    and "distinct (map id_of ps)" and "list_all (\<lambda>p. \<not> nullish p) ps"
  shows "\<exists>st. ap_webrtc (fst (app_frame j m a)) =
    Some (start_session new_session st (filter (\<lambda>p. get_prop p (js ''id'') \<noteq> msg_field m ''participantId'') ps))"
  using joined_shows [of a i m ps j] assms by (auto simp: asking_def)

text \<open>Two pages meet: the server's part, from the state in which the first is alone.\<close>

lemma demo_join_exec:
  "server_exec demo_config demo_alone (Message 20 (Text (Some (demo_join_msg ''B''))) (demo_draws ''ub'')) =
     Some (demo_pair, join_effects demo_config demo_pair 20 (demo_person 20 ''B'' ''ub'') (Str (js ''q1'')))"
  by (simp add: demo_defs demo_facts handler_defs)

definition demo_joined :: jsval where
  "demo_joined = wire (envelope (js ''participant.joined'')
     (Obj [(js ''participant'', publicParticipant (demo_person 20 ''B'' ''ub''))]) Undefined)"

lemma demo_join_frames:
  "frames_to 10 (join_effects demo_config demo_pair 20 (demo_person 20 ''B'' ''ub'') (Str (js ''q1''))) = [demo_joined]"
  "frames_to 20 (join_effects demo_config demo_pair 20 (demo_person 20 ''B'' ''ub'') (Str (js ''q1''))) =
     [joined_frame_of demo_config demo_pair (demo_person 20 ''B'' ''ub'') (Str (js ''q1''))]"
  using frames_to_broadcast [OF server_reachable_inv [OF demo_pair_reachable] demo_pair_seats(1,3)]
    frames_to_broadcast [OF server_reachable_inv [OF demo_pair_reachable] demo_pair_seats(2,4)] demo_pair_seats(4)
  by (simp_all add: join_effects_def send_def joined_frame_of_def demo_joined_def del: wire.simps) (simp_all add: demo_person_def)

text \<open>The first page alone, having its answer; then both pages, with nothing in flight.\<close>

lemma demo_first:
  obtains N a st where "network_reachable demo_config N" and "nw_pages N = [10 \<mapsto> a]" and "page_open 10 a"
    and "map_of (sv_clients (nw_server N)) 20 = None" and "on_connection demo_config 20 1 OPEN (nw_server N) = demo_alone"
    and "nw_up N 20 = []" and "nw_down N 20 = []" and "nw_down N 10 = []"
    and "ap_webrtc a = Some (start_session new_session st [])"
proof -
  let ?s = "on_connection demo_config 10 0 OPEN initial_server" and ?p = "demo_person 10 ''A'' ''ua''"
  obtain s es es' where step: "server_exec demo_config ?s (Message 10 (Text (Some (demo_join_msg ''A''))) (demo_draws ''ua'')) = Some (s, es)"
    "map_of (sv_clients s) 20 = None" "on_connection demo_config 20 1 OPEN s = demo_alone" "frames_to 20 es = []"
    by (rule demo_steps)
  have start: "network_reachable demo_config initial_network" unfolding network_reachable_def by (rule reachable_start) simp
  from page_enters [OF start _ _ _ _ demo_lobby_ok [of "''A''"], of 10 0 "js ''q1''"] obtain N1 a where
    N1: "network_reachable demo_config N1" "nw_server N1 = ?s" "nw_pages N1 = [10 \<mapsto> a]" "page_open 10 a"
      "nw_up N1 = (\<lambda>w. [])(10 := [demo_join_msg ''A''])" "nw_down N1 = (\<lambda>w. [])" "asking (js ''q1'') a"
    by (auto simp: initial_network_def initial_server_def demo_lobby_join)
  from server_reads [OF N1(1), of 10 "demo_join_msg ''A''" "[]" "demo_draws ''ua''" s es] obtain N2 where
    N2: "network_reachable demo_config N2" "nw_server N2 = s" "nw_pages N2 = [10 \<mapsto> a]" "nw_up N2 20 = []" "nw_down N2 20 = []"
      "nw_down N2 10 = frames_to 10 es"
    using N1 step(1,4) by (auto simp del: server_exec.simps)
  have seat: "part_of s 10 = Some ?p" "ready_of s 10 = OPEN"
    using arg_cong [OF step(3), of "\<lambda>s. part_of s 10"] arg_cong [OF step(3), of "\<lambda>s. ready_of s 10"]
    by simp_all (simp_all add: part_of_def ready_of_def demo_defs)
  have none: "part_of ?s 10 = None" by simp
  have "request_id (demo_join_msg ''A'') = Str (js ''q1'')" by (simp add: demo_join_msg_def request_id_def)
  with join_frames [OF demo_start server_exec_step [OF step(1)] none seat]
  have down: "nw_down N2 10 = [joined_frame_of demo_config s ?p (Str (js ''q1''))]" using N2(6) by simp
  from reads_next [OF N2(1) _ N1(4) _ _ down] N2(2,3) seat obtain N where
    N: "network_reachable demo_config N" "nw_server N = s" "nw_pages N = [10 \<mapsto> fst (app_frame (js []) (joined_frame_of demo_config s ?p (Str (js ''q1''))) a)]"
      "page_open 10 (fst (app_frame (js []) (joined_frame_of demo_config s ?p (Str (js ''q1''))) a))" "nw_up N 20 = []" "nw_down N 20 = []" "nw_down N 10 = []"
    using N2(4,5) by auto
  have room: "roster s (p_roomId ?p) = [publicParticipant ?p]"
    using arg_cong [OF step(3), of sv_rooms] by (simp add: on_connection_def roster_def room_of_def) (simp add: demo_defs)
  have "msg_request (joined_frame_of demo_config s ?p (Str (js ''q1''))) = Str (js ''q1'')" by (simp add: joined_frame_of_def)
  from answer_session [OF N1(7) joined_payload_props(1) this joined_payload_props(2), of "js []"] room
  obtain st where "ap_webrtc (fst (app_frame (js []) (joined_frame_of demo_config s ?p (Str (js ''q1''))) a)) = Some (start_session new_session st [])"
    using roster_some [of s "p_roomId ?p"] by (auto simp: joined_payload_props)
  with N step(2,3) show thesis by (intro that [of N _ st]) simp_all
qed

lemma session_await:
  assumes "sessions_inv cfg N" and "nw_pages N w = Some a" and "page_open w a" and "ready_of (nw_server N) w = OPEN"
    and "part_of (nw_server N) w \<noteq> None" and "ap_webrtc a = Some s"
  shows "\<exists>ps c. in_meeting a ps \<and> ap_await a = AwaitNothing \<and> ap_signaling a = Some c \<and> wired c"
proof -
  have "page_fits (nw_server N) (nw_up N w) (nw_down N w) w a" using assms(1,2) by (simp add: sessions_inv_def network_inv_def)
  with assms(3-6) obtain ps where meets: "in_meeting a ps"
    by (auto simp: page_fits_def unseated_def seated_def asking_def)
  then have "runs_session a" using assms(1-4) unfolding sessions_inv_def in_meeting_def by blast
  with meets assms(6) show ?thesis by (auto simp: runs_session_def in_meeting_def)
qed

lemma demo_both:
  obtains N a b st st' where "network_reachable demo_config N" and "nw_server N = demo_pair" and "nw_pages N = [10 \<mapsto> a, 20 \<mapsto> b]"
    and "page_open 10 a" and "page_open 20 b" and "nw_down N 10 = []" and "nw_down N 20 = []" and "nw_up N 20 = []"
    and "ap_webrtc a = Some (start_session new_session st [])"
    and "ap_webrtc b = Some (start_session new_session st' [publicParticipant (demo_person 10 ''A'' ''ua'')])"
proof -
  let ?p = "demo_person 20 ''B'' ''ub''" and ?es = "join_effects demo_config demo_pair 20 (demo_person 20 ''B'' ''ub'') (Str (js ''q1''))"
  let ?J = "joined_frame_of demo_config demo_pair (demo_person 20 ''B'' ''ub'') (Str (js ''q1''))"
  obtain N1 a st where N1: "network_reachable demo_config N1" "nw_pages N1 = [10 \<mapsto> a]" "page_open 10 a"
    "map_of (sv_clients (nw_server N1)) 20 = None" "on_connection demo_config 20 1 OPEN (nw_server N1) = demo_alone"
    "nw_up N1 20 = []" "nw_down N1 20 = []" "nw_down N1 10 = []" "ap_webrtc a = Some (start_session new_session st [])"
    by (rule demo_first)
  from page_enters [OF N1(1) _ N1(4,6,7) demo_lobby_ok [of "''B''"], of 1 "js ''q1''"] N1 obtain N2 b where
    N2: "network_reachable demo_config N2" "nw_server N2 = demo_alone" "nw_pages N2 = [10 \<mapsto> a, 20 \<mapsto> b]" "page_open 20 b"
      "nw_up N2 20 = [demo_join_msg ''B'']" "nw_down N2 20 = []" "nw_down N2 10 = []" "asking (js ''q1'') b"
    by (auto simp: demo_lobby_join)
  from server_reads [OF N2(1,5), of "demo_draws ''ub''" demo_pair ?es] demo_join_exec N2 obtain N3 where
    N3: "network_reachable demo_config N3" "nw_server N3 = demo_pair" "nw_pages N3 = [10 \<mapsto> a, 20 \<mapsto> b]" "nw_up N3 20 = []"
      "nw_down N3 10 = [demo_joined]" "nw_down N3 20 = [?J]"
    by (auto simp: demo_join_frames simp del: server_exec.simps)
  from reads_next [OF N3(1) _ N2(4) _ _ N3(6), of ?p] N3 demo_pair_seats obtain N4 where
    N4: "network_reachable demo_config N4" "nw_server N4 = demo_pair" "nw_pages N4 = [10 \<mapsto> a, 20 \<mapsto> fst (app_frame (js []) ?J b)]"
      "page_open 20 (fst (app_frame (js []) ?J b))" "nw_up N4 20 = []" "nw_down N4 10 = [demo_joined]" "nw_down N4 20 = []"
    by (auto simp: fun_upd_twist)
  from reads_next [OF N4(1) _ N1(3) _ _ N4(6), of "demo_person 10 ''A'' ''ua''"] N4 demo_pair_seats obtain N where
    N: "network_reachable demo_config N" "nw_server N = demo_pair"
      "nw_pages N = [10 \<mapsto> fst (app_frame (js []) demo_joined a), 20 \<mapsto> fst (app_frame (js []) ?J b)]"
      "page_open 10 (fst (app_frame (js []) demo_joined a))" "nw_up N 20 = []" "nw_down N 10 = []" "nw_down N 20 = []"
    by (auto simp: fun_upd_twist)
  have "sessions_inv demo_config N4" using N4(1) unfolding network_reachable_def by (rule sessions_machine.reach_inv)
  from session_await [OF this _ N1(3) _ _ N1(9)] N4 demo_pair_seats obtain ps c where
    "in_meeting a ps" "ap_signaling a = Some c" "wired c" by auto
  from frame_session [OF this N1(9), of demo_joined "js []"]
  have first: "ap_webrtc (fst (app_frame (js []) demo_joined a)) = Some (start_session new_session st [])"
    by (simp add: demo_joined_def session_frame_def relay_types_def Let_def del: wire.simps)
  have "msg_request ?J = Str (js ''q1'')" by (simp add: joined_frame_of_def)
  from answer_session [OF N2(8) joined_payload_props(1) this joined_payload_props(2), of "js []"] distinct_roster [OF server_reachable_inv [OF demo_pair_reachable]]
  obtain st' where "ap_webrtc (fst (app_frame (js []) ?J b)) = Some (start_session new_session st'
      (filter (\<lambda>p. get_prop p (js ''id'') \<noteq> Str (p_id ?p)) (roster demo_pair (p_roomId ?p))))"
    by (auto simp: joined_payload_props)
  moreover have "filter (\<lambda>p. get_prop p (js ''id'') \<noteq> Str (p_id ?p)) (roster demo_pair (p_roomId ?p)) = [publicParticipant (demo_person 10 ''A'' ''ua'')]"
    by (simp add: roster_def demo_pair_seats) (simp add: demo_person_def)
  ultimately show thesis using N N4(4) first by (intro that [of N _ _ st st']) simp_all
qed

text \<open>The second page begins its offer, and its browser finds a candidate, which the server passes on.\<close>

definition demo_ice :: "(jstring \<times> jsval) list" where
  "demo_ice = [(js ''candidate'', Str (js ''c1''))]"

definition demo_ice_frame :: jsval where
  "demo_ice_frame = wire (envelope (js ''webrtc.iceCandidate'') (Obj ((js ''targetId'', Str (js ''ua'')) # demo_ice)) Undefined)"

definition demo_ice_relayed :: jsval where
  "demo_ice_relayed = wire (envelope (js ''webrtc.iceCandidate'') (Obj [(js ''candidate'', Str (js ''c1'')), (js ''participantId'', Str (js ''ub''))]) Undefined)"

lemma demo_ice_frame_parts:
  "envelope_ok demo_ice_frame" "get_prop demo_ice_frame (js ''type'') = Str (js ''webrtc.iceCandidate'')"
  "get_prop demo_ice_frame (js ''payload'') = Obj ((js ''targetId'', Str (js ''ua'')) # demo_ice)"
  "get_prop demo_ice_frame (js ''requestId'') = Undefined"
  unfolding demo_ice_frame_def by (rule envelope_ok_wire) (simp_all add: demo_ice_def get_prop_wire_envelope Let_def)

lemma demo_ice_exec:
  "server_exec demo_config demo_pair (Message 20 (Text (Some demo_ice_frame)) (demo_draws ''uc'')) =
     Some (set_conn 20 (demo_conn (Some (demo_person 20 ''B'' ''ub'')) 118 1) demo_pair, [Send 10 demo_ice_relayed])"
  by (simp add: demo_defs demo_ice_def demo_ice_frame_parts demo_ice_relayed_def handler_defs relay_types_def handle_relay_def
      forwarded_def ice_candidate_ok_def send_def ready_of_def nullish_def, simp add: envelope_def)

lemma demo_ice_signals:
  "signal_by ''participantId'' (js ''ub'') demo_ice_relayed = [(''webrtc.iceCandidate'', ice_of (Obj demo_ice))]"
  "signal_by ''targetId'' (js ''ua'') demo_ice_frame = [(''webrtc.iceCandidate'', ice_of (Obj demo_ice))]"
  by (simp_all add: signal_by_def relay_types_def demo_ice_relayed_def demo_ice_frame_def demo_ice_def msg_field_def msg_type_def
      content_def ice_of_def envelope_def get_prop.simps)

lemma demo_offerer:
  assumes "ap_webrtc b = Some (start_session new_session st [publicParticipant (demo_person 10 ''A'' ''ua'')])" and "page_open 20 b"
  obtains cs b1 b2 where "page_step 20 b (Peer (Begin (Str (js ''ua'')) Offer) cs, []) b1"
    and "page_step 20 b1 (Peer (LocalCandidate (Str (js ''ua'')) demo_ice)
      [Signal ''webrtc.iceCandidate'' (Obj ((js ''targetId'', Str (js ''ua'')) # demo_ice))], [demo_ice_frame]) b2"
    and "page_open 20 b2"
proof -
  let ?i = "Str (js ''ua'')" and ?s = "start_session new_session st [publicParticipant (demo_person 10 ''A'' ''ua'')]"
  have s: "?s = new_session\<lparr>rt_localStream := Some st, rt_queues := [(?i, [Offer])]\<rparr>"
    by (simp add: start_session_def enqueue_def queue_of_def new_session_def) (simp add: demo_person_def)
  let ?cs = "[NewConnection ?i, AddTransceiver ?i ''audio'' (find_track st ''audio''), AddTransceiver ?i ''video'' (find_track st ''video''),
      Create ?i ''webrtc.offer'']"
  obtain t where t: "begin_op (dequeue ?s ?i) ?i Offer = (t, ?cs)" "map_of (rt_peers t) ?i \<noteq> None" "\<not> rt_closed t"
    unfolding s by (simp add: dequeue_def ensure_peer_def await_def new_session_def Let_def)
  have "session_step ?s (Begin ?i Offer, ?cs) t"
  proof (rule session_step.begin_next [OF _ _ _ t(1)])
    show "queue_of ?s ?i = Offer # []" "rt_running ?s ?i = None" "active ?s ?i"
      unfolding s by (simp_all add: queue_of_def new_session_def active_def)
  qed
  then have one: "page_step 20 b (Peer (Begin ?i Offer) ?cs, frames_on 20 (map BySession ?cs)) (b\<lparr>ap_webrtc := Some t\<rparr>)"
    using assms(1) by (intro page_step.page_peers [where stream_no = "\<lambda>i. 0" and message = "\<lambda>f. Undefined"]) simp_all
  let ?b1 = "b\<lparr>ap_webrtc := Some t\<rparr>"
  obtain c where c: "ap_signaling b = Some c" "cl_ws c = Some 20" "client_ready c = Some OPEN" using assms(2) by (auto simp: page_open_def)
  obtain p where p: "map_of (rt_peers t) ?i = Some p" using t(2) by blast
  have "session_step t (LocalCandidate ?i demo_ice, onicecandidate t ?i demo_ice) t" by (rule session_step.local_candidate [OF p])
  then have "session_step t (LocalCandidate ?i demo_ice, [Signal ''webrtc.iceCandidate'' (Obj ((js ''targetId'', ?i) # demo_ice))]) t"
    by (simp add: onicecandidate_def t(3))
  then have two: "page_step 20 ?b1 (Peer (LocalCandidate ?i demo_ice) [Signal ''webrtc.iceCandidate'' (Obj ((js ''targetId'', ?i) # demo_ice))],
      frames_on 20 [ByClient (SendFrame 20 demo_ice_frame)]) ?b1"
    by (intro page_step.page_peers [where stream_no = "\<lambda>i. 0" and message = "\<lambda>f. Undefined"])
      (use c in \<open>simp_all add: client_send_def demo_ice_frame_def del: wire.simps\<close>)
  show thesis using one two assms(2) by (intro that [of ?cs ?b1 ?b1]) (simp_all add: page_open_def)
qed

definition crossing_events :: "call list \<Rightarrow> network_event list" where
  "crossing_events cs = [AtPage 20 (Peer (Begin (Str (js ''ua'')) Offer) cs) [],
     AtPage 20 (Peer (LocalCandidate (Str (js ''ua'')) demo_ice)
       [Signal ''webrtc.iceCandidate'' (Obj ((js ''targetId'', Str (js ''ua'')) # demo_ice))]) [demo_ice_frame],
     AtServer (Message 20 (Text (Some demo_ice_frame)) (demo_draws ''uc'')) [Send 10 demo_ice_relayed],
     AtPage 10 (Take (js []) demo_ice_relayed) []]"

lemma demo_crossing:
  obtains N cs M a st b t where "network_reachable demo_config N" and "execution (network_step demo_config) N (crossing_events cs) M"
    and "nw_server N = demo_pair" and "nw_pages N 20 \<noteq> None" and "nw_pages N 10 = Some a" and "page_open 10 a" and "ap_await a = AwaitNothing"
    and "ap_webrtc a = Some (start_session new_session st [])"
    and "nw_down N 10 = []" and "nw_up N 20 = []" and "nw_down M 10 = []" and "nw_up M 20 = []"
    and "nw_pages M 10 = Some b" and "page_open 10 b" and "ap_webrtc b = Some t" and "active t (Str (js ''ub''))"
    and "ready_of (nw_server M) 10 = OPEN" and "ready_of (nw_server M) 20 = OPEN"
proof -
  let ?seat = "demo_person 10 ''A'' ''ua''"
  obtain N a b st st' where N: "network_reachable demo_config N" "nw_server N = demo_pair" "nw_pages N = [10 \<mapsto> a, 20 \<mapsto> b]"
    "page_open 10 a" "page_open 20 b" "nw_down N 10 = []" "nw_down N 20 = []" "nw_up N 20 = []"
    and a: "ap_webrtc a = Some (start_session new_session st [])"
    and b: "ap_webrtc b = Some (start_session new_session st' [publicParticipant ?seat])" by (rule demo_both)
  obtain cs b1 b2 where steps: "page_step 20 b (Peer (Begin (Str (js ''ua'')) Offer) cs, []) b1"
    "page_step 20 b1 (Peer (LocalCandidate (Str (js ''ua'')) demo_ice)
      [Signal ''webrtc.iceCandidate'' (Obj ((js ''targetId'', Str (js ''ua'')) # demo_ice))], [demo_ice_frame]) b2" "page_open 20 b2"
    by (rule demo_offerer [OF b N(5)])
  let ?N1 = "N\<lparr>nw_pages := (nw_pages N)(20 \<mapsto> b1), nw_up := (nw_up N)(20 := nw_up N 20 @ [])\<rparr>"
  let ?N2 = "?N1\<lparr>nw_pages := (nw_pages ?N1)(20 \<mapsto> b2), nw_up := (nw_up ?N1)(20 := nw_up ?N1 20 @ [demo_ice_frame])\<rparr>"
  let ?m = "Message 20 (Text (Some demo_ice_frame)) (demo_draws ''uc'')"
  let ?t = "set_conn 20 (demo_conn (Some (demo_person 20 ''B'' ''ub'')) 118 1) demo_pair"
  let ?N3 = "?N2\<lparr>nw_server := ?t, nw_up := read_up ?m (nw_up ?N2), nw_down := (\<lambda>w. nw_down ?N2 w @ frames_to w [Send 10 demo_ice_relayed])\<rparr>"
  have one: "network_step demo_config N (AtPage 20 (Peer (Begin (Str (js ''ua'')) Offer) cs) []) ?N1"
    using N(3) by (intro page_acts [OF _ steps(1)]) simp_all
  have two: "network_step demo_config ?N1 (AtPage 20 (Peer (LocalCandidate (Str (js ''ua'')) demo_ice)
      [Signal ''webrtc.iceCandidate'' (Obj ((js ''targetId'', Str (js ''ua'')) # demo_ice))]) [demo_ice_frame]) ?N2"
    using N(3) by (intro page_acts [OF _ steps(2)]) simp_all
  have three: "network_step demo_config ?N2 (AtServer ?m [Send 10 demo_ice_relayed]) ?N3"
    using N(2,3,8) server_exec_step [OF demo_ice_exec] by (intro serves) simp_all
  have reach: "network_reachable demo_config ?N3"
    using N(1) one two three unfolding network_reachable_def by (meson reachable_step)
  have seats: "part_of ?t 10 = Some ?seat" "ready_of ?t 10 = OPEN" "ready_of ?t 20 = OPEN"
    using demo_pair_seats by (simp_all add: ready_of_def part_of_def map_of_update_eq) (simp_all add: demo_conn_def demo_pair_clients)
  have "nw_pages ?N3 10 = Some a" using N(3) by simp
  from reads_next [OF reach this N(4), of ?seat demo_ice_relayed "[]"] N(6) seats obtain M where
    M: "network_step demo_config ?N3 (AtPage 10 (Take (js []) demo_ice_relayed) []) M" "nw_server M = ?t"
      "nw_pages M 10 = Some (fst (app_frame (js []) demo_ice_relayed a))" "page_open 10 (fst (app_frame (js []) demo_ice_relayed a))"
      "nw_down M 10 = []" "nw_up M 20 = []" using N(8) by auto
  have run: "execution (network_step demo_config) N (crossing_events cs) M"
    unfolding crossing_events_def using one two three M(1) by (blast intro: execution_cons execution_nil)
  have "sessions_inv demo_config N" using N(1) unfolding network_reachable_def by (rule sessions_machine.reach_inv)
  from session_await [OF this _ N(4) _ _ a] N(2,3) demo_pair_seats obtain ps c where
    meets: "in_meeting a ps" "ap_await a = AwaitNothing" "ap_signaling a = Some c" "wired c" by auto
  let ?s = "start_session new_session st []"
  have types: "msg_type demo_ice_relayed \<noteq> Str (js ''disconnected'')" by (simp add: demo_ice_relayed_def del: wire.simps)
  from frame_session [OF meets(1,3,4) a types, of "js []"]
  have "ap_webrtc (fst (app_frame (js []) demo_ice_relayed a)) = Some (session_frame demo_ice_relayed ?s)" .
  moreover have "active (session_frame demo_ice_relayed ?s) (Str (js ''ub''))"
    by (simp add: session_frame_def relay_types_def demo_ice_relayed_def active_def enqueue_def start_session_def new_session_def Let_def del: wire.simps)
  ultimately show thesis using N meets(2) a M run seats by (intro that [of N cs M a st _ _]) simp_all
qed

lemma crossing_facts:
  "list_all (\<lambda>l. \<not> ends 20 l \<and> \<not> ends 10 l) (crossing_events cs)" "list_all (\<lambda>l. \<not> complaint 20 l) (crossing_events cs)"
  "\<not> list_ex (fails_at 10 i) (crossing_events cs)" "added 10 i (crossing_events cs) = []"
  "signals_sent 20 (js ''ua'') (crossing_events cs) = [(''webrtc.iceCandidate'', ice_of (Obj demo_ice))]"
  by (simp_all add: crossing_events_def complains_def added_def signals_sent_def demo_ice_signals)

lemma demo_ids: "p_id (demo_person w n u) = js u"
  by (simp add: demo_person_def)

theorem signals_in_order_witness:
  "\<exists>N cs M. network_reachable demo_config N \<and> execution (network_step demo_config) N (crossing_events cs) M \<and>
     signals_got 10 (js ''ub'') (crossing_events cs) = [(''webrtc.iceCandidate'', ice_of (Obj demo_ice))]"
proof -
  obtain N cs M a st b t where run: "network_reachable demo_config N" "execution (network_step demo_config) N (crossing_events cs) M"
    "nw_server N = demo_pair" "nw_pages N 20 \<noteq> None" and chan: "nw_down N 10 = []" "nw_up N 20 = []" "nw_down M 10 = []" "nw_up M 20 = []"
    and rdy: "ready_of (nw_server M) 10 = OPEN" "ready_of (nw_server M) 20 = OPEN"
    by (rule demo_crossing)
  have "signals_got 10 (js ''ub'') (crossing_events cs) = [(''webrtc.iceCandidate'', ice_of (Obj demo_ice))]"
    using signals_in_order [OF run(1,2,4), of "demo_person 20 ''B'' ''ub''" 10 "demo_person 10 ''A'' ''ua''"] run(3) demo_pair_seats chan
      crossing_facts rdy by (simp add: in_flight_def demo_ids)
  then show ?thesis using run by blast
qed

theorem candidates_end_to_end_witness:
  "\<exists>N cs M b t. network_reachable demo_config N \<and> execution (network_step demo_config) N (crossing_events cs) M \<and>
     nw_pages M 10 = Some b \<and> ap_webrtc b = Some t \<and> ice_pending t (Str (js ''ub'')) = [ice_of (Obj demo_ice)]"
proof -
  obtain N cs M a st b t where run: "network_reachable demo_config N" "execution (network_step demo_config) N (crossing_events cs) M"
    "nw_server N = demo_pair" "nw_pages N 20 \<noteq> None" and a: "nw_pages N 10 = Some a" "page_open 10 a" "ap_await a = AwaitNothing"
    "ap_webrtc a = Some (start_session new_session st [])"
    and chan: "nw_down N 10 = []" "nw_up N 20 = []" "nw_down M 10 = []" "nw_up M 20 = []"
    and b: "nw_pages M 10 = Some b" "page_open 10 b" "ap_webrtc b = Some t" "active t (Str (js ''ub''))"
    and rdy: "ready_of (nw_server M) 10 = OPEN" "ready_of (nw_server M) 20 = OPEN" by (rule demo_crossing)
  let ?ls = "crossing_events cs" and ?p = "demo_person 20 ''B'' ''ub''" and ?q = "demo_person 10 ''A'' ''ua''"
  have "(20::nat) \<noteq> 10" by simp
  have start: "ready_of (nw_server N) 10 = OPEN" "OPEN \<le> ready_of (nw_server N) 20" "part_of (nw_server N) 20 = Some ?p" "part_of (nw_server N) 10 = Some ?q"
    using run(3) demo_pair_seats by simp_all
  have act: "active t (Str (p_id ?p))" using b(4) by (simp add: demo_ids)
  have idle: "ice_pending (start_session new_session st []) i = []" for i
    by (simp add: ice_pending_def under_way_def queue_of_def start_session_def new_session_def)
  have "ice_pending t (Str (js ''ub'')) = [ice_of (Obj demo_ice)]"
    using candidates_end_to_end [OF run(1,2) \<open>20 \<noteq> 10\<close> run(4) start(3,4) crossing_facts(1) a b(1-3) start(1) rdy(1) act crossing_facts(3)]
      start(2) rdy(2) crossing_facts chan idle by (simp add: in_flight_def demo_ids candidates_def)
  with run(1,2) b(1,3) show ?thesis by blast
qed

end
