(* ===== verification/SessionTermination.thy ===== *)
theory SessionTermination
  imports WebRtcProperties
begin

text \<open>
  The queues of \<open>webrtc.js\<close> drain: a bound on the steps that are left for one peer, which each of
  its steps lowers and no step of another peer raises.
\<close>

section \<open>The work that is left\<close>

text \<open>\<open>K\<close> bounds the number of transceivers of a connection. An operation that waits has at most
  this many steps left; one that is queued has one more than the longest of them.\<close>

fun cont_work :: "nat \<Rightarrow> continuation option \<Rightarrow> nat" where
  "cont_work K None = 0"
| "cont_work K (Some (AwaitCreate ty)) = 2"
| "cont_work K (Some (AwaitLocal ty)) = 1"
| "cont_work K (Some (AwaitRemote offer)) = K + 5"
| "cont_work K (Some AwaitCandidate) = 1"
| "cont_work K (Some (AwaitDrain cs offer)) = length cs + K + 4"
| "cont_work K (Some (AwaitSender kinds)) = length kinds + 3"

definition work :: "nat \<Rightarrow> session \<Rightarrow> jsval \<Rightarrow> nat" where
  "work K s i = length (queue_of s i) * (K + 6) + cont_work K (rt_running s i) + length (kept (map_of (rt_peers s) i))"

text \<open>The steps of a peer's operations, the events that give it new ones, and the bound on an answer.\<close>

fun works_for :: "jsval \<Rightarrow> session_event \<Rightarrow> bool" where
  "works_for i (Begin j op) = (j = i)"
| "works_for i (NoConnection j op err) = (j = i)"
| "works_for i (Skip j op) = (j = i)"
| "works_for i (Fulfilled j a) = (j = i)"
| "works_for i (Failed j err) = (j = i)"
| "works_for i ev = False"

fun feeds :: "jsval \<Rightarrow> session_event \<Rightarrow> bool" where
  "feeds i (Incoming ty payload) = (get_prop payload (js ''participantId'') = i)"
| "feeds i (StartWith st ps) = (i \<in> (\<lambda>p. get_prop p (js ''id'')) ` set ps)"
| "feeds i ev = False"

fun few_kinds :: "nat \<Rightarrow> session_event \<Rightarrow> bool" where
  "few_kinds K (Fulfilled j a) = (length (an_kinds a) \<le> K)"
| "few_kinds K ev = True"

text \<open>An operation changes what waits for its own peer only.\<close>

definition elsewhere :: "jsval \<Rightarrow> session \<Rightarrow> session \<Rightarrow> bool" where
  "elsewhere j s t \<longleftrightarrow> queue_of t = queue_of s \<and> (\<forall>i. i \<noteq> j \<longrightarrow> rt_running t i = rt_running s i \<and>
     kept (map_of (rt_peers t) i) = kept (map_of (rt_peers s) i))"

lemma elsewhere_work: "elsewhere j s t \<Longrightarrow> i \<noteq> j \<Longrightarrow> work K t i = work K s i"
  by (simp add: elsewhere_def work_def)

lemma elsewhere_trans: "elsewhere j s t \<Longrightarrow> elsewhere j t u \<Longrightarrow> elsewhere j s u"
  by (simp add: elsewhere_def)

lemma elsewhere_updates [simp]:
  "elsewhere j s (await j k s)" "elsewhere j s (finished j s)" "elsewhere j s (set_peer j p s)"
  by (simp_all add: elsewhere_def)

lemma elsewhere_throws: "throws s j err = (t, es) \<Longrightarrow> elsewhere j s t"
  by (auto simp: throws_def)

lemma elsewhere_answer: "answer_tracks s j ks = (t, es) \<Longrightarrow> elsewhere j s t"
  by (cases ks) (auto split: option.splits dest: elsewhere_throws)

lemma elsewhere_drain: "drain s j a cs offer = (t, es) \<Longrightarrow> elsewhere j s t"
  by (cases cs) (auto split: if_splits dest: elsewhere_answer)

lemma elsewhere_resume: "resume s j p a k = (t, es) \<Longrightarrow> elsewhere j s t"
  by (cases k) (auto split: if_splits dest: elsewhere_drain elsewhere_answer elsewhere_throws
      intro: elsewhere_trans [OF elsewhere_updates(3)])

lemma elsewhere_ensure: "ensure_peer s j = (t, p, es) \<Longrightarrow> elsewhere j s t"
  using ensure_peer_ice(3) [of s j t p es] ensure_peer_view(3,6) [of s j t p es] by (simp add: elsewhere_def)

lemma elsewhere_begin: "begin_op s j op = (t, es) \<Longrightarrow> elsewhere j s t"
proof -
  assume b: "begin_op s j op = (t, es)"
  obtain s1 p made where e: "ensure_peer s j = (s1, p, made)" by (cases "ensure_peer s j")
  have "elsewhere j s1 t"
    using b e by (cases op) (auto split: option.splits if_splits prod.splits dest: elsewhere_throws
        intro: elsewhere_trans [OF elsewhere_updates(3) elsewhere_updates(2)])
  with elsewhere_ensure [OF e] show ?thesis by (rule elsewhere_trans)
qed

text \<open>An operation that goes on has less to do.\<close>

lemma throws_work: "throws s i err = (t, es) \<Longrightarrow> work K t i + cont_work K (rt_running s i) = work K s i"
  by (auto simp: throws_def work_def)

lemma answer_tracks_work:
  "answer_tracks s i ks = (t, es) \<Longrightarrow> cont_work K (rt_running t i) \<le> length ks + 2 \<and> rt_peers t = rt_peers s \<and> queue_of t = queue_of s"
  by (cases ks) (auto simp: throws_def split: option.splits)

lemma drain_work:
  "drain s i a cs offer = (t, es) \<Longrightarrow> length (an_kinds a) \<le> K \<Longrightarrow>
   cont_work K (rt_running t i) \<le> length cs + K + 3 \<and> rt_peers t = rt_peers s \<and> queue_of t = queue_of s"
  by (cases cs) (auto split: if_splits dest: answer_tracks_work [where K = K])

lemma resume_work:
  assumes "rt_running s i = Some k" and "map_of (rt_peers s) i = Some p" and "resume s i p a k = (t, es)"
    and "length (an_kinds a) \<le> K"
  shows "work K t i < work K s i"
proof (cases k)
  case (AwaitRemote offer)
  with assms drain_work [of "set_peer i (p\<lparr>pe_remote := True, pe_candidates := []\<rparr>) s" i a "pe_candidates p" offer t es K]
  show ?thesis by (auto simp: work_def)
next
  case (AwaitDrain cs offer)
  with assms drain_work [of s i a cs offer t es K] show ?thesis by (auto simp: work_def)
next
  case (AwaitSender kinds)
  with assms answer_tracks_work [of s i kinds t es K] show ?thesis by (auto simp: work_def)
next
  case (AwaitLocal ty)
  with assms throws_work [of s i NotConnected t es K] show ?thesis by (auto simp: work_def split: if_splits)
qed (use assms in \<open>auto simp: work_def\<close>)

lemma begin_work:
  assumes "queue_of s i = op # ops" and "rt_running s i = None" and "begin_op (dequeue s i) i op = (t, es)"
  shows "work K t i < work K s i"
proof -
  obtain s1 p made where e: "ensure_peer (dequeue s i) i = (s1, p, made)" by (cases "ensure_peer (dequeue s i) i")
  have s1: "queue_of s1 i = ops" "rt_running s1 i = None" "map_of (rt_peers s1) i = Some p"
    "length (pe_candidates p) = length (kept (map_of (rt_peers s) i))"
    using ensure_peer_view(2,3,6) [OF e] ensure_peer_ice(3) [OF e, of i] assms(1,2) by simp_all
  have "queue_of t i = ops \<and> cont_work K (rt_running t i) + length (kept (map_of (rt_peers t) i)) \<le>
      K + 5 + length (kept (map_of (rt_peers s) i))"
    using assms(3) e s1
    by (cases op) (auto simp: throws_def split: option.splits if_splits prod.splits)
  then show ?thesis using assms(1,2) by (simp add: work_def)
qed

lemma start_session_queue:
  "i \<notin> (\<lambda>p. get_prop p (js ''id'')) ` set ps \<Longrightarrow> queue_of (start_session s st ps) i = queue_of s i"
proof -
  assume "i \<notin> (\<lambda>p. get_prop p (js ''id'')) ` set ps"
  then have "queue_of (fold (\<lambda>p s. enqueue s (get_prop p (js ''id'')) Offer) ps s) i = queue_of s i" for s :: session
    by (induction ps arbitrary: s) auto
  then show ?thesis by (simp add: start_session_def queue_of_def)
qed

lemma removePeer_work: "removePeer s j = (t, es) \<Longrightarrow> work K t i \<le> work K s i"
  by (cases "i = j") (auto simp: removePeer_def work_def queue_of_def kept_def map_of_delete_eq)

lemma close_work: "close_session s = (t, es) \<Longrightarrow> work K t i \<le> work K s i"
  by (auto simp: close_session_def work_def queue_of_def)

text \<open>Each step of the peer's operations leaves less to do, and only new messages add to it.\<close>

lemma step_work:
  "session_step s (ev, es) t \<Longrightarrow> few_kinds K ev \<Longrightarrow> \<not> feeds i ev \<Longrightarrow>
   work K t i + (if works_for i ev then 1 else 0) \<le> work K s i"
proof (induction s "(ev, es)" t rule: session_step.induct)
  case (begin_next s j op ops t)
  show ?case
  proof (cases "j = i")
    case True
    with begin_work [of s i op ops t es K] begin_next show ?thesis by simp
  next
    case False
    have "work K t i = work K (dequeue s j) i" using elsewhere_work [OF elsewhere_begin] begin_next(4) False by metis
    then show ?thesis using False begin_next by (auto simp: work_def)
  qed
next
  case (no_connection s j op ops err t)
  with throws_work [of "dequeue s j" j err t es K] elsewhere_work [OF elsewhere_throws [OF no_connection(5)], of i K]
  show ?case by (cases "j = i") (auto simp: work_def)
next
  case (skip_next s j op ops)
  then show ?case by (auto simp: work_def)
next
  case (fulfilled s j k p a t)
  show ?case
  proof (cases "j = i")
    case True
    with resume_work [of s i k p a t es K] fulfilled show ?thesis by auto
  next
    case False
    with elsewhere_work [OF elsewhere_resume [OF fulfilled(3)], of i K] fulfilled show ?thesis by auto
  qed
next
  case (failed s j k err t)
  have "cont_work K (Some k) > 0" by (cases k) simp_all
  with failed throws_work [of s j err t es K] elsewhere_work [OF elsewhere_throws [OF failed(2)], of i K]
  show ?case by (cases "j = i") auto
next
  case (incoming s ty payload)
  then show ?case by (auto simp: work_def)
next
  case (start_with s st ps)
  then show ?case by (auto simp: work_def start_session_queue)
next
  case (track_arrived s j p n t)
  then show ?case by (auto simp: ontrack_def work_def kept_def)
next
  case (replace s has_sender old new t)
  then show ?case by (auto simp: replaceTrack_def work_def queue_of_def)
next
  case (replaced old new s)
  then show ?case by (auto simp: track_replaced_def work_def queue_of_def)
next
  case (rejected old new s)
  then show ?case by (auto simp: replace_rejected_def work_def queue_of_def)
qed (auto dest: removePeer_work [where K = K and i = i] close_work [where K = K and i = i])

definition steps_for :: "jsval \<Rightarrow> (session_event \<times> call list) list \<Rightarrow> nat" where
  "steps_for i ls = length (filter (\<lambda>(ev, es). works_for i ev) ls)"

lemma run_work:
  "execution session_step s ls t \<Longrightarrow> list_all (\<lambda>(ev, es). few_kinds K ev \<and> \<not> feeds i ev) ls \<Longrightarrow>
   work K t i + steps_for i ls \<le> work K s i"
proof (induction rule: execution.induct)
  case (execution_cons s l t ls u)
  obtain ev es where l: "l = (ev, es)" by force
  from execution_cons step_work [of s ev es t K i] show ?case by (auto simp: l steps_for_def split: if_splits)
qed (simp add: steps_for_def)

text \<open>C13. Negotiation with a peer comes to an end and does not get stuck. With no new message of the peer,
  at most \<open>work\<close> steps of its operations happen, whatever the other peers, the tracks and the
  candidates do in between and in whatever way the promises settle; and as long as the peer is active and
  something is left to do, one of its operations can go on.\<close>

theorem negotiation_ends:
  assumes "session_reachable s" and "execution session_step s ls t"
    and "list_all (\<lambda>(ev, es). few_kinds K ev \<and> \<not> feeds i ev) ls"
  shows "steps_for i ls \<le> work K s i \<and>
    (active t i \<and> (rt_running t i \<noteq> None \<or> queue_of t i \<noteq> []) \<longrightarrow>
       (\<exists>ev es u. session_step t (ev, es) u \<and> works_for i ev \<and> few_kinds K ev \<and> \<not> feeds i ev))"
proof (intro conjI impI)
  show "steps_for i ls \<le> work K s i" using run_work [OF assms(2,3)] by simp
next
  assume left: "active t i \<and> (rt_running t i \<noteq> None \<or> queue_of t i \<noteq> [])"
  have inv: "session_inv t" by (rule session_machine.run_inv [OF assms(2) session_reachable_inv [OF assms(1)]])
  show "\<exists>ev es u. session_step t (ev, es) u \<and> works_for i ev \<and> few_kinds K ev \<and> \<not> feeds i ev"
  proof (cases "rt_running t i")
    case None
    then obtain op ops where q: "queue_of t i = op # ops" using left by (cases "queue_of t i") auto
    obtain u es where "begin_op (dequeue t i) i op = (u, es)" by (cases "begin_op (dequeue t i) i op")
    from begin_next [OF q None _ this] left show ?thesis by (intro exI [of _ "Begin i op"]) auto
  next
    case (Some k)
    then obtain p where p: "map_of (rt_peers t) i = Some p"
      using session_inv_view [OF inv, of i] left by (cases "map_of (rt_peers t) i") (simp_all add: view_def)
    let ?a = "\<lparr>an_sdp = Undefined, an_kinds = [], an_open = True\<rparr>"
    obtain u es where "resume t i p ?a k = (u, es)" by (cases "resume t i p ?a k")
    from fulfilled [OF Some p this] show ?thesis by (intro exI [of _ "Fulfilled i ?a"]) auto
  qed
qed

text \<open>The session of the example, whose offer is under way: one step to go on with.\<close>

theorem negotiation_ends_witness:
  "\<exists>ev es u. session_step demo_offered (ev, es) u \<and> works_for (Str (js ''pa'')) ev"
proof -
  have "session_reachable demo_offered" by (rule demo_offered_reachable)
  from negotiation_ends [OF this execution_nil, of 2 "Str (js ''pa'')"]
  show ?thesis by (auto simp: demo_offered_def active_def)
qed

end
