(* ===== verification/Wiring.thy ===== *)
theory Wiring
  imports Page
begin

text \<open>
  \<open>client/js/app.js\<close>, the function \<open>init\<close>: which element of \<open>client/index.html\<close> runs which function, with
  the form fields these functions read and write, the page's address and the requests to the browser
  that are under way. A window is the controls of \<open>MediaProperties\<close> with all that around them. The
  class \<open>URL\<close> of the browser is a parameter, and so is what else an event brings along.
\<close>

section \<open>The window\<close>

text \<open>\<open>new URL(s).searchParams.get('room')\<close>, which has no value where it throws or there is no such
  parameter, and the \<open>href\<close> after \<open>searchParams.set('room', r)\<close>.\<close>

record url_class =
  room_param :: "jstring \<Rightarrow> jstring option"
  with_room :: "jstring \<Rightarrow> jstring \<Rightarrow> jstring"

text \<open>What an event finds: a fresh id, the number of the next socket, whether the page may use media
  devices, the message of an exception, which peers have a sender of a kind, and what
  the browser can record.\<close>

record browser =
  br_uuid :: jstring
  br_socket :: nat
  br_secure :: bool
  br_message :: jsval
  br_sender :: "jsval \<Rightarrow> string \<Rightarrow> bool"
  br_recorder :: recorder_support

record fields =
  fd_displayName :: jstring
  fd_roomId :: jstring
  fd_viewer :: bool
  fd_chatInput :: jstring
  fd_camera :: jstring
  fd_mic :: jstring
  fd_newHidden :: bool
  fd_description :: jstring
  fd_link :: jstring
  fd_roomLabel :: jstring
  fd_joinDisabled :: bool
  fd_status :: jstring
  fd_level :: int

datatype pending = ForMic int | ForCam int | ForCamera | ForMicrophone | ForScreen | ForDevices | ForClipboard

record window =
  wi_controls :: controls
  wi_fields :: fields
  wi_href :: jstring
  wi_pending :: "pending list"

datatype window_call =
    Does app_call
  | Ask media_request
  | ReplaceUrl jstring
  | WriteClipboard jstring
  | SelectLink

definition page :: "window \<Rightarrow> app" where
  "page w = ct_app (wi_controls w)"

definition on_page :: "(app \<Rightarrow> app) \<Rightarrow> window \<Rightarrow> window" where
  "on_page f w = w\<lparr>wi_controls := on_app f (wi_controls w)\<rparr>"

definition on_fields :: "(fields \<Rightarrow> fields) \<Rightarrow> window \<Rightarrow> window" where
  "on_fields f w = w\<lparr>wi_fields := f (wi_fields w)\<rparr>"

definition waits :: "pending \<Rightarrow> window \<Rightarrow> window" where
  "waits p w = w\<lparr>wi_pending := wi_pending w @ [p]\<rparr>"

text \<open>The start of \<open>init\<close>: an invitation fills the room id, hides the other way in and says so.\<close>

definition init_window :: "url_class \<Rightarrow> jstring \<Rightarrow> window" where
  "init_window U href =
     (let invitedRoom = (case room_param U href of Some r \<Rightarrow> r | None \<Rightarrow> [])
      in \<lparr>wi_controls = initial_controls,
          wi_fields = \<lparr>fd_displayName = [], fd_roomId = invitedRoom, fd_viewer = False, fd_chatInput = [], fd_camera = [], fd_mic = [],
            fd_newHidden = (invitedRoom \<noteq> []),
            fd_description = (if invitedRoom \<noteq> [] then js ''Join meeting '' @ invitedRoom @ js ''. Enter your name below.''
              else js ''Start a conversation or join your team with a room ID.''),
            fd_link = [], fd_roomLabel = [], fd_joinDisabled = False, fd_status = js ''Camera and microphone are optional.'', fd_level = 0\<rparr>,
          wi_href = href, wi_pending = []\<rparr>)"

section \<open>The preview\<close>

definition notify_error :: "string \<Rightarrow> window \<Rightarrow> window" where
  "notify_error text = on_page (with_ui (showNotification (Str (js text)) UI.Error))"

text \<open>\<open>setupPreview\<close> up to its first \<open>await\<close>, with the address and the texts.\<close>

definition preview_texts :: "url_class \<Rightarrow> jstring \<Rightarrow> window \<Rightarrow> window \<times> window_call list" where
  "preview_texts U roomId w =
     (let invite = with_room U (wi_href w) roomId
      in (on_fields (\<lambda>f. f\<lparr>fd_link := invite, fd_roomLabel := roomId, fd_joinDisabled := False,
            fd_status := (if fd_viewer f then js ''You will join without camera or microphone. You can enable them during the meeting.''
              else js ''Camera and microphone are optional. You can join while permission is pending.'')\<rparr>) (w\<lparr>wi_href := invite\<rparr>),
          [ReplaceUrl invite]))"

definition open_preview :: "url_class \<Rightarrow> browser \<Rightarrow> jstring \<Rightarrow> jstring \<Rightarrow> window \<Rightarrow> window \<times> window_call list" where
  "open_preview U b name roomId w =
     (let c = wi_controls w;
          (a, es, v) = setupPreview (br_secure b) (fd_viewer (wi_fields w)) name roomId (ct_app c);
          w1 = w\<lparr>wi_controls := c\<lparr>ct_app := a, ct_captures := (case v of None \<Rightarrow> ct_captures c | Some v \<Rightarrow> v # ct_captures c)\<rparr>\<rparr>
      in if preview_room_ok roomId \<and> br_secure b then
           let (w2, fs) = preview_texts U roomId w1
           in (w2, fs @ map Does es @ (if v = None then [] else map Ask getLocalStream_asks))
         else (w1, []))"

section \<open>The buttons\<close>

datatype action =
    BareJoin | CopyInvite | NewMeeting | LobbyJoin | BackToLobby | RoomJoin | MicButton | CamButton | LeaveButton
  | PanelButton string | ScreenButton | RecordButton | SendButton

definition click_table :: "(string \<times> action) list" where
  "click_table = [
     (''btn-join-without-devices'', BareJoin), (''btn-copy-invite'', CopyInvite),
     (''btn-new-meeting'', NewMeeting), (''btn-join-lobby'', LobbyJoin),
     (''btn-back-preview'', BackToLobby), (''btn-join-room'', RoomJoin),
     (''btn-toggle-preview-mic'', MicButton), (''btn-toggle-preview-cam'', CamButton),
     (''btn-toggle-mic'', MicButton), (''btn-toggle-cam'', CamButton), (''btn-leave'', LeaveButton),
     (''btn-toggle-chat'', PanelButton ''chat-panel''), (''btn-toggle-participants'', PanelButton ''participants-panel''),
     (''btn-toggle-screen'', ScreenButton), (''btn-toggle-record'', RecordButton), (''btn-send-chat'', SendButton)]"

text \<open>The view of \<open>index.html\<close> each button is in: a button can be clicked while its view is shown, as the
  style sheet hides the others.\<close>

definition view_table :: "(string \<times> string) list" where
  "view_table = [
     (''btn-new-meeting'', ''lobby''), (''btn-join-lobby'', ''lobby''),
     (''btn-toggle-preview-mic'', ''preview''), (''btn-toggle-preview-cam'', ''preview''), (''btn-back-preview'', ''preview''),
     (''btn-join-without-devices'', ''preview''), (''btn-join-room'', ''preview''),
     (''btn-copy-invite'', ''room''), (''btn-toggle-mic'', ''room''), (''btn-toggle-cam'', ''room''), (''btn-toggle-screen'', ''room''),
     (''btn-toggle-record'', ''room''), (''btn-toggle-participants'', ''room''), (''btn-toggle-chat'', ''room''),
     (''btn-leave'', ''room''), (''btn-send-chat'', ''room'')]"

definition clickable :: "string \<Rightarrow> window \<Rightarrow> bool" where
  "clickable i w \<longleftrightarrow> (case map_of view_table i of Some v \<Rightarrow> v \<in> set (ui_view (ap_ui (page w))) | None \<Rightarrow> False)"

text \<open>A function of the page that ends at once, and the two toggles, which may have to ask.\<close>

definition at_once :: "(app \<Rightarrow> app \<times> app_call list) \<Rightarrow> window \<Rightarrow> window \<times> window_call list" where
  "at_once f w = (on_page (fst \<circ> f) w, map Does (snd (f (page w))))"

definition mic_button :: "window \<Rightarrow> window \<times> window_call list" where
  "mic_button w =
     (let w1 = on_page (fst \<circ> toggleMute) w in
      case snd (toggleMute (page w)) of
        None \<Rightarrow> (w1, [])
      | Some v \<Rightarrow> (waits (ForMic v) w1, [Ask (snd (acquireTrack_begin ''audio'' (ap_devices (page w))))]))"

definition cam_button :: "window \<Rightarrow> window \<times> window_call list" where
  "cam_button w =
     (let w1 = on_page (fst \<circ> toggleVideo) w in
      case snd (toggleVideo (page w)) of
        None \<Rightarrow> (w1, [Does (ByDevices ShowStream)])
      | Some v \<Rightarrow> (waits (ForCam v) w1, [Ask (snd (acquireTrack_begin ''video'' (ap_devices (page w))))]))"

definition screen_button :: "browser \<Rightarrow> window \<Rightarrow> window \<times> window_call list" where
  "screen_button b w =
     (let c = wi_controls w in
      case toggleScreenShare (br_message b) (br_sender b) (ct_app c) of
        None \<Rightarrow> (waits ForScreen w, [Ask TheScreen])
      | Some (a, es, r) \<Rightarrow>
          (w\<lparr>wi_controls := c\<lparr>ct_app := a, ct_unsharing := awaiting r (ct_unsharing c), ct_onended := unhandled (ct_app c) (ct_onended c)\<rparr>\<rparr>,
           map Does es))"

text \<open>\<open>sendChat\<close>: the input is emptied once the line is sent; nothing happens to it when \<open>send\<close> throws.\<close>

definition send_button :: "window \<Rightarrow> window \<times> window_call list" where
  "send_button w =
     (case sendChat (fd_chatInput (wi_fields w)) (page w) of
        Inl err \<Rightarrow> (w, [])
      | Inr es \<Rightarrow> if es = [] then (w, []) else (on_fields (\<lambda>f. f\<lparr>fd_chatInput := []\<rparr>) w, map Does es))"

text \<open>\<open>onNewMeeting\<close> and \<open>onJoinLobbyClick\<close> with the fields they read and write.\<close>

definition new_meeting_button :: "url_class \<Rightarrow> browser \<Rightarrow> window \<Rightarrow> window \<times> window_call list" where
  "new_meeting_button U b w =
     (let name = trim (fd_displayName (wi_fields w)); roomId = generateRoomId (br_uuid b) in
      if name = [] then (notify_error ''Please enter a display name'' w, [])
      else open_preview U b name roomId (on_fields (\<lambda>f. f\<lparr>fd_roomId := roomId\<rparr>) w))"

definition lobby_button :: "url_class \<Rightarrow> browser \<Rightarrow> window \<Rightarrow> window \<times> window_call list" where
  "lobby_button U b w =
     (let name = trim (fd_displayName (wi_fields w)); typed = trim (fd_roomId (wi_fields w));
          roomId = (if is_link typed then (case room_param U typed of Some r \<Rightarrow> r | None \<Rightarrow> []) else typed) in
      if name = [] then (notify_error ''Please enter a display name'' w, [])
      else if roomId = [] then (notify_error ''Please enter a room ID'' w, [])
      else open_preview U b name roomId w)"

fun run_action :: "url_class \<Rightarrow> browser \<Rightarrow> action \<Rightarrow> window \<Rightarrow> window \<times> window_call list" where
  "run_action U b BareJoin w = at_once (join_without_devices (br_socket b)) w"
| "run_action U b CopyInvite w = (waits ForClipboard w, [WriteClipboard (fd_link (wi_fields w))])"
| "run_action U b NewMeeting w = new_meeting_button U b w"
| "run_action U b LobbyJoin w = lobby_button U b w"
| "run_action U b BackToLobby w = at_once back_to_lobby w"
| "run_action U b RoomJoin w = at_once (onJoinRoom (br_socket b)) w"
| "run_action U b MicButton w = mic_button w"
| "run_action U b CamButton w = cam_button w"
| "run_action U b LeaveButton w = at_once leaveRoom w"
| "run_action U b (PanelButton p) w = (on_page (with_ui (togglePanel p)) w, [])"
| "run_action U b ScreenButton w = screen_button b w"
| "run_action U b RecordButton w = at_once (toggleRecording (br_recorder b)) w"
| "run_action U b SendButton w = send_button w"

text \<open>The listeners of the selectors and of the chat input.\<close>

definition getSelectedCamera :: "window \<Rightarrow> jstring" where
  "getSelectedCamera w = fd_camera (wi_fields w)"

definition getSelectedMic :: "window \<Rightarrow> jstring" where
  "getSelectedMic w = fd_mic (wi_fields w)"

definition camera_chosen :: "window \<Rightarrow> window \<times> window_call list" where
  "camera_chosen w = (waits ForCamera w, [Ask (setCamera_begin (getSelectedCamera w))])"

definition microphone_chosen :: "window \<Rightarrow> window \<times> window_call list" where
  "microphone_chosen w = (waits ForMicrophone w, [Ask (setMicrophone_begin (getSelectedMic w))])"

definition key_pressed :: "jstring \<Rightarrow> window \<Rightarrow> window \<times> window_call list" where
  "key_pressed key w = (if key = js ''Enter'' then send_button w else (w, []))"

section \<open>The browser answers\<close>

definition answered :: "pending \<Rightarrow> window \<Rightarrow> window" where
  "answered p w = w\<lparr>wi_pending := remove1 p (wi_pending w)\<rparr>"

text \<open>The microphone or the camera a toggle asked for, with the publication it may wait for next.\<close>

definition mic_answer :: "browser \<Rightarrow> int \<Rightarrow> media_track list option \<Rightarrow> window \<Rightarrow> window \<times> window_call list" where
  "mic_answer b v got w =
     (let c = wi_controls w; (a, es, p) = microphone_given (br_sender b) v got (ct_app c)
      in (w\<lparr>wi_controls := c\<lparr>ct_app := a, ct_mic := (case p of None \<Rightarrow> ct_mic c | Some t \<Rightarrow> t # ct_mic c)\<rparr>\<rparr>, map Does es))"

text \<open>\<open>toggleVideo\<close> ends with the video element showing the local stream, unless it failed or awaits more.\<close>

definition cam_ended :: "int \<Rightarrow> media_track list option \<Rightarrow> media_track option \<Rightarrow> app \<Rightarrow> bool" where
  "cam_ended v got p a \<longleftrightarrow> p = None \<and> v = dv_captureVersion (ap_devices a) \<and> (\<exists>t ts. got = Some (t # ts))"

definition cam_answer :: "browser \<Rightarrow> int \<Rightarrow> media_track list option \<Rightarrow> window \<Rightarrow> window \<times> window_call list" where
  "cam_answer b v got w =
     (let c = wi_controls w; (a, es, p) = camera_given (br_sender b) v got (ct_app c)
      in (w\<lparr>wi_controls := c\<lparr>ct_app := a, ct_cam := (case p of None \<Rightarrow> ct_cam c | Some t \<Rightarrow> t # ct_cam c)\<rparr>\<rparr>,
          map Does es @ (if cam_ended v got p (ct_app c) then [Does (ByDevices ShowStream)] else [])))"

definition screen_answer :: "browser \<Rightarrow> media_track list option \<Rightarrow> window \<Rightarrow> window \<times> window_call list" where
  "screen_answer b got w =
     (let c = wi_controls w; (a, es, r) = screen_given (br_message b) (br_sender b) got (ct_app c)
      in (w\<lparr>wi_controls := c\<lparr>ct_app := a, ct_sharing := awaiting r (ct_sharing c)\<rparr>\<rparr>, map Does es))"

text \<open>The capture of the preview settled; while the preview is shown, the devices are listed next.\<close>

definition capture_answer :: "int \<Rightarrow> media_track list option list \<Rightarrow> window \<Rightarrow> window \<times> window_call list" where
  "capture_answer v results w =
     (let c = wi_controls w; (a, es, goes_on) = preview_captured v results (ct_app c);
          w1 = w\<lparr>wi_controls := c\<lparr>ct_app := a, ct_captures := remove1 v (ct_captures c)\<rparr>\<rparr>
      in if goes_on then
           (waits ForDevices (on_fields (\<lambda>f. f\<lparr>fd_status := js ''You can join with the available devices, or without camera and microphone.'',
              fd_joinDisabled := False\<rparr>) w1), map Does es @ [Ask TheDevices])
         else (w1, map Does es))"

text \<open>The listener of the microphone selector goes on; the controls remember whether it got to its end.\<close>

definition microphone_answer :: "nat option \<Rightarrow> media_track \<Rightarrow> window \<Rightarrow> window \<times> window_call list" where
  "microphone_answer ctx t w =
     (let c = wi_controls w; (a, es, returned) = microphone_selected ctx t (ct_app c)
      in (w\<lparr>wi_controls := c\<lparr>ct_app := a, ct_lostMic := (ct_lostMic c \<or> \<not> returned)\<rparr>\<rparr>, map Does es))"

text \<open>The devices are known. The first frame of the meter is drawn at once, and each frame asks for the
  next; without an audio context the \<open>catch\<close> of \<open>setupPreview\<close> says so.\<close>

definition meter_tick :: "8 word list \<Rightarrow> nat \<Rightarrow> window \<Rightarrow> window" where
  "meter_tick bytes frame w =
     on_page (update_audio frame) (on_fields (\<lambda>f. f\<lparr>fd_level := getAudioLevel (ap_devices (page w)) bytes\<rparr>) w)"

definition devices_answer :: "(nat \<Rightarrow> jstring) \<Rightarrow> nat option \<Rightarrow> nat \<Rightarrow> 8 word list \<Rightarrow> jsval list option \<Rightarrow> window \<Rightarrow> window \<times> window_call list" where
  "devices_answer ordinal ctx frame bytes found w =
     (let (a, es, returned) = preview_ready ordinal ctx frame found (page w); w1 = on_page (\<lambda>_. a) w
      in (on_fields (\<lambda>f. if returned then f\<lparr>fd_level := getAudioLevel (ap_devices a) bytes\<rparr>
            else f\<lparr>fd_status := js ''Devices unavailable. You can still join and watch the meeting.''\<rparr>) w1, map Does es))"

text \<open>The clipboard took the link, or the page selects it for the user to copy.\<close>

definition clipboard_answer :: "bool \<Rightarrow> window \<Rightarrow> window \<times> window_call list" where
  "clipboard_answer ok w =
     (if ok then (on_page (with_ui (showNotification (Str (js ''Invitation link copied'')) Info)) w, [])
      else (on_page (with_ui (showNotification (Str (js ''Copy the selected invitation link'')) Info)) w, [SelectLink]))"

text \<open>The end of \<open>onJoinRoom\<close>: the address names the room.\<close>

definition join_done :: "url_class \<Rightarrow> window \<Rightarrow> window \<times> window_call list" where
  "join_done U w =
     (let url = with_room U (wi_href w) (ap_roomId (page w))
      in (on_page join_finished (w\<lparr>wi_href := url\<rparr>), [ReplaceUrl url]))"

section \<open>The machine\<close>

datatype window_event =
    Click string
  | Chosen string
  | Pressed jstring
  | Edited fields
  | MicAnswer int "media_track list option"
  | CamAnswer int "media_track list option"
  | CameraAnswer "media_track option"
  | MicrophoneAnswer "nat option" "media_track option"
  | ScreenAnswer "media_track list option"
  | CaptureAnswer int "media_track list option list"
  | DevicesAnswer "jsval list option"
  | ClipboardAnswer bool
  | MeterTick "8 word list"
  | JoinDone
  | Elsewhere control_event

text \<open>The fields the user can edit.\<close>

definition edits :: "fields \<Rightarrow> fields \<Rightarrow> bool" where
  "edits f g \<longleftrightarrow> g = f\<lparr>fd_displayName := fd_displayName g, fd_roomId := fd_roomId g, fd_viewer := fd_viewer g,
     fd_chatInput := fd_chatInput g, fd_camera := fd_camera g, fd_mic := fd_mic g\<rparr>"

text \<open>What happens outside the document: publications, the socket, its timers, the session.\<close>

fun of_network :: "control_event \<Rightarrow> bool" where
  "of_network (MicPublished t) = True"
| "of_network (CamPublished t) = True"
| "of_network (ScreenPublished old new) = True"
| "of_network (ScreenTaken old new) = True"
| "of_network (ScreenEnded t) = True"
| "of_network (MicRejected t) = True"
| "of_network (CamRejected t) = True"
| "of_network (SharingRejected old new) = True"
| "of_network (UnsharingRejected old new) = True"
| "of_network (FrameIn j m) = True"
| "of_network (SocketClosed j n) = True"
| "of_network (SocketOpened j n) = True"
| "of_network (SocketErred j n) = True"
| "of_network (DialTimedOut j n) = True"
| "of_network (AskTimedOut j i) = True"
| "of_network (EarlierJoin k) = True"
| "of_network (SessionMoved ev cs) = True"
| "of_network ev = False"

fun stream_shown :: "control_event \<Rightarrow> window_call list" where
  "stream_shown (CamPublished t) = [Does (ByDevices ShowStream)]"
| "stream_shown ev = []"

inductive window_step :: "url_class \<Rightarrow> window \<Rightarrow> window_event \<times> window_call list \<Rightarrow> window \<Rightarrow> bool" for U where
  clicks: "map_of click_table i = Some act \<Longrightarrow> clickable i w \<Longrightarrow> run_action U b act w = (x, es) \<Longrightarrow> window_step U w (Click i, es) x"
| camera_chooses: "camera_chosen w = (x, es) \<Longrightarrow> window_step U w (Chosen ''camera-select'', es) x"
| microphone_chooses: "microphone_chosen w = (x, es) \<Longrightarrow> window_step U w (Chosen ''mic-select'', es) x"
| presses: "key_pressed key w = (x, es) \<Longrightarrow> window_step U w (Pressed key, es) x"
| edits: "edits (wi_fields w) f \<Longrightarrow> window_step U w (Edited f, []) (w\<lparr>wi_fields := f\<rparr>)"
| mic_answers: "ForMic v \<in> set (wi_pending w) \<Longrightarrow> tracks_of ''audio'' got \<Longrightarrow>
    mic_answer b v got (answered (ForMic v) w) = (x, es) \<Longrightarrow> window_step U w (MicAnswer v got, es) x"
| cam_answers: "ForCam v \<in> set (wi_pending w) \<Longrightarrow> tracks_of ''video'' got \<Longrightarrow>
    cam_answer b v got (answered (ForCam v) w) = (x, es) \<Longrightarrow> window_step U w (CamAnswer v got, es) x"
| camera_answers: "ForCamera \<in> set (wi_pending w) \<Longrightarrow> mt_kind t = ''video'' \<Longrightarrow>
    at_once (camera_selected t) (answered ForCamera w) = (x, es) \<Longrightarrow> window_step U w (CameraAnswer (Some t), es) x"
| camera_refused: "ForCamera \<in> set (wi_pending w) \<Longrightarrow> window_step U w (CameraAnswer None, []) (answered ForCamera w)"
| microphone_answers: "ForMicrophone \<in> set (wi_pending w) \<Longrightarrow> mt_kind t = ''audio'' \<Longrightarrow>
    microphone_answer ctx t (answered ForMicrophone w) = (x, es) \<Longrightarrow> window_step U w (MicrophoneAnswer ctx (Some t), es) x"
| microphone_refused: "ForMicrophone \<in> set (wi_pending w) \<Longrightarrow>
    window_step U w (MicrophoneAnswer ctx None, []) (answered ForMicrophone w)"
| screen_answers: "ForScreen \<in> set (wi_pending w) \<Longrightarrow> screen_answer b got (answered ForScreen w) = (x, es) \<Longrightarrow>
    window_step U w (ScreenAnswer got, es) x"
| capture_answers: "v \<in> set (ct_captures (wi_controls w)) \<Longrightarrow> capture_answer v results w = (x, es) \<Longrightarrow>
    window_step U w (CaptureAnswer v results, es) x"
| devices_answers: "ForDevices \<in> set (wi_pending w) \<Longrightarrow> devices_answer ordinal ctx frame bytes found (answered ForDevices w) = (x, es) \<Longrightarrow>
    window_step U w (DevicesAnswer found, es) x"
| clipboard_answers: "ForClipboard \<in> set (wi_pending w) \<Longrightarrow> clipboard_answer ok (answered ForClipboard w) = (x, es) \<Longrightarrow>
    window_step U w (ClipboardAnswer ok, es) x"
| meter_ticks: "dv_animationFrameId (ap_devices (page w)) \<noteq> None \<Longrightarrow> window_step U w (MeterTick bytes, []) (meter_tick bytes frame w)"
| join_dones: "ap_webrtc (page w) \<noteq> None \<Longrightarrow> join_done U w = (x, es) \<Longrightarrow> window_step U w (JoinDone, es) x"
| elsewhere: "control_step (wi_controls w) ev d \<Longrightarrow> of_network ev \<Longrightarrow>
    window_step U w (Elsewhere ev, stream_shown ev) (w\<lparr>wi_controls := d\<rparr>)"

inductive_cases clickE: "window_step U w (Click i, es) x"
inductive_cases camera_answerE: "window_step U w (CameraAnswer (Some t), es) x"

definition window_reachable :: "url_class \<Rightarrow> window \<Rightarrow> bool" where
  "window_reachable U = reachable (\<lambda>w. \<exists>href. w = init_window U href) (window_step U)"

section \<open>The window refines the controls\<close>

text \<open>A step the controls take no part in.\<close>

definition rests :: "controls \<Rightarrow> controls \<Rightarrow> bool" where
  "rests c d \<longleftrightarrow> same_controls (ct_app c) (ct_app d) \<and> d = c\<lparr>ct_app := ct_app d\<rparr>"

definition refines :: "window \<Rightarrow> window \<Rightarrow> bool" where
  "refines w x \<longleftrightarrow> (\<exists>ev. control_step (wi_controls w) ev (wi_controls x)) \<or> rests (wi_controls w) (wi_controls x)"

lemma rests_refl [simp]: "rests c c"
  by (simp add: rests_def)

lemma window_fields [simp]:
  "wi_controls (on_page f w) = on_app f (wi_controls w)" "wi_controls (on_fields g w) = wi_controls w"
  "wi_controls (waits p w) = wi_controls w" "wi_controls (answered p w) = wi_controls w"
  "wi_fields (on_page f w) = wi_fields w" "wi_fields (on_fields g w) = g (wi_fields w)" "wi_fields (waits p w) = wi_fields w"
  "wi_fields (answered p w) = wi_fields w" "wi_href (on_page f w) = wi_href w" "wi_href (on_fields g w) = wi_href w"
  "wi_href (waits p w) = wi_href w" "page (on_page f w) = f (page w)" "page (on_fields g w) = page w" "page (waits p w) = page w"
  "page (answered p w) = page w" "ct_app (wi_controls w) = page w" "page (w\<lparr>wi_controls := c\<rparr>) = ct_app c"
  "page (w\<lparr>wi_fields := fs\<rparr>) = page w" "page (w\<lparr>wi_href := h\<rparr>) = page w" "page (w\<lparr>wi_pending := ps\<rparr>) = page w"
  by (simp_all add: on_page_def on_fields_def waits_def answered_def page_def on_app_def)

lemma refines_step: "control_step (wi_controls w) ev (wi_controls x) \<Longrightarrow> refines w x"
  by (auto simp: refines_def)

lemma refines_on_app:
  "control_step (wi_controls w) ev (on_app f (wi_controls w)) \<Longrightarrow> wi_controls x = on_app f (wi_controls w) \<Longrightarrow> refines w x"
  by (auto simp: refines_def)

lemma refines_rest: "wi_controls x = wi_controls w \<Longrightarrow> refines w x"
  by (simp add: refines_def)

lemma refines_page: "same_controls (page w) (f (page w)) \<Longrightarrow> wi_controls x = on_app f (wi_controls w) \<Longrightarrow> refines w x"
  by (simp add: refines_def rests_def on_app_def)

lemma refines_at_once:
  "control_step (wi_controls w) ev (on_app (fst \<circ> f) (wi_controls w)) \<Longrightarrow> at_once f w = (x, es) \<Longrightarrow> refines w x"
  by (rule refines_on_app) (auto simp: at_once_def)

lemma preview_refines:
  assumes "open_preview U b name roomId w = (x, es)"
  shows "refines w x"
proof -
  obtain a fs v where s: "setupPreview (br_secure b) (fd_viewer (wi_fields w)) name roomId (ct_app (wi_controls w)) = (a, fs, v)"
    by (cases "setupPreview (br_secure b) (fd_viewer (wi_fields w)) name roomId (ct_app (wi_controls w))")
  have "wi_controls x = (wi_controls w)\<lparr>ct_app := a, ct_captures := (case v of None \<Rightarrow> ct_captures (wi_controls w) | Some v \<Rightarrow> v # ct_captures (wi_controls w))\<rparr>"
    using assms s by (auto simp: open_preview_def preview_texts_def Let_def split: if_splits)
  then show ?thesis using preview_opened [OF s] by (auto intro: refines_step)
qed

lemma panel_same: "same_controls a (with_ui (togglePanel p) a)"
  by (simp add: same_controls_def with_ui_def togglePanel_def)

lemma refines_panel: "refines w (on_page (with_ui (togglePanel p)) w)"
  by (rule refines_page [where f = "with_ui (togglePanel p)"]) (simp_all add: panel_same)

lemma buttons_refine:
  "mic_button w = (x, es) \<Longrightarrow> refines w x" "cam_button w = (x, es) \<Longrightarrow> refines w x"
  "screen_button b w = (x, es) \<Longrightarrow> refines w x" "send_button w = (x, es) \<Longrightarrow> refines w x"
  "new_meeting_button U b w = (x, es) \<Longrightarrow> refines w x" "lobby_button U b w = (x, es) \<Longrightarrow> refines w x"
proof -
  show "mic_button w = (x, es) \<Longrightarrow> refines w x" "cam_button w = (x, es) \<Longrightarrow> refines w x"
    by (auto simp: mic_button_def cam_button_def Let_def intro: refines_on_app [OF mute_click] refines_on_app [OF video_click]
        split: option.splits)
  show "screen_button b w = (x, es) \<Longrightarrow> refines w x"
    using screen_click [of "br_message b" "br_sender b" "wi_controls w"]
    by (auto simp: screen_button_def Let_def intro: refines_step refines_rest split: option.splits)
  show "send_button w = (x, es) \<Longrightarrow> refines w x"
    by (auto simp: send_button_def intro: refines_rest split: sum.splits if_splits)
  have "refines w (notify_error msg w)" for msg
    by (rule refines_page [of w "with_ui (showNotification (Str (js msg)) UI.Error)"]) (simp_all add: notify_error_def)
  moreover have "refines w x" if "open_preview U b n r (on_fields f w) = (x, es)" for n r f
    using preview_refines [OF that] by (simp add: refines_def)
  ultimately show "new_meeting_button U b w = (x, es) \<Longrightarrow> refines w x" "lobby_button U b w = (x, es) \<Longrightarrow> refines w x"
    by (auto simp: new_meeting_button_def lobby_button_def Let_def intro: preview_refines split: if_splits)
qed

lemma action_refines: "run_action U b act w = (x, es) \<Longrightarrow> refines w x"
  by (cases act)
    (auto intro: buttons_refine refines_rest refines_panel
      refines_at_once [OF join_bare] refines_at_once [OF join_click] refines_at_once [OF back_click]
      refines_at_once [OF leave_click] refines_at_once [OF record_click])

text \<open>The answers of the browser.\<close>

lemma answers_refine:
  "tracks_of ''audio'' got \<Longrightarrow> mic_answer b v got w = (x, es) \<Longrightarrow> refines w x"
  "tracks_of ''video'' got \<Longrightarrow> cam_answer b v got w = (x, es) \<Longrightarrow> refines w x"
  "screen_answer b got w = (x, es) \<Longrightarrow> refines w x"
  "v \<in> set (ct_captures (wi_controls w)) \<Longrightarrow> capture_answer v results w = (x, es) \<Longrightarrow> refines w x"
proof -
  show "tracks_of ''audio'' got \<Longrightarrow> mic_answer b v got w = (x, es) \<Longrightarrow> refines w x"
    using mic_given [of got "br_sender b" v "wi_controls w"]
    by (auto simp: mic_answer_def Let_def intro: refines_step split: prod.splits)
  show "tracks_of ''video'' got \<Longrightarrow> cam_answer b v got w = (x, es) \<Longrightarrow> refines w x"
    using cam_given [of got "br_sender b" v "wi_controls w"]
    by (auto simp: cam_answer_def Let_def intro: refines_step split: prod.splits)
  show "screen_answer b got w = (x, es) \<Longrightarrow> refines w x"
    using screen_given [of "br_message b" "br_sender b" got "wi_controls w"]
    by (auto simp: screen_answer_def Let_def intro: refines_step split: prod.splits)
  assume v: "v \<in> set (ct_captures (wi_controls w))" "capture_answer v results w = (x, es)"
  then have "wi_controls x = (wi_controls w)\<lparr>ct_app := fst (preview_captured v results (page w)),
      ct_captures := remove1 v (ct_captures (wi_controls w))\<rparr>"
    by (auto simp: capture_answer_def Let_def split_beta split: if_splits)
  then show "refines w x" using captured [OF v(1), of results] by (auto intro: refines_step)
qed

lemma microphone_refines: "mt_kind t = ''audio'' \<Longrightarrow> microphone_answer ctx t w = (x, es) \<Longrightarrow> refines w x"
  using mic_picked [of t ctx "wi_controls w"]
  by (auto simp: microphone_answer_def Let_def intro: refines_step split: prod.splits)

lemma answered_refines: "refines (answered p w) x \<Longrightarrow> refines w x"
  by (simp add: refines_def)

lemma devices_refine:
  "devices_answer ordinal ctx frame bytes found w = (x, es) \<Longrightarrow> refines w x"
  "refines w (meter_tick bytes frame w)" "clipboard_answer ok w = (x, es) \<Longrightarrow> refines w x" "join_done U w = (x, es) \<Longrightarrow> refines w x"
proof -
  show "devices_answer ordinal ctx frame bytes found w = (x, es) \<Longrightarrow> refines w x"
    by (rule refines_on_app [OF preview_shown [where found = found and ordinal = ordinal and ctx = ctx and frame = frame]])
      (auto simp: devices_answer_def on_app_def split_beta Let_def)
  show "refines w (meter_tick bytes frame w)" by (rule refines_on_app [OF meter_frame]) (simp add: meter_tick_def)
  show "clipboard_answer ok w = (x, es) \<Longrightarrow> refines w x"
    by (auto simp: clipboard_answer_def intro!: refines_page [where f = "with_ui (showNotification v k)" for v k] split: if_splits)
  have "same_controls a (join_finished a)" for a by (simp add: join_finished_def)
  then show "join_done U w = (x, es) \<Longrightarrow> refines w x" by (auto simp: join_done_def Let_def on_page_def intro!: refines_page [where f = join_finished])
qed

lemma window_refines:
  assumes "window_step U w (ev, es) x"
  shows "refines w x"
  using assms
proof cases
  case clicks
  then show ?thesis using action_refines by fast
next
  case camera_answers
  then show ?thesis using answered_refines refines_at_once [OF camera_picked] by blast
next
  case microphone_answers
  then show ?thesis using answered_refines microphone_refines by blast
next
  case elsewhere
  then show ?thesis by (auto intro: refines_step)
next
  case capture_answers
  then show ?thesis using answers_refine(4) by blast
qed (auto simp: camera_chosen_def microphone_chosen_def key_pressed_def
    intro: refines_rest answered_refines answers_refine devices_refine buttons_refine split: if_splits)

end
