(* ===== verification/WindowProperties.thy ===== *)
theory WindowProperties
  imports Wiring
begin

text \<open>
  What the wiring of \<open>Wiring\<close> gives: whatever the user does to the document, the buttons tell the truth, an
  invitation link leads back to the room it was made in, and a camera chosen in the preview may be given
  after the preview is gone.
\<close>

section \<open>The buttons of the window\<close>

lemma rests_ok: "rests c d \<Longrightarrow> controls_ok c \<Longrightarrow> controls_ok d"
proof -
  assume r: "rests c d" and ok: "controls_ok c"
  from r have "d = c\<lparr>ct_app := ct_app d\<rparr>" by (simp add: rests_def)
  then obtain a where d: "d = c\<lparr>ct_app := a\<rparr>" by blast
  with r ok show "controls_ok d" by (simp add: rests_def controls_ok_def same_controls_ok)
qed

lemma initial_controls_ok: "controls_ok initial_controls"
  by (rule control_machine.start_inv) simp

interpretation window_machine: machine "\<lambda>w. \<exists>href. w = init_window U href" "window_step U" "\<lambda>w. controls_ok (wi_controls w)" for U
proof
  show "controls_ok (wi_controls w)" if "\<exists>href. w = init_window U href" for w
    using that initial_controls_ok by (auto simp: init_window_def Let_def)
  show "controls_ok (wi_controls x)" if "controls_ok (wi_controls w)" "window_step U w l x" for w l x
    using window_refines [of U w "fst l" "snd l" x] that control_step_ok rests_ok by (auto simp: refines_def)
qed

lemma controls_ok_buttons:
  assumes "controls_ok (wi_controls w)"
  shows "bt_pressed (ui_mic (ap_ui (page w))) = ap_muted (page w) \<and> bt_pressed (ui_cam (ap_ui (page w))) = (\<not> ap_videoEnabled (page w)) \<and>
    bt_pressed (ui_record (ap_ui (page w))) = ap_recording (page w) \<and>
    (ct_mic (wi_controls w) = [] \<and> \<not> ct_lostMic (wi_controls w) \<longrightarrow> (\<forall>t \<in> set (audio_tracks (page w)). mt_enabled t = (\<not> bt_pressed (ui_mic (ap_ui (page w)))))) \<and>
    (ct_cam (wi_controls w) = [] \<and> \<not> ct_lostCam (wi_controls w) \<longrightarrow> (\<forall>t \<in> set (video_tracks (page w)). mt_enabled t = (\<not> bt_pressed (ui_cam (ap_ui (page w))))))"
  using assms
  by (auto simp: controls_ok_def app_ok_def buttons_ok_def uniform_def audio_tracks_def video_tracks_def of_kind_def list_all_iff)

text \<open>C3. The buttons of the document tell the truth, with the exceptions named here. From the moment the page
  is loaded, whatever the user clicks, chooses and types, whatever the browser grants, refuses or answers
  late, and whatever the server and the other pages send, the microphone, camera and recording buttons
  show the state of the page. Every microphone track is enabled exactly if the button does not show it as
  muted, as long as no microphone is just being published, none was refused by a sender, and the level
  meter of no chosen microphone failed to start; every camera track is enabled exactly if the button does
  not show it as off, as long as no camera is just being published and none was refused by a sender.
  What happens in the exceptions is said by \<open>live_behind_muted_button\<close> and \<open>muted_choice_joins_live\<close>.
  Each step of the window is a step of the machine of the controls or leaves what they show alone.\<close>

theorem window_truthful:
  assumes "window_reachable U w"
  shows "bt_pressed (ui_mic (ap_ui (page w))) = ap_muted (page w) \<and>
    bt_pressed (ui_cam (ap_ui (page w))) = (\<not> ap_videoEnabled (page w)) \<and>
    bt_pressed (ui_record (ap_ui (page w))) = ap_recording (page w) \<and>
    (ct_mic (wi_controls w) = [] \<and> \<not> ct_lostMic (wi_controls w) \<longrightarrow> (\<forall>t \<in> set (audio_tracks (page w)). mt_enabled t = (\<not> bt_pressed (ui_mic (ap_ui (page w)))))) \<and>
    (ct_cam (wi_controls w) = [] \<and> \<not> ct_lostCam (wi_controls w) \<longrightarrow> (\<forall>t \<in> set (video_tracks (page w)). mt_enabled t = (\<not> bt_pressed (ui_cam (ap_ui (page w)))))) \<and>
    (\<forall>ev es x. window_step U w (ev, es) x \<longrightarrow> refines w x)"
proof -
  have "controls_ok (wi_controls w)" using assms unfolding window_reachable_def by (rule window_machine.reach_inv)
  from controls_ok_buttons [OF this] show ?thesis using window_refines by blast
qed

section \<open>Opening the preview\<close>

lemma setupPreview_opens:
  assumes "preview_room_ok r" and "setupPreview True viewer name r a = (b, es, v)"
  shows "ui_view (ap_ui b) = [''preview''] \<and> ap_roomId b = r \<and> ap_displayName b = name"
  using assms
  by (auto simp: setupPreview_def join_as_viewer_def with_ui_def showView_def setMuted_def setCameraEnabled_def getLocalStream_begin_def
      Let_def split_beta split: if_splits)


lemma open_preview_opens:
  assumes "preview_room_ok r" and "br_secure b" and "open_preview U b name r w = (x, es)"
  shows "ui_view (ap_ui (page x)) = [''preview''] \<and> ap_roomId (page x) = r \<and> ap_displayName (page x) = name \<and>
    fd_link (wi_fields x) = with_room U (wi_href w) r \<and> wi_href x = with_room U (wi_href w) r \<and>
    ReplaceUrl (with_room U (wi_href w) r) \<in> set es"
proof -
  obtain a fs v where s: "setupPreview True (fd_viewer (wi_fields w)) name r (page w) = (a, fs, v)"
    by (cases "setupPreview True (fd_viewer (wi_fields w)) name r (page w)")
  from setupPreview_opens [OF assms(1) s] assms s show ?thesis
    by (auto simp: open_preview_def preview_texts_def Let_def)
qed



section \<open>The invitation link\<close>


lemma alnum_not_space: "is_alnum c \<Longrightarrow> \<not> is_space c"
  by (auto simp: char_class_defs word_le_nat_alt word_less_nat_alt unat_arith_simps)

lemma trim_ends: "s = [] \<or> \<not> is_space (hd s) \<and> \<not> is_space (last s) \<Longrightarrow> trim s = s"
  by (cases s rule: rev_cases) (auto simp: trim_def dropWhile_id)

lemma trim_alnum: "list_all is_alnum r \<Longrightarrow> trim r = r"
  using alnum_not_space by (intro trim_ends) (cases r, auto simp: list_all_iff)

lemma alnum_no_link: "list_all is_alnum r \<Longrightarrow> \<not> is_link r"
proof
  assume alnum: "list_all is_alnum r" and "is_link r"
  then obtain n where "take n r = js ''http://'' \<or> take n r = js ''https://''" by (auto simp: is_link_def starts_with_def)
  then have "47 \<in> set (take n r)" by (auto simp: js_def)
  then have "is_alnum 47" using alnum by (auto simp: list_all_iff dest: in_set_takeD)
  then show False by (simp add: char_class_defs)
qed



text \<open>A class of that kind: the parameter is all of the query.\<close>

definition query_urls :: url_class where
  "query_urls = \<lparr>room_param = (\<lambda>s. let q = dropWhile (\<lambda>c. c \<noteq> 63) s in
       if is_link s \<and> starts_with q (js ''?room='') then Some (drop 6 q) else None),
     with_room = (\<lambda>h r. takeWhile (\<lambda>c. c \<noteq> 63) h @ js ''?room='' @ r)\<rparr>"





section \<open>A window to run\<close>

text \<open>Somebody fills in the lobby, joins and gets a microphone.\<close>

definition demo_browser :: browser where
  "demo_browser = \<lparr>br_uuid = [], br_socket = 7, br_secure = True, br_message = Undefined, br_sender = (\<lambda>i k. True), br_recorder = Vp9\<rparr>"

definition demo_href :: jstring where
  "demo_href = js ''https://m.org/''"

definition demo_filled :: window where
  "demo_filled = on_fields (\<lambda>f. f\<lparr>fd_displayName := js ''B'', fd_roomId := js ''room123''\<rparr>) (init_window query_urls demo_href)"

definition demo_window :: window where
  "demo_window = fst (run_action query_urls demo_browser LobbyJoin demo_filled)"

definition demo_live :: window where
  "demo_live = fst (capture_answer 1 [Some [demo_mic], None] demo_window)"

lemma demo_filled_parts: "wi_controls demo_filled = initial_controls" "wi_href demo_filled = demo_href"
  "fd_displayName (wi_fields demo_filled) = js ''B''" "fd_roomId (wi_fields demo_filled) = js ''room123''" "\<not> fd_viewer (wi_fields demo_filled)"
  by (simp_all add: demo_filled_def init_window_def Let_def)

lemma demo_room_ok: "preview_room_ok (js ''room123'')"
  by (simp add: preview_room_ok_def) (simp add: js_def char_class_defs)

lemma demo_clicked: "run_action query_urls demo_browser LobbyJoin demo_filled = open_preview query_urls demo_browser (js ''B'') (js ''room123'') demo_filled"
proof -
  have alnum: "list_all is_alnum (js ''room123'')" using demo_room_ok by (simp add: preview_room_ok_def)
  show ?thesis
    using alnum_no_link [OF alnum] trim_alnum [OF alnum] demo_trim(2) by (simp add: lobby_button_def demo_filled_parts Let_def)
qed

lemma demo_window_controls: "wi_controls demo_window = demo_previewing"
proof -
  have start: "ct_app initial_controls = init_app" "ct_captures initial_controls = []" by (simp_all add: initial_controls_def)
  have secure: "br_secure demo_browser" by (simp add: demo_browser_def)
  have "snd (snd (setupPreview True False (js ''B'') (js ''room123'') init_app)) = Some 1"
    by (simp add: setupPreview_def demo_room_ok getLocalStream_begin_def with_ui_def Let_def init_app_def new_DeviceManager_def)
  then show ?thesis
    unfolding demo_window_def demo_clicked demo_previewing_def
    by (simp add: open_preview_def demo_filled_parts(1,5) secure start demo_room_ok preview_texts_def Let_def split_beta
        del: window_fields(16))
qed

lemma demo_views:
  "ui_view (ap_ui (page demo_filled)) = [''lobby'']" "ui_view (ap_ui (page demo_window)) = [''preview'']"
proof -
  show "ui_view (ap_ui (page demo_filled)) = [''lobby'']"
    by (simp add: page_def demo_filled_parts initial_controls_def init_app_def initial_ui_def del: window_fields(16))
  show "ui_view (ap_ui (page demo_window)) = [''preview'']"
    using open_preview_opens [OF demo_room_ok _ surjective_pairing, of demo_browser query_urls "js ''B''" demo_filled]
    unfolding demo_window_def demo_clicked by (simp add: demo_browser_def)
qed

lemma demo_live_controls: "wi_controls demo_live = demo_captured"
proof -
  have "ct_captures demo_previewing = [1]" by (simp add: demo_previewing_def)
  then show ?thesis
    using demo_window_controls
    by (simp add: demo_live_def demo_captured_def capture_answer_def Let_def split_beta page_def del: window_fields(16))
qed

lemma window_reach: "window_reachable U w \<Longrightarrow> window_step U w l x \<Longrightarrow> window_reachable U x"
  unfolding window_reachable_def by (rule reachable_step)

lemma window_reach_init: "window_reachable U (init_window U href)"
  unfolding window_reachable_def by (rule reachable_start) blast

lemma demo_window_reachable: "window_reachable query_urls demo_window" and demo_live_reachable: "window_reachable query_urls demo_live"
proof -
  let ?w = "init_window query_urls demo_href"
  have "window_step query_urls ?w (Edited (wi_fields demo_filled), []) (?w\<lparr>wi_fields := wi_fields demo_filled\<rparr>)"
    by (rule window_step.edits) (simp add: edits_def demo_filled_def)
  then have typed: "window_step query_urls ?w (Edited (wi_fields demo_filled), []) demo_filled"
    by (simp add: demo_filled_def on_fields_def)
  have clicked: "window_step query_urls demo_filled (Click ''btn-join-lobby'', snd (run_action query_urls demo_browser LobbyJoin demo_filled)) demo_window"
    unfolding demo_window_def by (rule window_step.clicks [where act = LobbyJoin and b = demo_browser])
      (simp add: click_table_def, simp add: clickable_def view_table_def demo_views, rule surjective_pairing)
  have "(1::int) \<in> set (ct_captures (wi_controls demo_window))" unfolding demo_window_controls by (simp add: demo_previewing_def)
  then have live: "window_step query_urls demo_window (CaptureAnswer 1 [Some [demo_mic], None],
      snd (capture_answer 1 [Some [demo_mic], None] demo_window)) demo_live"
    unfolding demo_live_def by (rule window_step.capture_answers) (rule surjective_pairing)
  show "window_reachable query_urls demo_window"
    by (rule window_reach [OF window_reach [OF window_reach_init typed] clicked])
  then show "window_reachable query_urls demo_live" by (rule window_reach [OF _ live])
qed

theorem window_truthful_witness: "mt_enabled demo_mic = (\<not> bt_pressed (ui_mic (ap_ui (page demo_live))))"
proof -
  have "ct_mic (wi_controls demo_live) = []" "\<not> ct_lostMic (wi_controls demo_live)"
    by (simp_all add: demo_live_controls demo_captured_def demo_previewing_def initial_controls_def)
  moreover have "page demo_live = ct_app demo_captured"
    unfolding page_def demo_live_controls by (rule refl)
  ultimately show ?thesis using window_truthful [OF demo_live_reachable] demo_captured_mic by simp
qed


section \<open>A camera that outlives the preview\<close>

text \<open>C37. A camera chosen in the preview may go on in the lobby. Choosing one asks the browser for it; if the
  user goes back to the lobby before the browser gives it, the track is put into the new local stream
  and not stopped: unlike \<open>acquireTrack\<close>, \<open>setCamera\<close> does not check that its request is still wanted. The
  page shows the lobby, which has no button for the camera, and the camera is on, enabled as the flag
  of the camera button says.\<close>

theorem camera_survives_back:
  assumes "window_step U w (Click ''btn-back-preview'', es) x" and "window_step U x (CameraAnswer (Some t), fs) y"
  shows "ui_view (ap_ui (page y)) = [''lobby''] \<and>
    dv_localStream (ap_devices (page y)) = [t\<lparr>mt_enabled := ap_videoEnabled (page w)\<rparr>] \<and>
    Does (ByDevices (StopTrack (mt_id t))) \<notin> set fs"
proof -
  have x: "page x = fst (back_to_lobby (page w))"
    using assms(1) by (elim clickE) (auto simp: click_table_def at_once_def)
  have lobby: "ui_view (ap_ui (page x)) = [''lobby'']" "dv_localStream (ap_devices (page x)) = []" "ap_videoEnabled (page x) = ap_videoEnabled (page w)"
    unfolding x by (simp_all add: back_to_lobby_def with_ui_def showView_def split_beta)
  from assms(2) have "mt_kind t = ''video''" and y: "page y = fst (camera_selected t (page x))" "fs = map Does (snd (camera_selected t (page x)))"
    by (elim camera_answerE; auto simp: at_once_def)+
  then have d: "setCamera_end t (ap_devices (page x)) = ((ap_devices (page x))\<lparr>dv_localStream := [t]\<rparr>, [])"
    using lobby(2) by (simp add: setCamera_end_def swap_track_def of_kind_def add_media_def)
  show ?thesis
    using lobby \<open>mt_kind t = ''video''\<close> by (simp add: y camera_selected_def d setVideoEnabled_def enable_kind_def)
qed

theorem camera_survives_back_witness:
  "\<exists>w es x t fs y. window_reachable query_urls w \<and> window_step query_urls w (Click ''btn-back-preview'', es) x \<and>
     window_step query_urls x (CameraAnswer (Some t), fs) y \<and> ui_view (ap_ui (page y)) = [''lobby''] \<and> dv_localStream (ap_devices (page y)) \<noteq> []"
proof -
  let ?w = "fst (camera_chosen demo_window)" let ?t = "\<lparr>mt_id = 5, mt_kind = ''video'', mt_enabled = True\<rparr>"
  let ?x = "fst (at_once back_to_lobby ?w)" let ?y = "fst (at_once (camera_selected ?t) (answered ForCamera ?x))"
  have "window_step query_urls demo_window (Chosen ''camera-select'', snd (camera_chosen demo_window)) ?w"
    by (rule window_step.camera_chooses) simp
  then have w: "window_reachable query_urls ?w" by (rule window_reach [OF demo_window_reachable])
  have lobby: "window_step query_urls ?w (Click ''btn-back-preview'', snd (at_once back_to_lobby ?w)) ?x"
    by (rule window_step.clicks [of _ BackToLobby])
      (simp_all add: click_table_def clickable_def view_table_def camera_chosen_def demo_views)
  have "ForCamera \<in> set (wi_pending ?x)"
    by (simp add: at_once_def on_page_def camera_chosen_def waits_def)
  then have given: "window_step query_urls ?x (CameraAnswer (Some ?t), snd (at_once (camera_selected ?t) (answered ForCamera ?x))) ?y"
    by (rule window_step.camera_answers) simp_all
  from camera_survives_back [OF lobby given] w lobby given show ?thesis by (metis list.distinct(1))
qed

end
