(* ===== verification/Http.thy ===== *)
theory Http
  imports ServerConfig
begin

text \<open>
  The HTTP side of \<open>signaling/src/server.js\<close>: the request handler that serves the client's
  files, the health check and the redirect, and the gate of the WebSocket upgrade. The WHATWG
  parser behind \<open>new URL\<close> is the argument \<open>parse_url\<close>, which gives the path and the query or
  nothing where it throws, and the file system is the argument \<open>read\<close>.
\<close>

section \<open>decodeURIComponent\<close>

text \<open>The value of a hex digit, and of \<open>%XY\<close> at the front of a string, with the rest.\<close>

definition hex_value :: "16 word \<Rightarrow> nat option" where
  "hex_value c =
     (if is_digit c then Some (unat (c - 48))
      else if 65 \<le> c \<and> c \<le> 70 then Some (unat (c - 55))
      else if 97 \<le> c \<and> c \<le> 102 then Some (unat (c - 87))
      else None)"

fun percent_byte :: "jstring \<Rightarrow> (nat \<times> jstring) option" where
  "percent_byte (p # a # b # rest) =
     (case (p = 37, hex_value a, hex_value b) of
        (True, Some h, Some l) \<Rightarrow> Some (16 * h + l, rest)
      | _ \<Rightarrow> None)"
| "percent_byte _ = None"

text \<open>\<open>n\<close> continuation bytes \<open>10xxxxxx\<close> after the leading one, collected into a code point.\<close>

fun continuation_bytes :: "nat \<Rightarrow> nat \<Rightarrow> jstring \<Rightarrow> (nat \<times> jstring) option" where
  "continuation_bytes 0 v s = Some (v, s)"
| "continuation_bytes (Suc n) v s =
     (case percent_byte s of
        Some (b, rest) \<Rightarrow> if b div 64 = 2 then continuation_bytes n (64 * v + b mod 64) rest else None
      | None \<Rightarrow> None)"

text \<open>The code units of a code point: one, or a surrogate pair.\<close>

definition utf16 :: "nat \<Rightarrow> jstring" where
  "utf16 v = (if v < 65536 then [word_of_nat v]
     else [word_of_nat (55296 + (v - 65536) div 1024), word_of_nat (56320 + (v - 65536) mod 1024)])"

text \<open>The number of continuation bytes and the bits of a leading byte, and the least code point
  that needs so many.\<close>

definition leading_byte :: "nat \<Rightarrow> (nat \<times> nat \<times> nat) option" where
  "leading_byte b =
     (if b < 128 then Some (0, b, 0)
      else if b div 32 = 6 then Some (1, b mod 32, 128)
      else if b div 16 = 14 then Some (2, b mod 16, 2048)
      else if b div 8 = 30 then Some (3, b mod 8, 65536)
      else None)"

text \<open>One escaped character: its code units and the rest, unless the escapes are no valid UTF-8.\<close>

definition escaped_char :: "jstring \<Rightarrow> (jstring \<times> jstring) option" where
  "escaped_char s =
     (case percent_byte s of
        None \<Rightarrow> None
      | Some (b, rest) \<Rightarrow>
          (case leading_byte b of
             None \<Rightarrow> None
           | Some (n, v, least) \<Rightarrow>
               (case continuation_bytes n v rest of
                  None \<Rightarrow> None
                | Some (u, rest') \<Rightarrow>
                    if u < least \<or> 55296 \<le> u \<and> u < 57344 \<or> 1114111 < u then None
                    else Some (utf16 u, rest'))))"

lemma percent_byte_shorter: "percent_byte s = Some (b, rest) \<Longrightarrow> length rest < length s"
  by (cases s rule: percent_byte.cases) (auto split: option.splits bool.splits)

lemma continuation_bytes_shorter: "continuation_bytes n v s = Some (u, rest) \<Longrightarrow> length rest \<le> length s"
  by (induction n v s rule: continuation_bytes.induct)
    (force split: option.splits if_splits prod.splits dest!: percent_byte_shorter)+

lemma escaped_char_shorter: "escaped_char s = Some (us, rest) \<Longrightarrow> length rest < length s"
  by (auto simp: escaped_char_def split: option.splits prod.splits if_splits
      dest!: percent_byte_shorter continuation_bytes_shorter)

text \<open>\<open>None\<close> is a \<open>URIError\<close>.\<close>

function decodeURIComponent :: "jstring \<Rightarrow> jstring option" where
  "decodeURIComponent [] = Some []"
| "decodeURIComponent (c # cs) =
     (if c \<noteq> 37 then map_option (\<lambda>r. c # r) (decodeURIComponent cs)
      else case escaped_char (c # cs) of
        None \<Rightarrow> None
      | Some (us, rest) \<Rightarrow> map_option (\<lambda>r. us @ r) (decodeURIComponent rest))"
  by pat_completeness auto
termination by (relation "measure length") (auto dest: escaped_char_shorter)

section \<open>Paths\<close>

text \<open>\<open>path.resolve(dir, relative)\<close> for an absolute normal root: segment after segment, from the
  dir or, for an absolute path, from \<open>/\<close>.\<close>

fun step_into :: "jstring list \<Rightarrow> jstring \<Rightarrow> jstring list" where
  "step_into segs s =
     (if s = [] \<or> s = js ''.'' then segs else if s = js ''..'' then butlast segs else segs @ [s])"

definition join_path :: "jstring list \<Rightarrow> jstring" where
  "join_path segs = (if segs = [] then [47] else concat (map (\<lambda>s. 47 # s) segs))"

definition resolve :: "jstring list \<Rightarrow> jstring \<Rightarrow> jstring list" where
  "resolve dir relative =
     foldl step_into (if starts_with relative [47] then [] else dir) (split_on 47 relative)"

text \<open>\<open>extname\<close> of the last segment: from its last dot on, unless that is its first character.\<close>

definition extname :: "jstring list \<Rightarrow> jstring" where
  "extname segs =
     (if segs = [] then []
      else let name = last segs; after = takeWhile (\<lambda>c. c \<noteq> 46) (rev name); n = length name - length after
        in if n = 0 \<or> n = 1 then [] else drop (n - 1) name)"

definition mime :: "jstring \<Rightarrow> string option" where
  "mime e = map_of [
     (js ''.html'', ''text/html; charset=utf-8''), (js ''.js'', ''text/javascript; charset=utf-8''),
     (js ''.css'', ''text/css; charset=utf-8''), (js ''.svg'', ''image/svg+xml''), (js ''.png'', ''image/png''),
     (js ''.ico'', ''image/x-icon'')] e"

section \<open>The request handler\<close>

datatype 'b body = NoBody | Health | File 'b

text \<open>What the handler answers, and in \<open>rs_reads\<close> the paths it has given to \<open>readFile\<close> on the way, in
  order: a HEAD request reads the file too, though none of it is sent.\<close>

record 'b response =
  rs_status :: nat
  rs_type :: "string option"
  rs_location :: "jstring option"
  rs_allow :: bool
  rs_body :: "'b body"
  rs_reads :: "jstring list"

definition plain :: "nat \<Rightarrow> 'b response" where
  "plain status = \<lparr>rs_status = status, rs_type = None, rs_location = None, rs_allow = False, rs_body = NoBody,
     rs_reads = []\<rparr>"

definition with_body :: "jstring \<Rightarrow> string \<Rightarrow> 'b body \<Rightarrow> 'b response" where
  "with_body meth ty b = \<lparr>rs_status = 200, rs_type = Some ty, rs_location = None, rs_allow = False,
     rs_body = (if meth = js ''HEAD'' then NoBody else b), rs_reads = []\<rparr>"

text \<open>The part of the handler after the method and the prefix: the health check or a file under the
  client's root, which is \<open>dir\<close>.\<close>

definition serve_file :: "jstring list \<Rightarrow> (jstring \<Rightarrow> 'b option) \<Rightarrow> jstring \<Rightarrow> jstring \<Rightarrow> 'b response" where
  "serve_file dir read meth relative =
     (if relative = js ''health'' then with_body meth ''application/json'' Health
      else
        let path = resolve dir (if relative = [] then js ''index.html'' else relative) in
        if \<not> starts_with (join_path path) (join_path dir @ [47]) then plain 404
        else case mime (extname path) of
          None \<Rightarrow> plain 404
        | Some ty \<Rightarrow>
            (case read (join_path path) of
               None \<Rightarrow> plain 404
             | Some contents \<Rightarrow> with_body meth ty (File contents))\<lparr>rs_reads := [join_path path]\<rparr>)"

definition handle_http :: "config \<Rightarrow> jstring list \<Rightarrow> (jstring \<Rightarrow> (jstring \<times> jstring) option) \<Rightarrow>
    (jstring \<Rightarrow> 'b option) \<Rightarrow> jstring \<Rightarrow> jstring \<Rightarrow> 'b response" where
  "handle_http cfg dir parse_url read meth url =
     (case parse_url url of
        None \<Rightarrow> plain 404
      | Some (path, query) \<Rightarrow>
          (case decodeURIComponent path of
             None \<Rightarrow> plain 400
           | Some pathname \<Rightarrow>
               if meth \<notin> set [js ''GET'', js ''HEAD''] then (plain 405)\<lparr>rs_allow := True\<rparr>
               else if cfg_basePath cfg \<noteq> [47] \<and> pathname = butlast (cfg_basePath cfg)
                 then (plain 308)\<lparr>rs_location := Some (cfg_basePath cfg @ query)\<rparr>
               else if \<not> starts_with pathname (cfg_basePath cfg) then plain 404
               else serve_file dir read meth (drop (length (cfg_basePath cfg)) pathname)))"

section \<open>The upgrade gate\<close>

text \<open>The upgrade is refused with 403 unless this holds; the origin header may be missing.\<close>

definition upgrade_ok :: "config \<Rightarrow> jstring \<Rightarrow> jstring option \<Rightarrow> bool" where
  "upgrade_ok cfg url origin \<longleftrightarrow> \<not> (url \<noteq> cfg_basePath cfg @ js ''ws'' \<or>
     (cfg_allowedOrigins cfg \<noteq> [] \<and> origin \<notin> Some ` set (cfg_allowedOrigins cfg)))"

section \<open>Properties\<close>

text \<open>A segment that names a file or directory and is not a way up.\<close>

definition clean_segment :: "jstring \<Rightarrow> bool" where
  "clean_segment s \<longleftrightarrow> s \<noteq> [] \<and> s \<noteq> js ''.'' \<and> s \<noteq> js ''..'' \<and> 47 \<notin> set s"

lemma clean_step: "list_all clean_segment segs \<Longrightarrow> 47 \<notin> set s \<Longrightarrow> list_all clean_segment (step_into segs s)"
  by (auto simp: clean_segment_def list_all_iff dest: in_set_butlastD)

lemma clean_steps:
  "list_all clean_segment segs \<Longrightarrow> \<forall>s \<in> set ss. 47 \<notin> set s \<Longrightarrow> list_all clean_segment (foldl step_into segs ss)"
  by (induction ss arbitrary: segs) (auto simp del: step_into.simps intro: clean_step)

lemma clean_resolve: "list_all clean_segment dir \<Longrightarrow> list_all clean_segment (resolve dir rel)"
  unfolding resolve_def by (intro clean_steps) (auto dest: split_on_no_sep)

lemma join_path_prefix:
  "list_all clean_segment dir \<Longrightarrow> list_all clean_segment segs \<Longrightarrow>
   concat (map (\<lambda>s. 47 # s) segs) = concat (map (\<lambda>s. 47 # s) dir) @ 47 # rest \<Longrightarrow> \<exists>below. segs = dir @ below \<and> below \<noteq> []"
proof (induction dir arbitrary: segs)
  case Nil
  then show ?case by (cases segs) auto
next
  case (Cons r dir)
  then obtain s segs' where segs: "segs = s # segs'" by (cases segs) auto
  let ?a = "concat (map (\<lambda>s. 47 # s) segs')" and ?b = "concat (map (\<lambda>s. 47 # s) dir) @ 47 # rest"
  have eq: "s @ ?a = r @ ?b" using Cons.prems(3) by (simp add: segs)
  have no: "47 \<notin> set s" "47 \<notin> set r" using Cons.prems(1,2) by (simp_all add: segs clean_segment_def)
  have start: "takeWhile (\<lambda>c. c \<noteq> 47) (x @ y) = x" if "47 \<notin> set x" "y = [] \<or> hd y = 47" for x y :: jstring
    using that by (cases y) (auto simp: takeWhile_append2 takeWhile_tail)
  have "?a = [] \<or> hd ?a = 47" by (cases segs') auto
  moreover have "?b = [] \<or> hd ?b = 47" by (cases dir) auto
  ultimately have "s = r" using start [OF no(1)] start [OF no(2)] eq by metis
  with eq Cons.IH [of segs'] Cons.prems(1,2) show ?case by (auto simp: segs)
qed

lemma starts_with_split: "starts_with s p \<Longrightarrow> s = p @ drop (length p) s"
  unfolding starts_with_def by (metis append_take_drop_id)

lemma resolved_below:
  assumes "list_all clean_segment dir" and "dir \<noteq> []" and "starts_with (join_path (resolve dir rel)) (join_path dir @ [47])"
  obtains below where "resolve dir rel = dir @ below" and "below \<noteq> []" and "list_all clean_segment below"
proof -
  let ?p = "resolve dir rel"
  have clean: "list_all clean_segment ?p" by (rule clean_resolve [OF assms(1)])
  have "?p \<noteq> []"
  proof
    assume "?p = []"
    with assms(2,3) show False by (cases dir) (auto simp: starts_with_def join_path_def)
  qed
  then have jp: "join_path ?p = concat (map (\<lambda>s. 47 # s) ?p)" by (simp add: join_path_def)
  have jd: "join_path dir = concat (map (\<lambda>s. 47 # s) dir)" using assms(2) by (simp add: join_path_def)
  obtain rest where "join_path ?p = (join_path dir @ [47]) @ rest" using starts_with_split [OF assms(3)] by metis
  then have "concat (map (\<lambda>s. 47 # s) ?p) = concat (map (\<lambda>s. 47 # s) dir) @ 47 # rest"
    by (simp only: jp jd append.assoc append.simps)
  then obtain below where "?p = dir @ below" "below \<noteq> []" using join_path_prefix [OF assms(1) clean] by blast
  moreover from this clean have "list_all clean_segment below" by simp
  ultimately show thesis using that by blast
qed

text \<open>The answers that look at no file: none of it is read, and no body is made of one.\<close>

definition no_file :: "'b response \<Rightarrow> bool" where
  "no_file R \<longleftrightarrow> rs_reads R = [] \<and> rs_body R \<in> {NoBody, Health}"

lemma no_file_simps [simp]: "no_file (plain n)" "no_file ((plain n)\<lparr>rs_allow := b\<rparr>)" "no_file ((plain n)\<lparr>rs_location := l\<rparr>)"
  "no_file (with_body meth ty Health)"
  by (simp_all add: no_file_def plain_def with_body_def)

text \<open>The one file an answer has read, and what it says of it.\<close>

definition file_answer :: "jstring list \<Rightarrow> (jstring \<Rightarrow> 'b option) \<Rightarrow> jstring \<Rightarrow> 'b response \<Rightarrow> bool" where
  "file_answer path read meth R \<longleftrightarrow> rs_reads R = [join_path path] \<and>
     (case read (join_path path) of
        None \<Rightarrow> rs_status R = 404 \<and> rs_body R = NoBody
      | Some contents \<Rightarrow> rs_status R = 200 \<and> rs_type R = mime (extname path) \<and>
          rs_body R = (if meth = js ''HEAD'' then NoBody else File contents))"

lemma serve_file_cases:
  "no_file (serve_file dir read meth rel) \<or>
   (\<exists>rel'. let path = resolve dir rel' in starts_with (join_path path) (join_path dir @ [47]) \<and>
      mime (extname path) \<noteq> None \<and> file_answer path read meth (serve_file dir read meth rel))"
proof -
  define rel' where "rel' = (if rel = [] then js ''index.html'' else rel)"
  let ?p = "resolve dir rel'"
  have sf: "serve_file dir read meth rel =
     (if rel = js ''health'' then with_body meth ''application/json'' Health
      else if \<not> starts_with (join_path ?p) (join_path dir @ [47]) then plain 404
      else case mime (extname ?p) of
        None \<Rightarrow> plain 404
      | Some ty \<Rightarrow>
          (case read (join_path ?p) of
             None \<Rightarrow> plain 404
           | Some contents \<Rightarrow> with_body meth ty (File contents))\<lparr>rs_reads := [join_path ?p]\<rparr>)"
    by (simp only: serve_file_def Let_def rel'_def)
  show ?thesis
  proof (cases "rel \<noteq> js ''health'' \<and> starts_with (join_path ?p) (join_path dir @ [47]) \<and> mime (extname ?p) \<noteq> None")
    case True
    then have "file_answer ?p read meth (serve_file dir read meth rel)"
      by (auto simp: sf file_answer_def plain_def with_body_def split: option.split)
    with True show ?thesis unfolding Let_def by blast
  next
    case False
    then have "no_file (serve_file dir read meth rel)" by (auto simp: sf)
    then show ?thesis by simp
  qed
qed

lemma handle_http_cases:
  "no_file (handle_http cfg dir parse_url read meth url) \<or>
   meth \<in> {js ''GET'', js ''HEAD''} \<and> (\<exists>rel. handle_http cfg dir parse_url read meth url = serve_file dir read meth rel)"
  by (auto simp: handle_http_def split: option.split)

text \<open>C18. No request reaches outside the client's root: whatever the method, the URL and its escapes, a
  request reads at most one file, and that lies below the root, with no \<open>..\<close> on the way, and has one of
  the known extensions. Only a GET is sent what was read, a HEAD is told its type alone, and a file
  that cannot be read is a 404.\<close>

theorem served_file_below_root:
  fixes R :: "'b response"
  assumes "list_all clean_segment dir" and "dir \<noteq> []" and "R = handle_http cfg dir parse_url read meth url"
  shows "rs_reads R = [] \<and> rs_body R \<in> {NoBody, Health} \<or>
    (\<exists>below. below \<noteq> [] \<and> list_all clean_segment below \<and> mime (extname (dir @ below)) \<noteq> None \<and>
       rs_reads R = [join_path (dir @ below)] \<and> meth \<in> {js ''GET'', js ''HEAD''} \<and>
       (case read (join_path (dir @ below)) of
          None \<Rightarrow> rs_status R = 404 \<and> rs_body R = NoBody
        | Some contents \<Rightarrow> rs_status R = 200 \<and> rs_type R = mime (extname (dir @ below)) \<and>
            rs_body R = (if meth = js ''GET'' then File contents else NoBody)))"
proof (cases "no_file R")
  case True
  then show ?thesis by (simp add: no_file_def)
next
  case False
  with handle_http_cases [of cfg dir parse_url read meth url] assms(3)
  obtain rel where meth: "meth \<in> {js ''GET'', js ''HEAD''}" and R: "R = serve_file dir read meth rel" by auto
  from serve_file_cases [of dir read meth rel] False R
  obtain rel' where f: "starts_with (join_path (resolve dir rel')) (join_path dir @ [47])"
    "mime (extname (resolve dir rel')) \<noteq> None" "file_answer (resolve dir rel') read meth R" by (auto simp: Let_def)
  obtain below where b: "resolve dir rel' = dir @ below" "below \<noteq> []" "list_all clean_segment below"
    by (rule resolved_below [OF assms(1,2) f(1)])
  from meth have "meth = js ''HEAD'' \<longleftrightarrow> meth \<noteq> js ''GET''" by (auto simp: js_def)
  then have body: "(if meth = js ''HEAD'' then NoBody else x) = (if meth = js ''GET'' then x else NoBody)" for x :: "'b body"
    by simp
  from f(2,3) b meth show ?thesis
    unfolding file_answer_def body b(1) by (intro disjI2 exI [of _ below] conjI) (simp_all only: not_False_eq_True)
qed

lemma split_on_seg: "c \<notin> set s \<Longrightarrow> split_on c (s @ c # t) = s # split_on c t"
  by (induction s) auto

lemma split_on_single: "c \<notin> set s \<Longrightarrow> split_on c s = [s]"
  by (induction s) auto

text \<open>The relative URL of a file: its segments with slashes between.\<close>

definition relative_url :: "jstring list \<Rightarrow> jstring" where
  "relative_url segs = tl (concat (map (\<lambda>s. 47 # s) segs))"

lemma split_relative_url: "list_all clean_segment segs \<Longrightarrow> segs \<noteq> [] \<Longrightarrow> split_on 47 (relative_url segs) = segs"
proof (induction segs)
  case (Cons s segs)
  then have no: "47 \<notin> set s" by (simp add: clean_segment_def)
  show ?case
  proof (cases segs)
    case Nil
    with no show ?thesis by (simp add: relative_url_def split_on_single)
  next
    case (Cons s' segs')
    then have "relative_url (s # segs) = s @ 47 # relative_url segs" by (simp add: relative_url_def)
    with no Cons Cons.prems Cons.IH show ?thesis by (simp add: split_on_seg)
  qed
qed simp

lemma clean_steps_append: "list_all clean_segment ss \<Longrightarrow> foldl step_into segs ss = segs @ ss"
  by (induction ss arbitrary: segs) (auto simp: clean_segment_def)

lemma resolve_relative: "list_all clean_segment segs \<Longrightarrow> segs \<noteq> [] \<Longrightarrow> resolve dir (relative_url segs) = dir @ segs"
proof -
  assume clean: "list_all clean_segment segs" and some: "segs \<noteq> []"
  then have "\<not> starts_with (relative_url segs) [47]"
    by (cases segs; cases "hd segs") (auto simp: relative_url_def starts_with_def clean_segment_def)
  with clean some show ?thesis by (simp add: resolve_def split_relative_url clean_steps_append)
qed

lemma starts_with_append [simp]: "starts_with (p @ s) p"
  by (simp add: starts_with_def)

lemma join_path_below: "dir \<noteq> [] \<Longrightarrow> segs \<noteq> [] \<Longrightarrow> starts_with (join_path (dir @ segs)) (join_path dir @ [47])"
proof -
  assume "dir \<noteq> []" "segs \<noteq> []"
  then have "join_path (dir @ segs) = (join_path dir @ [47]) @ relative_url segs"
    by (cases segs) (simp_all add: join_path_def relative_url_def)
  then show ?thesis by (simp only: starts_with_append)
qed

text \<open>Every client file can be had: for a file below the root, of a known extension, that can be read,
  a GET of its path under the base path, however escaped, answers 200 with its contents and type, and
  the base path alone answers \<open>index.html\<close>; a HEAD answers the same without a body.\<close>

theorem client_file_served:
  assumes "list_all clean_segment segs" and "segs \<noteq> []" and "dir \<noteq> []" and "parse_url url = Some (path, query)"
    and "decodeURIComponent path = Some (cfg_basePath cfg @ relative_url segs) \<or>
      segs = [js ''index.html''] \<and> decodeURIComponent path = Some (cfg_basePath cfg)"
    and "mime (extname (dir @ segs)) = Some ty" and "read (join_path (dir @ segs)) = Some contents"
    and "meth = js ''GET'' \<or> meth = js ''HEAD''" and "cfg_basePath cfg \<noteq> []"
  shows "handle_http cfg dir parse_url read meth url =
    \<lparr>rs_status = 200, rs_type = Some ty, rs_location = None, rs_allow = False,
     rs_body = (if meth = js ''GET'' then File contents else NoBody), rs_reads = [join_path (dir @ segs)]\<rparr>"
proof -
  obtain rel where rel: "decodeURIComponent path = Some (cfg_basePath cfg @ rel)"
    and path: "resolve dir (if rel = [] then js ''index.html'' else rel) = dir @ segs"
    and ne: "rel = relative_url segs \<or> rel = []"
  proof (cases "decodeURIComponent path = Some (cfg_basePath cfg @ relative_url segs)")
    case True
    have "relative_url segs \<noteq> []" using assms(1,2) by (cases segs) (auto simp: relative_url_def clean_segment_def)
    with True that [of "relative_url segs"] resolve_relative [OF assms(1,2)] show ?thesis by simp
  next
    case False
    with assms(5) have seg: "segs = [js ''index.html'']" "decodeURIComponent path = Some (cfg_basePath cfg)" by auto
    then have "relative_url segs = js ''index.html''" by (simp add: relative_url_def)
    with seg that [of "[]"] resolve_relative [OF assms(1,2), of dir] show ?thesis by simp
  qed
  have no_ext: "mime (extname (dir @ [js ''health''])) = None"
    by (simp add: extname_def js_def mime_def)
  have "relative_url segs \<noteq> js ''health''"
  proof
    assume "relative_url segs = js ''health''"
    with split_relative_url [OF assms(1,2)] have "segs = split_on 47 (js ''health'')" by simp
    then have "segs = [js ''health'']" by (simp add: js_def)
    with no_ext assms(6) show False by simp
  qed
  then have "rel \<noteq> js ''health''" using ne by auto
  moreover have "cfg_basePath cfg @ rel \<noteq> butlast (cfg_basePath cfg)"
  proof
    assume "cfg_basePath cfg @ rel = butlast (cfg_basePath cfg)"
    then have "length (cfg_basePath cfg) + length rel = length (cfg_basePath cfg) - 1"
      by (metis length_append length_butlast)
    with assms(9) show False by (cases "cfg_basePath cfg") auto
  qed
  ultimately show ?thesis
    using rel path assms(4,6,7,8) join_path_below [OF assms(3,2)]
    by (auto simp: handle_http_def serve_file_def with_body_def Let_def)
qed

section \<open>A site to run\<close>

definition demo_site :: config where
  "demo_site = \<lparr>cfg_host = js ''127.0.0.1'', cfg_port = 3081, cfg_basePath = js ''/m/'',
     cfg_maxMessageBytes = 65536, cfg_maxParticipants = 6, cfg_rateLimitTokens = 120,
     cfg_rateLimitInterval = 1000, cfg_rtcConfig = Obj [], cfg_allowedOrigins = []\<rparr>"

definition demo_read :: "jstring \<Rightarrow> nat option" where
  "demo_read p = (if p = js ''/c/a.js'' then Some 7 else None)"

text \<open>The escaped path \<open>/m/%61.js\<close>.\<close>

lemma demo_decode: "decodeURIComponent (js ''/m/%61.js'') = Some (js ''/m/'' @ js ''a.js'')"
  by (simp add: js_def escaped_char_def hex_value_def is_digit_def leading_byte_def utf16_def)

lemma demo_paths: "join_path [js ''c'', js ''a.js''] = js ''/c/a.js''" "relative_url [js ''a.js''] = js ''a.js''"
  "mime (extname [js ''c'', js ''a.js'']) = Some ''text/javascript; charset=utf-8''"
  "clean_segment (js ''c'')" "clean_segment (js ''a.js'')"
  by (simp_all add: join_path_def relative_url_def extname_def mime_def clean_segment_def js_def)

theorem client_file_served_witness:
  "rs_body (handle_http demo_site [js ''c''] (\<lambda>u. Some (u, [])) demo_read (js ''GET'') (js ''/m/%61.js'')) = File 7"
  using client_file_served [of "[js ''a.js'']" "[js ''c'']" "\<lambda>u. Some (u, [])" "js ''/m/%61.js''" _ _ demo_site _ demo_read 7 "js ''GET''"]
  by (simp add: demo_paths demo_decode demo_read_def) (simp add: demo_site_def demo_decode demo_paths)

lemma demo_served:
  "rs_body (handle_http demo_site [js ''c''] (\<lambda>u. Some (u, [])) demo_read (js ''GET'') (js ''/m/%61.js'')) = File 7"
proof -
  have "resolve [js ''c''] (js ''a.js'') = [js ''c'', js ''a.js'']"
    using resolve_relative [of "[js ''a.js'']" "[js ''c'']"] demo_paths by simp
  moreover have "starts_with (js ''/c/a.js'') (join_path [js ''c''] @ [47])"
    using join_path_below [of "[js ''c'']" "[js ''a.js'']"] demo_paths by simp
  moreover have "js ''/m/'' @ js ''a.js'' \<noteq> butlast (js ''/m/'')" by (simp add: js_def)
  ultimately show ?thesis
    using demo_paths by (simp add: handle_http_def demo_decode demo_site_def serve_file_def with_body_def demo_read_def)
qed

lemma demo_root: "list_all clean_segment [js ''c'']" "[js ''c''] \<noteq> []"
  by (simp_all add: demo_paths)

theorem served_file_below_root_witness:
  "rs_reads (handle_http demo_site [js ''c''] (\<lambda>u. Some (u, [])) demo_read (js ''GET'') (js ''/m/%61.js'')) \<noteq> []"
  using served_file_below_root [OF demo_root refl, of demo_site "\<lambda>u. Some (u, [])" demo_read "js ''GET''" "js ''/m/%61.js''"]
    demo_served by auto

end
