(* ===== verification/ConfigProperties.thy ===== *)
theory ConfigProperties
  imports ServerConfig
begin

text \<open>
  The properties of \<open>loadConfig\<close>: what a configuration it returns satisfies, that printing
  numbers into the environment and loading them gives them back, and which error an environment
  gets.
\<close>

lemma set_trim: "set (trim s) \<subseteq> set s"
  unfolding trim_def by (auto dest!: set_dropWhileD)

definition origin_ok :: "jstring \<Rightarrow> bool" where
  "origin_ok x \<longleftrightarrow> x \<noteq> [] \<and> trim x = x \<and> 44 \<notin> set x"

lemma origins_ok: "list_all origin_ok (filter (\<lambda>s. s \<noteq> []) (map trim (split_on 44 raw)))"
  using set_trim split_on_no_sep by (fastforce simp: list_all_iff origin_ok_def)

text \<open>The guards of \<open>loadConfig\<close>, once, for the proofs below.\<close>

definition ice_servers :: "(jstring \<Rightarrow> jsval option) \<Rightarrow> env \<Rightarrow> jsval option" where
  "ice_servers parse env = parse (env_or env ''ICE_SERVERS'' (js ''[{\"urls\":\"stun:stun.l.google.com:19302\"}]''))"

definition policy_of :: "env \<Rightarrow> jstring" where
  "policy_of env = env_or env ''ICE_TRANSPORT_POLICY'' (js ''all'')"

text \<open>The checks a configuration has passed, and what it is made of.\<close>

lemma loadConfig_parts:
  assumes "loadConfig parse env = Inr cfg"
  obtains servers port bytes people tokens where
    "base_path_ok (env_or env ''BASE_PATH'' (js ''/''))" "ice_servers parse env = Some (Arr servers)" "list_all ice_server_ok servers"
    "policy_of env = js ''all'' \<or> policy_of env = js ''relay''" "policy_of env = js ''relay'' \<longrightarrow> has_turn servers"
    "integer_var env ''PORT'' 3081 65535 = Inr port" "integer_var env ''MAX_MESSAGE_BYTES'' 65536 1048576 = Inr bytes"
    "integer_var env ''MAX_PARTICIPANTS'' 6 20 = Inr people" "integer_var env ''RATE_LIMIT_MESSAGES'' 120 10000 = Inr tokens"
    "cfg = \<lparr>cfg_host = env_or env ''HOST'' (js ''127.0.0.1''), cfg_port = port, cfg_basePath = env_or env ''BASE_PATH'' (js ''/''),
       cfg_maxMessageBytes = bytes, cfg_maxParticipants = people, cfg_rateLimitTokens = tokens, cfg_rateLimitInterval = 1000,
       cfg_rtcConfig = Obj [(js ''iceServers'', Arr servers), (js ''iceTransportPolicy'', Str (policy_of env))],
       cfg_allowedOrigins = filter (\<lambda>s. s \<noteq> []) (map trim (split_on 44 (env_or env ''ALLOWED_ORIGINS'' [])))\<rparr>"
proof -
  have shape: "(case v of Arr servers \<Rightarrow> if list_all ice_server_ok servers then Inr servers else Inl e | _ \<Rightarrow> Inl e) = Inr xs \<longleftrightarrow>
      v = Arr xs \<and> list_all ice_server_ok xs" for v xs and e :: jstring
    by (cases v) auto
  have found: "(case ice_servers parse env of None \<Rightarrow> Inl e | Some v \<Rightarrow> Inr v) = Inr v \<longleftrightarrow> ice_servers parse env = Some v" for v and e :: jstring
    by (cases "ice_servers parse env") auto
  from assms show thesis
    unfolding loadConfig_def Let_def and_then_Inr throw_if_Inr shape found [unfolded ice_servers_def]
    by (elim exE conjE) (rule that; simp add: ice_servers_def policy_of_def; blast?)
qed

lemmas integer_var_bounds = integer_var_Inr [THEN iffD1, THEN conjunct1] integer_var_Inr [THEN iffD1, THEN conjunct2, THEN conjunct1]

text \<open>C20. A configuration that loads is a valid one: the port and the limits are within their bounds, the
  base path is a sequence of segments of letters, digits, \<open>_\<close> and \<open>-\<close> between slashes, every ICE
  server has well-formed STUN or TURN urls, the relay policy comes with a TURN server, and the allowed
  origins are trimmed and not empty.\<close>

theorem loaded_config_valid:
  assumes "loadConfig parse env = Inr cfg"
  shows "1 \<le> cfg_port cfg \<and> cfg_port cfg \<le> 65535 \<and> 1 \<le> cfg_maxMessageBytes cfg \<and> cfg_maxMessageBytes cfg \<le> 1048576 \<and>
    1 \<le> cfg_maxParticipants cfg \<and> cfg_maxParticipants cfg \<le> 20 \<and> 1 \<le> cfg_rateLimitTokens cfg \<and>
    cfg_rateLimitTokens cfg \<le> 10000 \<and> cfg_rateLimitInterval cfg = 1000 \<and> base_path_lang (cfg_basePath cfg) \<and>
    (\<exists>servers policy. cfg_rtcConfig cfg = Obj [(js ''iceServers'', Arr servers), (js ''iceTransportPolicy'', Str policy)] \<and>
      ice_servers parse env = Some (Arr servers) \<and> list_all ice_server_ok servers \<and>
      (policy = js ''all'' \<or> policy = js ''relay'' \<and> has_turn servers)) \<and>
    list_all origin_ok (cfg_allowedOrigins cfg)"
  using assms
proof (rule loadConfig_parts)
  fix servers port bytes people tokens
  assume guards: "base_path_ok (env_or env ''BASE_PATH'' (js ''/''))" "ice_servers parse env = Some (Arr servers)" "list_all ice_server_ok servers"
    "policy_of env = js ''all'' \<or> policy_of env = js ''relay''" "policy_of env = js ''relay'' \<longrightarrow> has_turn servers"
    and numbers: "integer_var env ''PORT'' 3081 65535 = Inr port" "integer_var env ''MAX_MESSAGE_BYTES'' 65536 1048576 = Inr bytes"
      "integer_var env ''MAX_PARTICIPANTS'' 6 20 = Inr people" "integer_var env ''RATE_LIMIT_MESSAGES'' 120 10000 = Inr tokens"
    and cfg: "cfg = \<lparr>cfg_host = env_or env ''HOST'' (js ''127.0.0.1''), cfg_port = port, cfg_basePath = env_or env ''BASE_PATH'' (js ''/''),
       cfg_maxMessageBytes = bytes, cfg_maxParticipants = people, cfg_rateLimitTokens = tokens, cfg_rateLimitInterval = 1000,
       cfg_rtcConfig = Obj [(js ''iceServers'', Arr servers), (js ''iceTransportPolicy'', Str (policy_of env))],
       cfg_allowedOrigins = filter (\<lambda>s. s \<noteq> []) (map trim (split_on 44 (env_or env ''ALLOWED_ORIGINS'' [])))\<rparr>"
  from guards numbers [THEN integer_var_bounds(1)] numbers [THEN integer_var_bounds(2)] origins_ok show ?thesis
    by (simp add: cfg base_path_ok_lang) blast
qed

text \<open>A parser that knows one list of servers, for the witnesses.\<close>

definition demo_parse :: "jstring \<Rightarrow> jsval option" where
  "demo_parse s = Some (Arr [Obj [(js ''urls'', Str (js ''stun:h''))]])"

lemma demo_server_ok: "ice_server_ok (Obj [(js ''urls'', Str (js ''stun:h''))])"
  by (simp add: ice_server_ok_def get_prop.simps ice_url_ok_def) (simp add: js_def starts_with_def is_space_def)

lemma demo_base: "base_path_ok (js ''/'')"
  by (simp add: base_path_ok_def js_def)

text \<open>Numbers written into the environment come back: a port and limits in their ranges, printed in
  decimal, load as those very numbers, next to the defaults of everything that is not set; without
  any of them the defaults 3081, 65536, 6 and 120 load.\<close>

theorem config_numbers_roundtrip:
  assumes "1 \<le> p \<and> p \<le> 65535" and "1 \<le> m \<and> m \<le> 1048576" and "1 \<le> k \<and> k \<le> 20" and "1 \<le> l \<and> l \<le> 10000"
    and "\<And>s. parse s = Some (Arr servers)" and "list_all ice_server_ok servers"
  shows "map_sum id (\<lambda>c. (cfg_port c, cfg_maxMessageBytes c, cfg_maxParticipants c, cfg_rateLimitTokens c))
      (loadConfig parse [js ''PORT'' \<mapsto> decimal p, js ''MAX_MESSAGE_BYTES'' \<mapsto> decimal m,
        js ''MAX_PARTICIPANTS'' \<mapsto> decimal k, js ''RATE_LIMIT_MESSAGES'' \<mapsto> decimal l]) = Inr (p, m, k, l) \<and>
    map_sum id (\<lambda>c. (cfg_port c, cfg_maxMessageBytes c, cfg_maxParticipants c, cfg_rateLimitTokens c))
      (loadConfig parse Map.empty) = Inr (3081, 65536, 6, 120)"
proof -
  have read: "integer_var env name fallback mx = Inr n"
    if "1 \<le> n" "n \<le> mx" "env (js name) = Some (decimal n)" for env name fallback mx n
    using that by (simp add: integer_var_Inr all_digits_decimal digits_value_decimal)
  have default: "integer_var Map.empty name fallback mx = Inr fallback" if "1 \<le> fallback" "fallback \<le> mx" for name fallback mx
    using that by (simp add: integer_var_Inr)
  show ?thesis
    using assms by (auto simp: loadConfig_def env_or_def demo_base throw_if_def read default)
qed

theorem config_numbers_roundtrip_witness:
  "map_sum id (\<lambda>c. (cfg_port c, cfg_maxMessageBytes c, cfg_maxParticipants c, cfg_rateLimitTokens c))
     (loadConfig demo_parse Map.empty) = Inr (3081, 65536, 6, 120)"
  using config_numbers_roundtrip [of 1 1 1 1 demo_parse] demo_server_ok by (auto simp: demo_parse_def)

theorem loaded_config_valid_witness:
  "\<exists>cfg. loadConfig demo_parse Map.empty = Inr cfg \<and> cfg_port cfg \<le> 65535 \<and> base_path_lang (cfg_basePath cfg)"
proof -
  have "\<exists>cfg. loadConfig demo_parse Map.empty = Inr cfg"
    by (simp add: loadConfig_def env_or_def demo_base throw_if_def integer_var_Inr demo_parse_def demo_server_ok)
  then show ?thesis using loaded_config_valid by blast
qed

text \<open>What is wrong is said: the first check that fails, in the order of the code, gives its message:
  the base path, the JSON of the ICE servers, their urls, the policy, the TURN server of the relay
  policy, and then each number with its name and bound.\<close>

theorem config_errors:
  "(\<not> base_path_lang (env_or env ''BASE_PATH'' (js ''/'')) \<longrightarrow>
      loadConfig parse env = Inl (js ''BASE_PATH must start and end with /, for example /maia-meet/'')) \<and>
   (base_path_lang (env_or env ''BASE_PATH'' (js ''/'')) \<longrightarrow>
      (ice_servers parse env = None \<longrightarrow> loadConfig parse env = Inl (js ''ICE_SERVERS must be a JSON array'')) \<and>
      (\<forall>v. ice_servers parse env = Some v \<and> \<not> (\<exists>servers. v = Arr servers \<and> list_all ice_server_ok servers) \<longrightarrow>
         loadConfig parse env = Inl (js ''ICE_SERVERS must contain valid STUN/TURN urls'')) \<and>
      (\<forall>servers. ice_servers parse env = Some (Arr servers) \<and> list_all ice_server_ok servers \<longrightarrow>
         (policy_of env \<noteq> js ''all'' \<and> policy_of env \<noteq> js ''relay'' \<longrightarrow>
            loadConfig parse env = Inl (js ''ICE_TRANSPORT_POLICY must be all or relay'')) \<and>
         (policy_of env = js ''relay'' \<and> \<not> has_turn servers \<longrightarrow>
            loadConfig parse env = Inl (js ''Relay policy requires a TURN server'')) \<and>
         (policy_of env = js ''all'' \<and> env (js ''PORT'') = Some raw \<and> \<not> (all_digits raw \<and> 1 \<le> digits_value raw \<and> digits_value raw \<le> 65535) \<longrightarrow>
            loadConfig parse env = Inl (js ''PORT must be an integer between 1 and '' @ decimal 65535))))"
proof (cases "base_path_lang (env_or env ''BASE_PATH'' (js ''/''))")
  case True
  then have base: "base_path_ok (env_or env ''BASE_PATH'' (js ''/''))" by (simp add: base_path_ok_lang)
  have port: "integer_var env ''PORT'' 3081 65535 = Inl (js ''PORT must be an integer between 1 and '' @ decimal 65535)"
    if "env (js ''PORT'') = Some raw" "\<not> (all_digits raw \<and> 1 \<le> digits_value raw \<and> digits_value raw \<le> 65535)"
    using that by (auto simp: integer_var_def Let_def) (simp_all add: js_def)
  have shape: "(case v of Arr servers \<Rightarrow> if list_all ice_server_ok servers then Inr servers else Inl e | _ \<Rightarrow> Inl e) =
      (if \<exists>servers. v = Arr servers \<and> list_all ice_server_ok servers then Inr (flat1 v) else Inl e)" for v and e :: jstring
    by (cases v) auto
  show ?thesis
    unfolding loadConfig_def Let_def
    using True base port
    by (auto simp: throw_if_def ice_servers_def policy_of_def shape split: option.splits)
qed (simp add: loadConfig_def base_path_ok_lang throw_if_def)

theorem config_errors_witness:
  "loadConfig demo_parse [js ''BASE_PATH'' \<mapsto> js ''m''] = Inl (js ''BASE_PATH must start and end with /, for example /maia-meet/'')"
proof -
  have "\<not> base_path_ok (js ''m'')" by (simp add: base_path_ok_def js_def)
  moreover have "env_or [js ''BASE_PATH'' \<mapsto> js ''m''] ''BASE_PATH'' (js ''/'') = js ''m''"
    by (simp add: env_or_def, simp add: js_def)
  ultimately show ?thesis using config_errors [of "[js ''BASE_PATH'' \<mapsto> js ''m'']" demo_parse] by (simp add: base_path_ok_lang)
qed

end
