(* ===== verification/Endpoint.thy ===== *)
theory Endpoint
  imports Http ConfigProperties
begin

text \<open>
  \<open>client/js/config.js\<close>: the address of the WebSocket, relative to the module itself. The class \<open>URL\<close> of the
  browser is a parameter; what is documented of it for two levels of a path is a hypothesis. The
  theorem ties the address to the gate of \<open>server.js\<close> that the upgrade request meets.
\<close>

section \<open>The address\<close>

text \<open>\<open>new URL(relative, base)\<close>, the property \<open>protocol\<close> and its setter, and \<open>href\<close>.\<close>

record 'u url_ops =
  new_URL :: "jstring \<Rightarrow> jstring \<Rightarrow> 'u"
  protocol_of :: "'u \<Rightarrow> jstring"
  set_protocol :: "'u \<Rightarrow> jstring \<Rightarrow> 'u"
  href_of :: "'u \<Rightarrow> jstring"

definition signalingUrl :: "'u url_ops \<Rightarrow> jstring \<Rightarrow> jstring" where
  "signalingUrl U module_url =
     (let endpoint = new_URL U (js ''../ws'') module_url
      in href_of U (set_protocol U endpoint (if protocol_of U endpoint = js ''https:'' then js ''wss:'' else js ''ws:'')))"

section \<open>The address and the gate\<close>

text \<open>A URL of a host, where the path is a directory that ends with a slash and a rest.\<close>

definition url_text :: "jstring \<Rightarrow> jstring \<Rightarrow> jstring \<Rightarrow> jstring" where
  "url_text protocol host path = protocol @ js ''//'' @ host @ path"

text \<open>From a module two levels below a directory, \<open>../ws\<close> is \<open>ws\<close> in that directory, and the setter
  replaces the scheme and keeps the rest. This is documented for every page; \<open>protocol\<close> and \<open>host\<close> are those
  of the page, as the browser writes them, and the names are such that nothing is escaped.\<close>

definition dot_dot_documented :: "'u url_ops \<Rightarrow> jstring \<Rightarrow> jstring \<Rightarrow> bool" where
  "dot_dot_documented U protocol host \<longleftrightarrow> (\<forall>dir sub file.
     list_all (\<lambda>c. path_char c \<or> c = 47) dir \<and> (dir = [] \<or> last dir = 47) \<and> sub \<noteq> [] \<and> list_all path_char sub \<and>
     file \<noteq> [] \<and> list_all (\<lambda>c. path_char c \<or> c = 46) file \<and> hd file \<noteq> 46 \<longrightarrow>
     (let u = new_URL U (js ''../ws'') (url_text protocol host (47 # dir @ sub @ [47] @ file)) in
      protocol_of U u = protocol \<and>
      (\<forall>p \<in> {js ''ws:'', js ''wss:''}. href_of U (set_protocol U u p) = url_text p host (47 # dir @ js ''ws''))))"

lemma base_path_dir:
  assumes "base_path_ok p"
  obtains dir where "p = 47 # dir" "list_all (\<lambda>c. path_char c \<or> c = 47) dir" "dir = [] \<or> last dir = 47"
proof -
  from assms obtain gs where gs: "\<forall>g \<in> set gs. g \<noteq> [] \<and> list_all path_char g" "p = 47 # concat (map (\<lambda>g. g @ [47]) gs)"
    by (auto simp: base_path_ok_lang base_path_lang_def)
  have "list_all (\<lambda>c. path_char c \<or> c = 47) (concat (map (\<lambda>g. g @ [47]) gs))" using gs(1) by (auto simp: list_all_iff)
  moreover have "concat (map (\<lambda>g. g @ [47]) gs) = [] \<or> last (concat (map (\<lambda>g. g @ [47]) gs)) = 47"
    by (cases gs rule: rev_cases) simp_all
  ultimately show thesis using gs(2) that by blast
qed

lemma loaded_base_path: "loadConfig parse env = Inr cfg \<Longrightarrow> base_path_ok (cfg_basePath cfg)"
  by (erule loadConfig_parts) simp

lemma module_file: "list_all path_char (js ''js'')" "list_all (\<lambda>c. path_char c \<or> c = 46) (js ''config.js'')"
  by (simp_all add: js_def path_char_def char_class_defs)

text \<open>C31. The client dials the path the server listens on: for every base path a configuration may have, the module
  that the server serves as \<open>js/config.js\<close> below it computes the address of \<open>ws\<close> below the same base path,
  secure exactly if the page is, and the upgrade request for that path passes the gate when the origin
  is allowed.\<close>

theorem endpoint_accepted:
  assumes "dot_dot_documented U protocol host" and "loadConfig parse env = Inr cfg"
    and "cfg_allowedOrigins cfg = [] \<or> (\<exists>site \<in> set (cfg_allowedOrigins cfg). origin = Some site)"
  shows "signalingUrl U (url_text protocol host (cfg_basePath cfg @ js ''js/config.js'')) =
      url_text (if protocol = js ''https:'' then js ''wss:'' else js ''ws:'') host (cfg_basePath cfg @ js ''ws'') \<and>
    upgrade_ok cfg (cfg_basePath cfg @ js ''ws'') origin"
proof -
  obtain dir where dir: "cfg_basePath cfg = 47 # dir" "list_all (\<lambda>c. path_char c \<or> c = 47) dir" "dir = [] \<or> last dir = 47"
    using loaded_base_path [OF assms(2)] by (rule base_path_dir)
  have path: "cfg_basePath cfg @ js ''js/config.js'' = 47 # dir @ js ''js'' @ [47] @ js ''config.js''" by (simp add: dir(1) js_def)
  have "js ''js'' \<noteq> []" "js ''config.js'' \<noteq> []" "hd (js ''config.js'') \<noteq> 46" by (simp_all add: js_def)
  with assms(1) dir(2,3) module_file have "let u = new_URL U (js ''../ws'') (url_text protocol host (cfg_basePath cfg @ js ''js/config.js'')) in
      protocol_of U u = protocol \<and>
      (\<forall>p \<in> {js ''ws:'', js ''wss:''}. href_of U (set_protocol U u p) = url_text p host (cfg_basePath cfg @ js ''ws''))"
    unfolding dot_dot_documented_def path unfolding dir(1) by simp
  then show ?thesis using assms(3) by (auto simp: signalingUrl_def Let_def upgrade_ok_def)
qed

text \<open>A class of that kind for one page, with its scheme and the path in a pair.\<close>

definition up_two :: "jstring \<Rightarrow> jstring" where
  "up_two p = rev (dropWhile (\<lambda>c. c \<noteq> 47) (tl (dropWhile (\<lambda>c. c \<noteq> 47) (rev p))))"

definition page_urls :: "jstring \<Rightarrow> jstring \<Rightarrow> (jstring \<times> jstring) url_ops" where
  "page_urls protocol host = \<lparr>new_URL = (\<lambda>relative base. (protocol, up_two (drop (length (url_text protocol host [])) base) @ drop 3 relative)),
     protocol_of = fst, set_protocol = (\<lambda>u p. (p, snd u)), href_of = (\<lambda>u. url_text (fst u) host (snd u))\<rparr>"

lemma page_urls_documented: "dot_dot_documented (page_urls protocol host) protocol host"
proof -
  have up: "up_two (47 # dir @ sub @ 47 # fname) = 47 # dir"
    if "dir = [] \<or> last dir = 47" "\<And>c. c \<in> set sub \<Longrightarrow> c \<noteq> 47" "\<And>c. c \<in> set fname \<Longrightarrow> c \<noteq> 47" for dir sub fname
  proof -
    have "dropWhile (\<lambda>c. c \<noteq> 47) (rev (47 # dir @ sub @ 47 # fname)) = 47 # rev sub @ rev (47 # dir)"
      using that(3) by (simp, subst dropWhile_append2) auto
    moreover have "dropWhile (\<lambda>c. c \<noteq> 47) (rev sub @ rev (47 # dir)) = dropWhile (\<lambda>c. c \<noteq> 47) (rev (47 # dir))"
      using that(2) by (subst dropWhile_append2) auto
    moreover have "dropWhile (\<lambda>c. c \<noteq> 47) (rev (47 # dir)) = rev (47 # dir)"
      using that(1) by (cases dir rule: rev_cases) auto
    ultimately show ?thesis by (simp add: up_two_def)
  qed
  have "drop (length (url_text protocol host [])) (url_text protocol host p) = p" for p by (simp add: url_text_def)
  moreover have "drop 3 (js ''../ws'') = js ''ws''" by (simp add: js_def)
  moreover have "up_two (47 # dir @ sub @ 47 # fname) = 47 # dir"
    if "dir = [] \<or> last dir = 47" "list_all path_char sub" "list_all (\<lambda>c. path_char c \<or> c = 46) fname" for dir sub fname
    using that by (intro up) (auto simp: list_all_iff)
  ultimately show ?thesis
    unfolding dot_dot_documented_def by (intro allI impI) (simp add: page_urls_def Let_def)
qed

theorem endpoint_accepted_witness:
  "\<exists>cfg. loadConfig demo_parse Map.empty = Inr cfg \<and>
     signalingUrl (page_urls (js ''https:'') (js ''m.org'')) (js ''https://m.org/js/config.js'') = js ''wss://m.org/ws''"
proof -
  have "\<exists>cfg. loadConfig demo_parse Map.empty = Inr cfg \<and> cfg_basePath cfg = js ''/'' \<and> cfg_allowedOrigins cfg = []"
    by (simp add: loadConfig_def env_or_def demo_base throw_if_def integer_var_Inr demo_parse_def demo_server_ok trim_def)
  then obtain cfg where cfg: "loadConfig demo_parse Map.empty = Inr cfg" "cfg_basePath cfg = js ''/''" "cfg_allowedOrigins cfg = []"
    by blast
  from endpoint_accepted [OF page_urls_documented cfg(1), of None "js ''https:''" "js ''m.org''"] cfg show ?thesis
    by (auto simp: url_text_def js_def)
qed

end
