(* ===== verification/Deploy.thy ===== *)
theory Deploy
  imports ConfigProperties
begin

text \<open>
  The two scripts under \<open>deploy/\<close> that are written in JavaScript: \<open>configure.mjs\<close>, which asks for the
  settings and saves them to \<open>.env\<close>, and \<open>render-nginx.mjs\<close>, which prints an nginx snippet. What they
  read (\<open>parseEnv\<close> of the files, the answers) is an argument, and so are \<open>JSON.parse\<close> and \<open>isIP\<close>; what
  they write is the result.
\<close>

section \<open>configure.mjs\<close>

definition prompts :: "string list" where
  "prompts = [''HOST'', ''PORT'', ''BASE_PATH'', ''MAX_PARTICIPANTS'', ''ALLOWED_ORIGINS'']"

text \<open>\<open>{ ...example, ...previous }\<close>, and the answers: a blank one keeps the value.\<close>

definition merged :: "(jstring \<times> jstring) list \<Rightarrow> (jstring \<times> jstring) list \<Rightarrow> (jstring \<times> jstring) list" where
  "merged example previous = fold (\<lambda>(k, v) m. AList.update k v m) previous example"

definition take_answer :: "string \<times> jstring \<Rightarrow> (jstring \<times> jstring) list \<Rightarrow> (jstring \<times> jstring) list" where
  "take_answer x settings = (if trim (snd x) \<noteq> [] then AList.update (js (fst x)) (trim (snd x)) settings else settings)"

definition unquotable :: "jstring \<Rightarrow> bool" where
  "unquotable v \<longleftrightarrow> list_ex (\<lambda>c. c = 10 \<or> c = 13 \<or> c = 39) v"

definition env_body :: "(jstring \<times> jstring) list \<Rightarrow> jstring" where
  "env_body settings = concat (map (\<lambda>(k, v). k @ js ''='' @ [39] @ v @ [39, 10]) settings)"

definition env_text :: "(jstring \<times> jstring) list \<Rightarrow> jstring" where
  "env_text settings = (if settings = [] then [10] else env_body settings)"

text \<open>What is written to \<open>.env.backup\<close>, if anything, and to \<open>.env\<close>.\<close>

record saved =
  sd_backup :: "jstring option"
  sd_env :: jstring

definition configure :: "(jstring \<Rightarrow> jsval option) \<Rightarrow> (jstring \<times> jstring) list \<Rightarrow> jstring \<Rightarrow> (jstring \<times> jstring) list \<Rightarrow>
    jstring list \<Rightarrow> jstring + saved" where
  "configure parse example previous_text previous answers =
     (let settings = fold take_answer (zip prompts answers) (merged example previous) in
      and_then (loadConfig parse (map_of settings)) (\<lambda>cfg.
      and_then (throw_if (list_ex (unquotable \<circ> snd) settings) (js ''Values cannot contain newlines or single quotes'')) (\<lambda>_.
      Inr \<lparr>sd_backup = (if previous_text \<noteq> [] then Some previous_text else None), sd_env = env_text settings\<rparr>)))"

text \<open>The file of before: a missing one counts as empty, and any other error ends the script.\<close>

datatype read_result = Contents jstring | ENOENT | ReadFails jstring

fun read_previous :: "read_result \<Rightarrow> jstring + jstring" where
  "read_previous (Contents s) = Inr s"
| "read_previous ENOENT = Inr []"
| "read_previous (ReadFails err) = Inl err"

text \<open>What the script does to the files, with their modes, and to the terminal, which it closes in any case.\<close>

datatype script_effect =
    WriteFile string jstring nat
  | Chmod string nat
  | LogSaved
  | CloseInput

definition save_effects :: "jstring + saved \<Rightarrow> script_effect list" where
  "save_effects r =
     (case r of
        Inl err \<Rightarrow> []
      | Inr s \<Rightarrow> (case sd_backup s of Some old \<Rightarrow> [WriteFile ''.env.backup'' old 384] | None \<Rightarrow> []) @
          [WriteFile ''.env'' (sd_env s) 384, Chmod ''.env'' 384, LogSaved]) @ [CloseInput]"

section \<open>render-nginx.mjs\<close>

definition nginx_host :: "(jstring \<Rightarrow> nat) \<Rightarrow> jstring \<Rightarrow> jstring" where
  "nginx_host isIP host =
     (if host = js ''0.0.0.0'' then js ''127.0.0.1''
      else if host = js ''::'' then js ''[::1]''
      else if isIP host = 6 then js ''['' @ host @ js '']''
      else host)"

definition unlines :: "jstring list \<Rightarrow> jstring" where
  "unlines ls = concat (map (\<lambda>l. l @ [10]) ls)"

definition render_nginx :: "(jstring \<Rightarrow> nat) \<Rightarrow> config \<Rightarrow> jstring + jstring" where
  "render_nginx isIP cfg =
     (if isIP (cfg_host cfg) = 0 then Inl (js ''Use an IP address in HOST to generate the local nginx upstream'')
      else Inr (unlines (
        (if cfg_basePath cfg \<noteq> [47] then
           [js ''location = '' @ butlast (cfg_basePath cfg) @ js '' { return 308 '' @ cfg_basePath cfg @ js ''$is_args$args; }'']
         else []) @
        [js ''location ^~ '' @ cfg_basePath cfg @ js '' {'',
         js ''    # Preserve the path: BASE_PATH is handled by the Node server.'',
         js ''    proxy_pass http://'' @ nginx_host isIP (cfg_host cfg) @ js '':'' @ decimal (cfg_port cfg) @ js '';'',
         js ''    proxy_http_version 1.1;'',
         js ''    proxy_set_header Host $host;'',
         js ''    proxy_set_header X-Forwarded-Proto $scheme;'',
         js ''    proxy_set_header X-Forwarded-For $proxy_add_x_forwarded_for;'',
         js ''    proxy_set_header Upgrade $http_upgrade;'',
         js ''    proxy_set_header Connection \"upgrade\";'',
         js ''    proxy_read_timeout 3600s;'',
         js ''    proxy_send_timeout 3600s;'',
         js ''    proxy_buffering off;'',
         js ''}''])))"

section \<open>Nothing is lost\<close>

text \<open>The settings are written only when they are valid and can be quoted; a refused run writes no file; and
  before the file of before is overwritten, it is saved as it was.\<close>

lemma configure_backup: "configure parse example old previous answers = Inr s \<Longrightarrow> sd_backup s = (if old \<noteq> [] then Some old else None)"
  by (auto simp: configure_def Let_def)

lemma save_or_keep:
  "save_effects (configure parse example old previous answers) = [CloseInput] \<or>
   (\<exists>pre text. save_effects (configure parse example old previous answers) = pre @ [WriteFile ''.env'' text 384, Chmod ''.env'' 384, LogSaved, CloseInput] \<and>
     pre = (if old = [] then [] else [WriteFile ''.env.backup'' old 384]))"
  by (cases "configure parse example old previous answers")
    (auto simp: save_effects_def dest: configure_backup)

section \<open>Reading the settings back\<close>

text \<open>The name of a variable as the documentation of dotenv files has it: letters, digits and underscores,
  no digit first.\<close>

definition env_name :: "jstring \<Rightarrow> bool" where
  "env_name k \<longleftrightarrow> k \<noteq> [] \<and> list_all (\<lambda>c. is_alnum c \<or> c = 95) k \<and> \<not> is_digit (hd k)"

text \<open>
  What is documented of \<open>parseEnv\<close> of \<open>node:util\<close>, the argument \<open>R\<close>, whose result is the object's
  properties in some order: a name is a property once; the empty text gives none; and a line
  \<open>NAME='...'\<close> gives the name the characters between the two quotes, whatever they are, as long as
  none is a quote, a line feed or a carriage return, and a later line for the same name wins. Nothing is
  said of a value with such a character.
\<close>

definition parse_env_documented :: "(jstring \<Rightarrow> (jstring \<times> jstring) list) \<Rightarrow> bool" where
  "parse_env_documented R \<longleftrightarrow> R [] = [] \<and> (\<forall>t. distinct (keys_of (R t))) \<and>
     (\<forall>k v rest. env_name k \<longrightarrow> 10 \<notin> set v \<longrightarrow> 13 \<notin> set v \<longrightarrow> 39 \<notin> set v \<longrightarrow>
        map_of (R (k @ js ''='' @ [39] @ v @ [39, 10] @ rest)) = [k \<mapsto> v] ++ map_of (R rest))"

lemma parse_env_body:
  assumes "parse_env_documented R"
  shows "list_all (\<lambda>(k, v). env_name k \<and> \<not> unquotable v) settings \<Longrightarrow> distinct (keys_of settings) \<Longrightarrow>
    map_of (R (env_body settings)) = map_of settings"
proof (induction settings)
  case Nil
  show ?case using assms by (simp add: env_body_def parse_env_documented_def)
next
  case (Cons x settings)
  obtain k v where x: "x = (k, v)" by force
  have "env_name k" and "10 \<notin> set v" "13 \<notin> set v" "39 \<notin> set v"
    using Cons.prems by (auto simp: x unquotable_def list_ex_iff)
  with assms have "map_of (R (k @ js ''='' @ [39] @ v @ [39, 10] @ env_body settings)) =
      [k \<mapsto> v] ++ map_of (R (env_body settings))"
    unfolding parse_env_documented_def by blast
  moreover have "env_body (x # settings) = k @ js ''='' @ [39] @ v @ [39, 10] @ env_body settings"
    by (simp add: env_body_def x)
  moreover have "map_of settings k = None" using Cons.prems(2) by (simp add: x map_of_eq_None_iff)
  ultimately show ?case using Cons by (auto simp: x map_add_def fun_eq_iff split: option.split)
qed

lemma update_not_Nil [simp]: "AList.update k v m \<noteq> []"
  by (cases m) auto

lemma merged_not_Nil: "example \<noteq> [] \<Longrightarrow> merged example previous \<noteq> []"
  unfolding merged_def by (induction previous arbitrary: example) (auto simp: split_beta)

lemma answers_not_Nil: "settings \<noteq> [] \<Longrightarrow> fold take_answer xs settings \<noteq> []"
  by (induction xs arbitrary: settings) (auto simp: take_answer_def)

lemma update_keys_set [simp]: "fst ` set (AList.update k v m) = insert k (fst ` set m)"
  by (induction m) auto

lemma keys_merged: "set (keys_of (merged example previous)) = set (keys_of example) \<union> set (keys_of previous)"
  unfolding merged_def by (induction previous arbitrary: example) (simp_all add: split_beta)

lemma distinct_merged: "distinct (keys_of example) \<Longrightarrow> distinct (keys_of (merged example previous))"
  unfolding merged_def by (induction previous arbitrary: example) (auto simp: split_beta distinct_update)

lemma distinct_answers: "distinct (keys_of m) \<Longrightarrow> distinct (keys_of (fold take_answer xs m))"
  by (induction xs arbitrary: m) (auto simp: take_answer_def distinct_update)

lemma names_answers:
  "list_all env_name (keys_of m) \<Longrightarrow> fst ` set xs \<subseteq> set prompts \<Longrightarrow> list_all env_name (keys_of (fold take_answer xs m))"
proof (induction xs arbitrary: m)
  case (Cons x xs)
  have "list_all (env_name \<circ> js) prompts"
    by (simp add: prompts_def env_name_def js_def is_alnum_def is_digit_def)
  with Cons.prems(2) have "env_name (js (fst x))" by (auto simp: list_all_iff)
  with Cons.prems(1) have "list_all env_name (keys_of (take_answer x m))"
    by (auto simp: take_answer_def list_all_iff simp del: ball_simps set_map) (auto simp: image_iff)
  with Cons show ?case by simp
qed simp

text \<open>C35. What the script saves is what it checked: if it saves, \<open>parseEnv\<close> reads from the new \<open>.env\<close>
  exactly the checked settings, name by name, so the server that is started with the file loads the very
  configuration that was checked; the settings are those of the example and of the file of before, with
  the answers that are not blank, trimmed, and what was in the file before is kept as the backup. No
  value breaks out of its line or its quotes.\<close>

theorem saved_settings_read_back:
  assumes "parse_env_documented R"
    and "configure parse (R example_text) previous_text (R previous_text) answers = Inr sd" and "R example_text \<noteq> []"
    and "list_all env_name (keys_of (R example_text) @ keys_of (R previous_text))"
  shows "map_of (R (sd_env sd)) = map_of (fold take_answer (zip prompts answers) (merged (R example_text) (R previous_text))) \<and>
    (\<exists>cfg. loadConfig parse (map_of (R (sd_env sd))) = Inr cfg) \<and>
    sd_backup sd = (if previous_text = [] then None else Some previous_text)"
proof -
  let ?m = "merged (R example_text) (R previous_text)"
  let ?s = "fold take_answer (zip prompts answers) ?m"
  obtain cfg where cfg: "loadConfig parse (map_of ?s) = Inr cfg" and ok: "\<not> list_ex (unquotable \<circ> snd) ?s"
    and sd: "sd = \<lparr>sd_backup = (if previous_text \<noteq> [] then Some previous_text else None), sd_env = env_text ?s\<rparr>"
    using assms(2) unfolding configure_def Let_def
    by (cases "loadConfig parse (map_of ?s)") (auto simp: throw_if_def split: if_splits)
  have "set (keys_of ?m) = set (keys_of (R example_text)) \<union> set (keys_of (R previous_text))" by (rule keys_merged)
  with assms(4) have "list_all env_name (keys_of ?m)" unfolding list_all_iff set_append by blast
  then have "list_all env_name (keys_of ?s)" by (rule names_answers) (auto dest: set_zip_leftD)
  with ok have lines: "list_all (\<lambda>(k, v). env_name k \<and> \<not> unquotable v) ?s" by (auto simp: list_all_iff list_ex_iff)
  have "distinct (keys_of ?s)" using assms(1) unfolding parse_env_documented_def
    by (intro distinct_answers distinct_merged) blast
  with parse_env_body [OF assms(1) lines] have "map_of (R (env_body ?s)) = map_of ?s" .
  moreover have "?s \<noteq> []" by (rule answers_not_Nil [OF merged_not_Nil [OF assms(3)]])
  ultimately show ?thesis using cfg by (simp add: sd env_text_def)
qed

section \<open>A reader\<close>

text \<open>A reader as documented: no carriage returns, the name up to the equals sign, the value up to the next
  quote, and on after the end of the line; what has another form ends the reading.\<close>

function read_entries :: "jstring \<Rightarrow> (jstring \<times> jstring) list" where
  "read_entries s =
     (let k = takeWhile (\<lambda>c. c \<noteq> 61) s in
      case drop (length k) s of
        e # q # t \<Rightarrow> if q = 39 then (k, takeWhile (\<lambda>c. c \<noteq> 39) t) # read_entries (drop 1 (dropWhile (\<lambda>c. c \<noteq> 10) (dropWhile (\<lambda>c. c \<noteq> 39) t)))
          else []
      | _ \<Rightarrow> [])"
  by pat_completeness auto
termination
proof (relation "measure length")
  fix s k e q t ys and x :: "16 word"
  assume "k = takeWhile (\<lambda>c. c \<noteq> 61) s" and "drop (length k) s = e # ys" and "ys = q # t"
  then have "length (drop (length k) s) = Suc (Suc (length t))" by simp
  then have "length t < length s" unfolding length_drop by arith
  moreover have "length (drop 1 (dropWhile (\<lambda>c. c \<noteq> 10) (dropWhile (\<lambda>c. c \<noteq> 39) t))) \<le> length t"
    by (simp, metis diff_le_self le_trans length_dropWhile_le)
  ultimately show "(drop 1 (dropWhile (\<lambda>c. c \<noteq> 10) (dropWhile (\<lambda>c. c \<noteq> 39) t)), s) \<in> measure length" by simp
qed simp

declare read_entries.simps [simp del]

definition read_env :: "jstring \<Rightarrow> (jstring \<times> jstring) list" where
  "read_env t = merged [] (read_entries (filter (\<lambda>c. c \<noteq> 13) t))"

lemma merged_map: "map_of (merged m xs) = map_of m ++ map_of (merged [] xs)"
proof (induction xs arbitrary: m)
  case (Cons x xs)
  have "merged m (x # xs) = merged (AList.update (fst x) (snd x) m) xs" for m by (simp add: merged_def split_beta)
  with Cons.IH [of "AList.update (fst x) (snd x) m"] Cons.IH [of "AList.update (fst x) (snd x) []"] show ?case
    by (auto simp: map_of_update_eq map_add_def fun_eq_iff split: option.split)
qed (simp add: merged_def)

lemma read_entries_line:
  assumes "61 \<notin> set k" and "39 \<notin> set v"
  shows "read_entries (k @ 61 # 39 # v @ 39 # 10 # rest) = (k, v) # read_entries rest"
proof -
  have "takeWhile (\<lambda>c. c \<noteq> 61) (k @ 61 # x) = k" for x using assms(1) by (subst takeWhile_append2) auto
  moreover have "takeWhile (\<lambda>c. c \<noteq> 39) (v @ 39 # x) = v" "dropWhile (\<lambda>c. c \<noteq> 39) (v @ 39 # x) = 39 # x" for x
    using assms(2) by (subst takeWhile_append2 dropWhile_append2; auto)+
  ultimately show ?thesis by (subst read_entries.simps) simp
qed

lemma read_env_documented: "parse_env_documented read_env"
  unfolding parse_env_documented_def
proof (intro conjI allI impI)
  show "read_env [] = []" by (simp add: read_env_def merged_def read_entries.simps)
  show "distinct (keys_of (read_env t))" for t unfolding read_env_def by (rule distinct_merged) simp
  fix k v rest :: jstring
  assume k: "env_name k" and v: "10 \<notin> set v" "13 \<notin> set v" "39 \<notin> set v"
  have "13 \<notin> set k" "61 \<notin> set k" using k by (auto simp: env_name_def list_all_iff is_alnum_def is_digit_def)
  with v have plain: "filter (\<lambda>c. c \<noteq> 13) (k @ js ''='' @ [39] @ v @ [39, 10] @ rest) = k @ 61 # 39 # v @ 39 # 10 # filter (\<lambda>c. c \<noteq> 13) rest"
    by (simp add: js_def) (metis (mono_tags, lifting) filter_True)
  have "read_env (k @ js ''='' @ [39] @ v @ [39, 10] @ rest) = merged [(k, v)] (read_entries (filter (\<lambda>c. c \<noteq> 13) rest))"
    unfolding read_env_def plain read_entries_line [OF \<open>61 \<notin> set k\<close> v(3)] by (simp add: merged_def)
  then show "map_of (read_env (k @ js ''='' @ [39] @ v @ [39, 10] @ rest)) = [k \<mapsto> v] ++ map_of (read_env rest)"
    by (simp only: merged_map [of "[(k, v)]"] read_env_def) simp
qed

text \<open>The port is answered, the rest is blank.\<close>

definition demo_example :: "(jstring \<times> jstring) list" where
  "demo_example = [(js ''HOST'', js ''127.0.0.1''), (js ''PORT'', js ''3081'')]"

definition demo_settings :: "(jstring \<times> jstring) list" where
  "demo_settings = [(js ''HOST'', js ''127.0.0.1''), (js ''PORT'', js ''81'')]"

lemma demo_answered: "fold take_answer (zip prompts [[], js '' 81'', [], [], []]) (merged demo_example []) = demo_settings"
  by (simp add: prompts_def take_answer_def merged_def demo_example_def demo_settings_def trim_def)
    (simp add: js_def is_space_def)

lemma demo_configured: "configure demo_parse demo_example [] [] [[], js '' 81'', [], [], []] =
    Inr \<lparr>sd_backup = None, sd_env = env_text demo_settings\<rparr>"
proof -
  have "\<exists>cfg. loadConfig demo_parse (map_of demo_settings) = Inr cfg"
    by (simp add: loadConfig_def env_or_def demo_base throw_if_def integer_var_Inr demo_parse_def demo_server_ok demo_settings_def)
      (simp add: js_def all_digits_def digits_value_def is_digit_def)
  moreover have "\<not> list_ex (unquotable \<circ> snd) demo_settings" by (simp add: demo_settings_def unquotable_def js_def)
  ultimately show ?thesis by (auto simp: configure_def demo_answered throw_if_def Let_def)
qed

lemma demo_example_read: "read_env (env_text demo_example) = demo_example"
proof -
  have "filter (\<lambda>c. c \<noteq> 13) (env_text demo_example) = env_text demo_example"
    by (simp add: env_text_def env_body_def demo_example_def js_def)
  moreover have "env_text demo_example = js ''HOST'' @ 61 # 39 # js ''127.0.0.1'' @ 39 # 10 # (js ''PORT'' @ 61 # 39 # js ''3081'' @ 39 # 10 # [])"
    by (simp add: env_text_def env_body_def demo_example_def js_def)
  moreover have "read_entries [] = []" by (simp add: read_entries.simps)
  ultimately show ?thesis
    using read_entries_line [of "js ''HOST''" "js ''127.0.0.1''"] read_entries_line [of "js ''PORT''" "js ''3081''" "[]"]
    by (simp add: read_env_def) (simp add: merged_def demo_example_def js_def)
qed

theorem saved_settings_read_back_witness:
  "map_of (read_env (env_text demo_settings)) = map_of demo_settings"
proof -
  have "read_env [] = []" using read_env_documented by (simp add: parse_env_documented_def)
  moreover have "list_all env_name (keys_of demo_example)"
    by (simp add: demo_example_def env_name_def js_def is_alnum_def is_digit_def)
  moreover have "demo_example \<noteq> []" by (simp add: demo_example_def)
  ultimately show ?thesis
    using saved_settings_read_back [where R = read_env and example_text = "env_text demo_example" and previous_text = "[]",
        unfolded demo_example_read, OF read_env_documented]
    by (metis append_Nil2 demo_answered demo_configured list.simps(8) saved.select_convs(2))
qed

end
