(* ===== verification/SfuClient.thy ===== *)
theory SfuClient
  imports ServerConfig
begin

text \<open>
  \<open>signaling/src/sfu-client.js\<close>: the client of the selective forwarding unit's control interface,
  which no module of the mesh server imports. \<open>fetch\<close> is outside: an operation is the request it
  makes, and its outcome is a function of the response. The log line is left out.
\<close>

section \<open>Requests\<close>

text \<open>The object \<open>loadConfig\<close> returns, as the client reads it, and a value in a template literal, where
  it is a string, a natural number or missing.\<close>

definition config_object :: "config \<Rightarrow> jsval" where
  "config_object cfg = Obj [
     (js ''host'', Str (cfg_host cfg)), (js ''port'', jnum (int (cfg_port cfg))), (js ''basePath'', Str (cfg_basePath cfg)),
     (js ''maxMessageBytes'', jnum (int (cfg_maxMessageBytes cfg))), (js ''maxParticipants'', jnum (int (cfg_maxParticipants cfg))),
     (js ''rateLimitTokens'', jnum (int (cfg_rateLimitTokens cfg))), (js ''rateLimitInterval'', jnum (cfg_rateLimitInterval cfg)),
     (js ''rtcConfig'', cfg_rtcConfig cfg), (js ''allowedOrigins'', Arr (map Str (cfg_allowedOrigins cfg)))]"

definition in_template :: "jsval \<Rightarrow> jstring" where
  "in_template v = (case v of
     Str s \<Rightarrow> s
   | Num (Finite r) \<Rightarrow> decimal (nat \<lfloor>r\<rfloor>)
   | _ \<Rightarrow> js ''undefined'')"

definition baseUrl :: "config \<Rightarrow> jstring" where
  "baseUrl cfg = js ''http://'' @ in_template (get_prop (config_object cfg) (js ''sfuHost'')) @ js '':'' @
     in_template (get_prop (config_object cfg) (js ''sfuPort''))"

record sfu_call =
  sc_method :: string
  sc_url :: jstring
  sc_contentType :: "string option"
  sc_body :: "jsval option"

text \<open>\<open>_request\<close> up to \<open>fetch\<close>; the body is absent where it is \<open>null\<close>.\<close>

definition sfu_request :: "config \<Rightarrow> string \<Rightarrow> jstring \<Rightarrow> jsval option \<Rightarrow> sfu_call" where
  "sfu_request cfg method path body =
     \<lparr>sc_method = method, sc_url = baseUrl cfg @ path,
      sc_contentType = map_option (\<lambda>b. ''application/json'') body, sc_body = map_option wire body\<rparr>"

record sfu_response =
  sr_status :: nat
  sr_statusText :: jstring
  sr_contentType :: "jstring option"
  sr_json :: "jstring + jsval"

fun has_substring :: "jstring \<Rightarrow> jstring \<Rightarrow> bool" where
  "has_substring [] p = (p = [])"
| "has_substring (c # cs) p = (starts_with (c # cs) p \<or> has_substring cs p)"

text \<open>\<open>_request\<close> after \<open>fetch\<close>, which throws a message or gives the response: it throws or returns.\<close>

definition sfu_result :: "jstring + sfu_response \<Rightarrow> jstring + jsval" where
  "sfu_result fetched = and_then fetched (\<lambda>response.
     if \<not> (200 \<le> sr_status response \<and> sr_status response \<le> 299) then
       Inl (js ''SFU returned '' @ decimal (sr_status response) @ js '' '' @ sr_statusText response)
     else if sr_status response \<noteq> 204 \<and>
         (case sr_contentType response of Some t \<Rightarrow> has_substring t (js ''application/json'') | None \<Rightarrow> False)
       then sr_json response
     else Inr Null)"

section \<open>Operations\<close>

definition createTransport :: "config \<Rightarrow> jsval \<Rightarrow> jsval \<Rightarrow> sfu_call" where
  "createTransport cfg conferenceId participantId = sfu_request cfg ''POST'' (js ''/transports'')
     (Some (Obj [(js ''conferenceId'', conferenceId), (js ''participantId'', participantId)]))"

definition deleteTransport :: "config \<Rightarrow> jstring \<Rightarrow> sfu_call" where
  "deleteTransport cfg transportId = sfu_request cfg ''DELETE'' (js ''/transports/'' @ transportId) None"

definition setRemoteDescription :: "config \<Rightarrow> jstring \<Rightarrow> jsval \<Rightarrow> sfu_call" where
  "setRemoteDescription cfg transportId sdp = sfu_request cfg ''POST''
     (js ''/transports/'' @ transportId @ js ''/remote-description'') (Some (Obj [(js ''sdp'', sdp)]))"

definition addIceCandidate :: "config \<Rightarrow> jstring \<Rightarrow> jsval \<Rightarrow> jsval \<Rightarrow> jsval \<Rightarrow> sfu_call" where
  "addIceCandidate cfg transportId candidate sdpMid sdpMLineIndex = sfu_request cfg ''POST''
     (js ''/transports/'' @ transportId @ js ''/ice-candidate'')
     (Some (Obj [(js ''candidate'', candidate), (js ''sdpMid'', sdpMid), (js ''sdpMLineIndex'', sdpMLineIndex)]))"

text \<open>No request of this client can reach a unit: the configuration has neither of the two settings
  the base URL is made of, so that every operation, under every configuration, goes to the host
  \<open>undefined\<close>.\<close>

theorem sfu_unreachable:
  "call \<in> {createTransport cfg x y, deleteTransport cfg t, setRemoteDescription cfg t x, addIceCandidate cfg t x y z} \<Longrightarrow>
   starts_with (sc_url call) (js ''http://undefined:undefined/transports'')"
proof -
  have "baseUrl cfg = js ''http://undefined:undefined''"
    by (simp add: baseUrl_def config_object_def in_template_def js_def)
  then show "call \<in> {createTransport cfg x y, deleteTransport cfg t, setRemoteDescription cfg t x, addIceCandidate cfg t x y z} \<Longrightarrow>
      starts_with (sc_url call) (js ''http://undefined:undefined/transports'')"
    by (auto simp: createTransport_def deleteTransport_def setRemoteDescription_def addIceCandidate_def sfu_request_def
        starts_with_def js_def)
qed

end
