(* ===== verification/Logger.thy ===== *)
theory Logger
  imports ServerConfig
begin

text \<open>
  \<open>signaling/src/logger.js\<close>: the line a call of the logger prints, as the method of \<open>console\<close> and its
  arguments. The clock is the argument \<open>now\<close>.
\<close>

datatype log_level = LogInfo | LogWarn | LogError | LogDebug

fun console_method :: "log_level \<Rightarrow> string" where
  "console_method LogInfo = ''log''"
| "console_method LogWarn = ''warn''"
| "console_method LogError = ''error''"
| "console_method LogDebug = ''debug''"

fun log_tag :: "log_level \<Rightarrow> string" where
  "log_tag LogInfo = ''INFO:''"
| "log_tag LogWarn = ''WARN:''"
| "log_tag LogError = ''ERROR:''"
| "log_tag LogDebug = ''DEBUG:''"

definition logger :: "env \<Rightarrow> log_level \<Rightarrow> jstring \<Rightarrow> jsval list \<Rightarrow> (string \<times> jsval list) option" where
  "logger env level now args =
     (if level = LogDebug \<and> env_or env ''DEBUG'' [] = [] then None
      else Some (console_method level, Str now # Str (js (log_tag level)) # args))"

text \<open>Nothing but a debug line is ever dropped, and that one exactly when the variable \<open>DEBUG\<close> is unset or
  empty; a line that is printed tells its level.\<close>

lemma logger_drops: "logger env level now args = None \<longleftrightarrow> level = LogDebug \<and> (env (js ''DEBUG'') = None \<or> env (js ''DEBUG'') = Some [])"
  by (auto simp: logger_def env_or_def split: option.split list.split)

lemma log_tag_inj: "logger env l now args = Some (m, x # Str (js (log_tag k)) # ys) \<Longrightarrow> k = l"
  by (cases k; cases l) (auto simp: logger_def split: if_splits)

end
