(* ===== verification/Spec2Isabelle.thy ===== *)
theory Spec2Isabelle
  imports RoomManager ServerProperties ServerTiming Registry EndToEnd SessionTermination
    WindowProperties Http ConfigProperties Endpoint Deploy SfuClient Logger
begin

text \<open>
  A model of Maia Meet, a browser video meeting for small rooms: a Node server that serves the
  page and relays WebSocket messages between the browsers of a room, and a browser client that
  builds a mesh of peer connections from those messages.

  \<^bold>\<open>The program's parts and their theories.\<close>

  Shared: \<open>Prelude\<close> has association lists, error handling by sums, executions and reachable states,
  and the locale \<open>machine\<close> (an invariant that a step relation preserves). \<open>JsValues\<close> has JavaScript
  values, strings as lists of 16 bit code units, the trip of a value over the wire
  (\<open>JSON.stringify\<close> and \<open>JSON.parse\<close>) and the protocol envelope. \<open>WebSocketState\<close> has \<open>readyState\<close>.

  The server, \<open>signaling/src\<close>:
  \<^item> \<open>RoomStore\<close>: the contract of a table of rooms (locale \<open>room_store\<close>) and the nested Maps that
    implement it. \<open>RoomManager\<close> (\<open>rooms.js\<close>, \<open>participants.js\<close>) and the rooms table of \<open>server.js\<close>
    both interpret it; \<open>Registry\<close> compares them operation by operation in the states of the server.
  \<^item> \<open>ServerConfig\<close> (\<open>config.js\<close>): \<open>loadConfig\<close>. \<open>ConfigProperties\<close>: what a loaded configuration
    satisfies, and which error each bad setting gives.
  \<^item> \<open>Server\<close> (\<open>server.js\<close>): the state is \<open>server\<close>, that is the \<open>rooms\<close> Map, \<open>wss.clients\<close> with the
    closure variables of each connection (\<open>conn\<close>), the heartbeat timer and the exit code. Every
    listener is one definition and \<open>server_step\<close> the step relation over them; what a listener sends
    is a list of effects. \<open>ServerInvariant\<close> and \<open>ServerSafety\<close> have the invariant and who receives what,
    \<open>Scenario\<close> a meeting of two to run, \<open>ServerProperties\<close> the theorems about joins, departures, relays,
    chat and refusals, and \<open>ServerTiming\<close> those about the rate limit (locale \<open>limiter\<close>) and the heartbeat.
  \<^item> \<open>Http\<close> (\<open>server.js\<close>): the request handler that serves the client's files, \<open>decodeURIComponent\<close>,
    \<open>path.resolve\<close>, and the gate of the WebSocket upgrade; an answer has the files that were read for it.
  \<^item> \<open>SfuClient\<close> (\<open>sfu-client.js\<close>), a client that nothing imports, \<open>Logger\<close> (\<open>logger.js\<close>), and \<open>Deploy\<close>
    (\<open>deploy/configure.mjs\<close>, \<open>deploy/render-nginx.mjs\<close>).

  The browser client, \<open>client/js\<close>:
  \<^item> \<open>Emitter\<close>: the listener tables of two classes and their contract (locales \<open>listening\<close>, \<open>emitter\<close>).
  \<^item> \<open>RoomState\<close> (\<open>room.js\<close>), \<open>UI\<close> (\<open>ui.js\<close>, \<open>chat.js\<close>) and \<open>DeviceManager\<close> (\<open>devices.js\<close>): the room as
    the page knows it, the page, and cameras and microphones.
  \<^item> \<open>SignalingClient\<close> (\<open>signaling.js\<close>): connections, requests, their timers and promises, as the step
    relation \<open>client_step\<close>. \<open>SignalingProperties\<close>: what settles each promise, that none hangs, and that a
    client that hung up gets no answer.
  \<^item> \<open>WebRtcSession\<close> (\<open>webrtc.js\<close>): the peers and the queues of asynchronous operations, cut at their
    awaits, as the step relation \<open>session_step\<close>; making a connection may throw. \<open>WebRtcProperties\<close>: candidates in order and never too
    early, answers, offers, departures; \<open>SessionTermination\<close>: the queues drain.
  \<^item> \<open>App\<close> and \<open>MediaControls\<close> (\<open>app.js\<close>): joining, the calls of \<open>onJoinRoom\<close> that wait for an earlier client,
    leaving, the listeners and the chat; the preview, the buttons, the screen and the recorder. An answer
    to \<open>room.join\<close> that cannot be taken apart is shown as a \<open>TypeError\<close>. \<open>MediaProperties\<close>: the machine of the controls, \<open>control_step\<close>,
    and its invariant, leaving releases everything, and the ways in which the buttons and joining go wrong:
    a microphone refused by a sender, a microphone whose meter does not start, a screen shared too early,
    and a join that fails after the user has joined again.
  \<^item> \<open>Wiring\<close> (\<open>app.js\<close>, \<open>init\<close>): the window, that is the controls with the form fields, the address and the
    requests to the browser under way. \<open>click_table\<close> has the element of each button, \<open>run_action\<close> what it
    runs (a button can be clicked while its view is shown, \<open>view_table\<close>), and \<open>window_step\<close> is the machine; \<open>window_refines\<close> says that it refines \<open>control_step\<close>.
    \<open>WindowProperties\<close>: the buttons of the document tell the truth, invitation links lead back to their
    room, and a camera chosen in the preview may outlive it.
  \<^item> \<open>Endpoint\<close> (\<open>client/js/config.js\<close>): the address of the socket, and that the server's gate accepts it.

  Across the parts: \<open>Meeting\<close> puts a page against the server. The page's list of participants
  refines the server's room: the list of the room (\<open>roster\<close>) is changed by each frame the server sends
  exactly as the page changes its own (\<open>roster_frame\<close>). \<open>Negotiation\<close> follows an offer, an answer or a
  candidate from one page's session through the client and the server to the queue of the other's, and
  shows that a newcomer has one offer to make for each other member of its room.

  The whole system: \<open>Page\<close> is a page as a machine behind its socket (\<open>page_step\<close>, which puts the parts of
  the client together), and \<open>Network\<close> the server, any number of pages, any other clients, and the frames
  in flight (\<open>network_step\<close>), where the three run in any order, with pages that have no earlier join under way. Its invariant says of each page
  either what it still waits for or which room it shows once it has taken the frames on their way.
  The theorems: every page converges to the server's room, it always can, and two pages agree.
  \<open>Channels\<close> follows the signals from one participant to another over the runs of that system: in order,
  at most once, unchanged, and all of them unless the server complains. \<open>EndToEnd\<close> adds the peer
  sessions: an ICE candidate one browser finds is added to the other's connection in its turn, is kept
  there, or is on its way.

  \<^bold>\<open>What is a parameter.\<close> \<open>JSON.parse\<close> in the configuration, the URL parsers of server and browser, the
  file system, \<open>isIP\<close> and \<open>parseEnv\<close> are arguments of the definitions that use them. Random ids, the clock
  and the time stamps of a message come with the event (\<open>draws\<close>, \<open>browser\<close>). The package \<open>ws\<close>, the browser's
  sockets, \<open>RTCPeerConnection\<close>, media devices, the clipboard and \<open>MediaRecorder\<close> are outside: calling them is
  an effect, what they answer comes with an event, and each step relation names in its text the
  documented facts it builds on. The hypotheses about the class \<open>URL\<close> are \<open>url_documented\<close> and
  \<open>dot_dot_documented\<close>, that about \<open>parseEnv\<close> is \<open>parse_env_documented\<close>. Listeners registered by
  the page itself are modelled; a listener of another user of the two emitter classes is taken to return.

  \<^bold>\<open>Bounds and recursion.\<close> There is no fuel: every function is total. The measures are the size of
  a value (\<open>wire\<close>) and the length of a string (\<open>decodeURIComponent\<close>). Numbers of a message are rationals
  or one of the special values, which is exact for the comparisons the code makes; the level meter
  computes with rationals where the code has doubles. Code units are \<open>16 word\<close>s and bytes \<open>8 word\<close>s.

  \<^bold>\<open>Not modelled.\<close> The log lines the other modules write; the look-up of DOM elements, styles, and which
  option the browser shows first in a selector (choosing one is an event); the time format of a chat
  line; the limit \<open>maxPayload\<close>, which the package \<open>ws\<close> enforces; the start of the HTTP server. The
  forwarding unit under \<open>sfu\<close> is a C++ program the mesh server does not use, and the Python installers,
  shell scripts, style sheets and tests are left aside.
\<close>

end
